(* ===== verification/Prelude.thy ===== *)
theory Prelude
  imports Main "HOL-Library.Word" "HOL-Library.AList" "HOL-Library.Multiset"
begin

section \<open>Shared vocabulary of the development\<close>

text \<open>
  What every component shares: Go error values with wrapping and \<open>errors.Is\<close>, machine
  integers, decimal printing, Go maps (with their unspecified iteration order), log levels,
  reachability of a step relation and the interfaces (locales) that several components
  implement.
\<close>

named_theorems go_err \<open>definitions of the sentinel errors and of the error formatting helpers\<close>

type_synonym int32 = "32 word"
type_synonym int64 = "64 word"
type_synonym bytes = string

subsection \<open>Errors\<close>

text \<open>
  A Go error is nil or a value. An error made by \<open>errors.New\<close> is a pointer, so two package
  variables with the same text are different errors: \<open>ErrValue\<close> carries the package and the
  variable beside the text. \<open>fmt.Errorf\<close> with one \<open>%w\<close> makes a value that holds its
  finished text and the error it wraps; \<open>errors.Join\<close> holds a list. Errors that come from
  outside the repository (the Kafka client, a caller's handler) are any value of this type.
\<close>

datatype go_error =
    ErrValue string string string
  | WrapErr string go_error
  | JoinErr "go_error list"

fun intercalate :: "string \<Rightarrow> string list \<Rightarrow> string" where
  "intercalate sep [] = []"
| "intercalate sep [x] = x"
| "intercalate sep (x # y # zs) = x @ sep @ intercalate sep (y # zs)"

fun error_text :: "go_error \<Rightarrow> string" where
  "error_text (ErrValue p n t) = t"
| "error_text (WrapErr m e) = m"
| "error_text (JoinErr es) = intercalate [CHR 0x0A] (map error_text es)"

fun errors_is :: "go_error \<Rightarrow> go_error \<Rightarrow> bool" where
  "errors_is (ErrValue p n t) target = (ErrValue p n t = target)"
| "errors_is (WrapErr m e) target = (WrapErr m e = target \<or> errors_is e target)"
| "errors_is (JoinErr es) target =
     (JoinErr es = target \<or> list_ex (\<lambda>e. errors_is e target) es)"

text \<open>The two shapes of \<open>fmt.Errorf\<close> in the repository: \<open>"ctx: %w"\<close> and \<open>"%w: detail"\<close>.\<close>

definition errorf_ctx :: "string \<Rightarrow> go_error \<Rightarrow> go_error" where
  "errorf_ctx ctx e = WrapErr (ctx @ '': '' @ error_text e) e"

definition errorf_detail :: "go_error \<Rightarrow> string \<Rightarrow> go_error" where
  "errorf_detail e detail = WrapErr (error_text e @ '': '' @ detail) e"

definition errors_join :: "go_error option list \<Rightarrow> go_error option" where
  "errors_join es =
     (let xs = List.map_filter id es in if xs = [] then None else Some (JoinErr xs))"

lemma errors_is_refl [simp]: "errors_is e e"
  by (cases e) auto

lemma errors_is_errorf_ctx [simp]: "errors_is e t \<Longrightarrow> errors_is (errorf_ctx ctx e) t"
  by (simp add: errorf_ctx_def)

lemma errors_is_errorf_detail [simp]: "errors_is e t \<Longrightarrow> errors_is (errorf_detail e d) t"
  by (simp add: errorf_detail_def)

lemma error_text_errorf_ctx [simp]: "error_text (errorf_ctx ctx e) = ctx @ '': '' @ error_text e"
  by (simp add: errorf_ctx_def)

lemma error_text_errorf_detail [simp]: "error_text (errorf_detail e d) = error_text e @ '': '' @ d"
  by (simp add: errorf_detail_def)

lemma errorf_ctx_inject [simp]: "errorf_ctx c e = errorf_ctx c' e' \<longleftrightarrow> c = c' \<and> e = e'"
  by (auto simp: errorf_ctx_def)

lemma errorf_detail_inject [simp]: "errorf_detail e d = errorf_detail e' d' \<longleftrightarrow> e = e' \<and> d = d'"
  by (auto simp: errorf_detail_def)

lemma errors_is_sentinel_iff:
  "errors_is (errorf_ctx ctx e) (ErrValue p n t) \<longleftrightarrow> errors_is e (ErrValue p n t)"
  "errors_is (errorf_detail e d) (ErrValue p n t) \<longleftrightarrow> errors_is e (ErrValue p n t)"
  by (simp_all add: errorf_ctx_def errorf_detail_def)

lemma errors_join_None_iff: "errors_join es = None \<longleftrightarrow> (\<forall>e \<in> set es. e = None)"
  by (induction es) (auto simp: errors_join_def map_filter_simps Let_def split: option.splits if_splits)

subsection \<open>Outcomes of caller supplied functions, logging\<close>

text \<open>
  A function value the caller supplies returns an error or nil, or panics. A panic carries
  the \<open>%v\<close> rendering of its value, the only use the code makes of it.
\<close>

datatype outcome = Returned "go_error option" | Panicked string

text \<open>The end of a computation: a value, an error returned, or a panic of the code itself.\<close>

datatype 'a go_result = Val 'a | Fail go_error | Panic string

datatype log_level = LDebug | LInfo | LWarn | LError

subsection \<open>Decimal printing\<close>

text \<open>\<open>%d\<close> of \<open>fmt\<close>.\<close>

definition digit_char :: "nat \<Rightarrow> char" where
  "digit_char d = char_of (48 + d)"

fun nat_digits :: "nat \<Rightarrow> string" where
  "nat_digits n = (if n < 10 then [digit_char n] else nat_digits (n div 10) @ [digit_char (n mod 10)])"

declare nat_digits.simps [simp del]

definition itoa :: "int \<Rightarrow> string" where
  "itoa i = (if i < 0 then CHR ''-'' # nat_digits (nat (- i)) else nat_digits (nat i))"

definition is_digit :: "char \<Rightarrow> bool" where
  "is_digit c = (48 \<le> (of_char c :: nat) \<and> (of_char c :: nat) \<le> 57)"

definition digits_value :: "string \<Rightarrow> nat" where
  "digits_value s = foldl (\<lambda>a c. 10 * a + (of_char c - 48)) 0 s"

lemma of_char_digit_char: "d < 10 \<Longrightarrow> of_char (digit_char d) = 48 + d"
  by (simp add: digit_char_def of_char_of)

lemma is_digit_digit_char [simp]: "d < 10 \<Longrightarrow> is_digit (digit_char d)"
  by (simp add: is_digit_def of_char_digit_char)

lemma nat_digits_all: "list_all is_digit (nat_digits n)"
proof (induction n rule: nat_digits.induct)
  case (1 n)
  then show ?case by (subst nat_digits.simps) simp
qed

lemma nat_digits_nonempty [simp]: "nat_digits n \<noteq> []"
  by (subst nat_digits.simps) simp

lemma digits_value_nat_digits [simp]: "digits_value (nat_digits n) = n"
proof (induction n rule: nat_digits.induct)
  case (1 n)
  then show ?case
    by (subst nat_digits.simps) (simp add: digits_value_def of_char_digit_char)
qed

lemma nat_digits_inject [simp]: "nat_digits m = nat_digits n \<longleftrightarrow> m = n"
  by (metis digits_value_nat_digits)

definition is_itoa_char :: "char \<Rightarrow> bool" where
  "is_itoa_char c = (is_digit c \<or> c = CHR ''-'')"

lemma itoa_chars: "list_all is_itoa_char (itoa i)"
  using nat_digits_all [of "nat i"] nat_digits_all [of "nat (- i)"]
  by (auto simp: itoa_def is_itoa_char_def list_all_iff)

lemma minus_not_digit: "\<not> is_digit (CHR ''-'')"
  by (simp add: is_digit_def)

lemma itoa_inject [simp]: "itoa i = itoa j \<longleftrightarrow> i = j"
proof
  assume eq: "itoa i = itoa j"
  have no_minus: "nat_digits n \<noteq> CHR ''-'' # xs" for n xs
    using nat_digits_all [of n] minus_not_digit by auto
  from eq show "i = j"
    using no_minus no_minus [symmetric] by (auto simp: itoa_def split: if_splits)
qed auto

lemma itoa_nonempty [simp]: "itoa i \<noteq> []"
  by (simp add: itoa_def)

subsection \<open>Go maps\<close>

text \<open>
  A Go map is an association list without duplicate keys. \<open>range\<close> visits the entries in an
  order the language leaves open: an order is a parameter of every definition that iterates,
  and any permutation is allowed (\<open>iteration_order\<close>).
\<close>

type_synonym ('k, 'v) gomap = "('k \<times> 'v) list"

definition gomap_empty :: "('k, 'v) gomap" where
  "gomap_empty = []"

definition gomap_store :: "'k \<Rightarrow> 'v \<Rightarrow> ('k, 'v) gomap \<Rightarrow> ('k, 'v) gomap" where
  "gomap_store k v m = AList.update k v m"

definition gomap_lookup :: "('k, 'v) gomap \<Rightarrow> 'k \<Rightarrow> 'v option" where
  "gomap_lookup m k = map_of m k"

definition gomap_keys :: "('k, 'v) gomap \<Rightarrow> 'k list" where
  "gomap_keys m = map fst m"

definition gomap_wf :: "('k, 'v) gomap \<Rightarrow> bool" where
  "gomap_wf m = distinct (map fst m)"

definition iteration_order :: "('a list \<Rightarrow> 'a list) \<Rightarrow> bool" where
  "iteration_order ord \<longleftrightarrow> (\<forall>xs. mset (ord xs) = mset xs)"

lemma iteration_order_mset: "iteration_order ord \<Longrightarrow> mset (ord xs) = mset xs"
  by (simp add: iteration_order_def)

lemma iteration_order_set: "iteration_order ord \<Longrightarrow> set (ord xs) = set xs"
  by (metis iteration_order_mset set_mset_mset)

lemma sum_list_order:
  fixes f :: "'a \<Rightarrow> 'b :: comm_monoid_add"
  assumes "iteration_order ord"
  shows "sum_list (map f (ord xs)) = sum_list (map f xs)"
proof -
  have "sum_mset (image_mset f (mset (ord xs))) = sum_mset (image_mset f (mset xs))"
    by (simp add: iteration_order_mset [OF assms])
  then show ?thesis by (simp add: sum_mset_sum_list flip: mset_map)
qed

lemma iteration_order_id [simp]: "iteration_order (\<lambda>xs. xs)"
  by (simp add: iteration_order_def)

lemma iteration_order_rev [simp]: "iteration_order rev"
  by (simp add: iteration_order_def)

text \<open>
  The interface of a map that the handler registry and the lag computation rely on, and the
  facts a client needs, proved once.
\<close>

locale go_map =
  fixes empty :: "'m" and store :: "'k \<Rightarrow> 'v \<Rightarrow> 'm \<Rightarrow> 'm" and lookup :: "'m \<Rightarrow> 'k \<Rightarrow> 'v option"
    and keys :: "'m \<Rightarrow> 'k list" and wf :: "'m \<Rightarrow> bool"
  assumes lookup_empty: "lookup empty k = None"
    and lookup_store: "lookup (store k v m) = (lookup m)(k \<mapsto> v)"
    and wf_empty: "wf empty"
    and wf_store: "wf m \<Longrightarrow> wf (store k v m)"
    and keys_set: "set (keys m) = dom (lookup m)"
    and keys_distinct: "wf m \<Longrightarrow> distinct (keys m)"
begin

lemma lookup_store_same: "lookup (store k v m) k = Some v"
  by (simp add: lookup_store)

lemma lookup_store_other: "k \<noteq> k' \<Longrightarrow> lookup (store k v m) k' = lookup m k'"
  by (simp add: lookup_store)

lemma store_overwrites: "lookup (store k v (store k u m)) = lookup (store k v m)"
  by (simp add: lookup_store)

lemma store_commutes:
  "k \<noteq> k' \<Longrightarrow> lookup (store k v (store k' v' m)) = lookup (store k' v' (store k v m))"
  by (auto simp: lookup_store)

lemma length_keys: "wf m \<Longrightarrow> length (keys m) = card (dom (lookup m))"
  by (metis distinct_card keys_distinct keys_set)

end

lemma gomap_keys_dom: "set (gomap_keys m) = dom (gomap_lookup m)"
  using dom_map_of_conv_image_fst [of m] by (simp add: gomap_keys_def gomap_lookup_def [abs_def])

interpretation gomap: go_map gomap_empty gomap_store gomap_lookup gomap_keys gomap_wf
proof unfold_locales
  show "set (gomap_keys m) = dom (gomap_lookup m)" for m :: "('k, 'v) gomap"
    by (rule gomap_keys_dom)
qed (auto simp: gomap_empty_def gomap_store_def gomap_lookup_def gomap_keys_def gomap_wf_def
      update_conv' distinct_update)

subsection \<open>Step relations\<close>

text \<open>
  Concurrent behaviour is a step relation over the shared state and the program counters of
  the goroutines. \<open>step_invariant\<close> is the contract of an inductive invariant.
\<close>

inductive reach :: "('s \<Rightarrow> bool) \<Rightarrow> ('s \<Rightarrow> 's \<Rightarrow> bool) \<Rightarrow> 's \<Rightarrow> bool" for ini step where
  reach_init: "ini s \<Longrightarrow> reach ini step s"
| reach_step: "reach ini step s \<Longrightarrow> step s t \<Longrightarrow> reach ini step t"

lemma reach_rtranclp: "step\<^sup>*\<^sup>* s t \<Longrightarrow> reach ini step s \<Longrightarrow> reach ini step t"
  by (induction rule: rtranclp_induct) (auto intro: reach_step)

locale step_invariant =
  fixes ini :: "'s \<Rightarrow> bool" and step :: "'s \<Rightarrow> 's \<Rightarrow> bool" and inv :: "'s \<Rightarrow> bool"
  assumes inv_init: "ini s \<Longrightarrow> inv s"
    and inv_step: "step s t \<Longrightarrow> inv s \<Longrightarrow> inv t"
begin

lemma reach_inv: "reach ini step s \<Longrightarrow> inv s"
  by (induction rule: reach.induct) (auto intro: inv_init inv_step)

lemma steps_inv: "step\<^sup>*\<^sup>* s t \<Longrightarrow> inv s \<Longrightarrow> inv t"
  by (induction rule: rtranclp_induct) (auto intro: inv_step)

end

text \<open>
  The contract of an orderly end: under a condition \<open>calm\<close> that steps preserve (nobody
  starts new work) every step decreases a rank, and a state that is not finished can step. Then
  no run from a calm state is infinite, and every run can be, and if it gets stuck has been,
  carried to a finished state.
\<close>

locale shutdown = step_invariant ini step inv
  for ini :: "'s \<Rightarrow> bool" and step :: "'s \<Rightarrow> 's \<Rightarrow> bool" and inv :: "'s \<Rightarrow> bool" +
  fixes calm :: "'s \<Rightarrow> bool" and finished :: "'s \<Rightarrow> bool" and rank :: "'s \<Rightarrow> nat"
  assumes calm_step: "inv s \<Longrightarrow> calm s \<Longrightarrow> step s t \<Longrightarrow> calm t \<and> rank t < rank s"
    and progress: "inv s \<Longrightarrow> calm s \<Longrightarrow> \<not> finished s \<Longrightarrow> \<exists>t. step s t"
begin

lemma can_finish: "inv s \<Longrightarrow> calm s \<Longrightarrow> \<exists>t. step\<^sup>*\<^sup>* s t \<and> finished t"
proof (induction "rank s" arbitrary: s rule: less_induct)
  case less
  show ?case
  proof (cases "finished s")
    case False
    with progress less.prems obtain t where t: "step s t" by blast
    with calm_step less.prems inv_step have "calm t" "rank t < rank s" "inv t" by blast+
    with less.hyps obtain u where "step\<^sup>*\<^sup>* t u" "finished u" by blast
    with t show ?thesis by (meson converse_rtranclp_into_rtranclp)
  qed blast
qed

lemma calm_steps: "step\<^sup>*\<^sup>* s t \<Longrightarrow> inv s \<Longrightarrow> calm s \<Longrightarrow> inv t \<and> calm t"
  by (induction rule: rtranclp_induct) (auto dest: calm_step inv_step)

lemma stuck_is_finished: "step\<^sup>*\<^sup>* s t \<Longrightarrow> inv s \<Longrightarrow> calm s \<Longrightarrow> \<not> (\<exists>u. step t u) \<Longrightarrow> finished t"
  using calm_steps progress by blast

lemma no_infinite_run:
  assumes "inv s" "calm s" "f 0 = s" "\<And>n :: nat. step (f n) (f (Suc n))"
  shows False
proof -
  have ic: "inv (f n) \<and> calm (f n)" for n
    by (induction n) (use assms calm_step inv_step in blast)+
  have "rank (f n) + n \<le> rank (f 0)" for n
  proof (induction n)
    case (Suc n)
    have "rank (f (Suc n)) < rank (f n)" using ic [of n] calm_step assms(4) by blast
    with Suc show ?case by simp
  qed simp
  from this [of "Suc (rank (f 0))"] show False by simp
qed

lemma orderly_end:
  assumes "reach ini step s" and "calm s"
  shows "(\<exists>t. step\<^sup>*\<^sup>* s t \<and> finished t) \<and>
    (\<forall>t. step\<^sup>*\<^sup>* s t \<and> \<not> (\<exists>u. step t u) \<longrightarrow> finished t) \<and>
    \<not> (\<exists>f. f (0::nat) = s \<and> (\<forall>n. step (f n) (f (Suc n))))"
  using can_finish stuck_is_finished no_infinite_run reach_inv [OF assms(1)] assms(2) by blast

end

text \<open>
  Where some steps may happen but need not, such as a call that may return early, an end must be
  reached by the steps that are due alone.
\<close>

locale obliged_shutdown = shutdown ini step inv calm finished rank
  for ini :: "'s \<Rightarrow> bool" and step :: "'s \<Rightarrow> 's \<Rightarrow> bool" and inv :: "'s \<Rightarrow> bool"
    and calm :: "'s \<Rightarrow> bool" and finished :: "'s \<Rightarrow> bool" and rank :: "'s \<Rightarrow> nat" +
  fixes due :: "'s \<Rightarrow> 's \<Rightarrow> bool"
  assumes due_step: "due s t \<Longrightarrow> step s t"
    and due_progress: "inv s \<Longrightarrow> calm s \<Longrightarrow> \<not> finished s \<Longrightarrow> \<exists>t. due s t"

sublocale obliged_shutdown \<subseteq> owed: shutdown ini due inv calm finished rank
  by unfold_locales (auto dest: due_step due_progress inv_step calm_step inv_init)

context obliged_shutdown
begin

lemma due_end:
  assumes "reach ini step s" and "calm s"
  shows "(\<exists>t. due\<^sup>*\<^sup>* s t \<and> finished t) \<and>
    (\<forall>t. step\<^sup>*\<^sup>* s t \<and> \<not> (\<exists>u. due t u) \<longrightarrow> finished t) \<and>
    \<not> (\<exists>f. f (0::nat) = s \<and> (\<forall>n. step (f n) (f (Suc n))))"
  using owed.can_finish calm_steps due_progress no_infinite_run reach_inv [OF assms(1)] assms(2) by blast

end

text \<open>Counting and summing over the goroutines of a list when one of them moves.\<close>

lemma count_update:
  "i < length xs \<Longrightarrow>
   length (filter P (xs[i := y])) + (if P (xs ! i) then 1 else 0) =
   length (filter P xs) + (if P y then 1 else 0)"
proof (induction xs arbitrary: i)
  case (Cons x xs)
  then show ?case by (cases i) auto
qed simp

lemma sum_update:
  fixes f :: "'a \<Rightarrow> nat"
  shows "i < length xs \<Longrightarrow> sum_list (map f (xs[i := y])) + f (xs ! i) = sum_list (map f xs) + f y"
proof (induction xs arbitrary: i)
  case (Cons x xs)
  then show ?case by (cases i) (auto simp: algebra_simps)
qed simp

lemma count_update_same:
  "i < length xs \<Longrightarrow> P y = P (xs ! i) \<Longrightarrow> length (filter P (xs[i := y])) = length (filter P xs)"
  using count_update [of i xs P y] by (auto split: if_splits)

lemma count_update_enter:
  "i < length xs \<Longrightarrow> \<not> P (xs ! i) \<Longrightarrow> P y \<Longrightarrow> length (filter P (xs[i := y])) = Suc (length (filter P xs))"
  using count_update [of i xs P y] by auto

lemma count_update_leave:
  "i < length xs \<Longrightarrow> P (xs ! i) \<Longrightarrow> \<not> P y \<Longrightarrow> length (filter P xs) = Suc (length (filter P (xs[i := y])))"
  using count_update [of i xs P y] by auto

lemma count_pos: "i < length xs \<Longrightarrow> P (xs ! i) \<Longrightarrow> 0 < length (filter P xs)"
  by (metis filter_empty_conv length_greater_0_conv nth_mem)

lemma count_zero: "length (filter P xs) = 0 \<longleftrightarrow> (\<forall>i < length xs. \<not> P (xs ! i))"
  by (simp add: filter_empty_conv all_set_conv_all_nth)

lemma sum_update_less:
  fixes f :: "'a \<Rightarrow> nat"
  shows "i < length xs \<Longrightarrow> f y < f (xs ! i) \<Longrightarrow> sum_list (map f (xs[i := y])) < sum_list (map f xs)"
  using sum_update [of i xs f y] by auto

subsection \<open>Closing once\<close>

text \<open>
  The contract of a \<open>Close\<close> that may be called any number of times: the first call marks the
  component closed and releases the underlying client once, every later call returns nil and
  changes nothing.
\<close>

locale close_once =
  fixes closed :: "'s \<Rightarrow> bool" and close :: "'s \<Rightarrow> 's \<times> go_error option" and releases :: "'s \<Rightarrow> nat"
  assumes close_closes: "closed (fst (close s))"
    and close_again: "closed s \<Longrightarrow> close s = (s, None)"
    and release_first: "\<not> closed s \<Longrightarrow> releases (fst (close s)) = Suc (releases s)"
begin

lemma close_idempotent: "close (fst (close s)) = (fst (close s), None)"
  by (rule close_again [OF close_closes])

lemma close_iterated: "((\<lambda>s. fst (close s)) ^^ Suc n) s = fst (close s)"
  by (induction n) (simp_all add: close_idempotent)

lemma releases_iterated:
  "releases (((\<lambda>s. fst (close s)) ^^ Suc n) s) = (if closed s then releases s else Suc (releases s))"
  by (simp only: close_iterated) (simp add: close_again release_first)

end

subsection \<open>The claim loop\<close>

text \<open>
  Both consumer group handlers process the messages of a claim in order and stop at the first
  message whose processing ends abnormally. The contract: a message that ends normally is
  marked, one that does not is not, and nothing else is ever marked.
\<close>

locale claim_loop =
  fixes process :: "'m \<Rightarrow> 's \<Rightarrow> 's \<times> 'e option" and loop :: "'m list \<Rightarrow> 's \<Rightarrow> 's \<times> 'e option"
    and marks :: "'s \<Rightarrow> 'm list"
  assumes loop_Nil: "loop [] s = (s, None)"
    and loop_Cons: "loop (m # ms) s =
      (case process m s of (s', None) \<Rightarrow> loop ms s' | (s', Some e) \<Rightarrow> (s', Some e))"
    and mark_ok: "process m s = (s', None) \<Longrightarrow> marks s' = marks s @ [m]"
    and mark_stop: "process m s = (s', Some e) \<Longrightarrow> marks s' = marks s"
begin

lemma loop_append:
  "loop (xs @ ys) s =
    (case loop xs s of (s', None) \<Rightarrow> loop ys s' | (s', Some e) \<Rightarrow> (s', Some e))"
  by (induction xs arbitrary: s) (auto simp: loop_Nil loop_Cons split: prod.splits option.splits)

lemma loop_ok_marks: "loop ms s = (s', None) \<Longrightarrow> marks s' = marks s @ ms"
  by (induction ms arbitrary: s)
    (auto simp: loop_Nil loop_Cons dest: mark_ok split: prod.splits option.splits)

lemma loop_stop_split:
  assumes "loop ms s = (s', Some e)"
  shows "\<exists>pre m post s1. ms = pre @ m # post \<and> loop pre s = (s1, None) \<and>
    process m s1 = (s', Some e) \<and> marks s' = marks s @ pre"
  using assms
proof (induction ms arbitrary: s)
  case Nil
  then show ?case by (simp add: loop_Nil)
next
  case (Cons x xs)
  obtain s1 r where p: "process x s = (s1, r)" by (cases "process x s")
  show ?case
  proof (cases r)
    case None
    with p Cons.prems have "loop xs s1 = (s', Some e)" by (simp add: loop_Cons)
    from Cons.IH [OF this] obtain pre m post s2 where
      *: "xs = pre @ m # post" "loop pre s1 = (s2, None)" "process m s2 = (s', Some e)"
        "marks s' = marks s1 @ pre" by blast
    moreover have "loop (x # pre) s = (s2, None)" using p None * by (simp add: loop_Cons)
    moreover have "marks s1 = marks s @ [x]" using p None by (simp add: mark_ok)
    ultimately show ?thesis
      by (intro exI [of _ "x # pre"] exI [of _ m] exI [of _ post] exI [of _ s2]) simp
  next
    case (Some e')
    with p Cons.prems have "process x s = (s', Some e)" by (simp add: loop_Cons)
    then show ?thesis
      using mark_stop loop_Nil
      by (intro exI [of _ "[]"] exI [of _ x] exI [of _ xs] exI [of _ s]) auto
  qed
qed

lemma loop_marks_prefix: "loop ms s = (s', r) \<Longrightarrow> \<exists>k. marks s' = marks s @ take k ms"
proof (cases r)
  case None
  assume "loop ms s = (s', r)"
  with None show ?thesis by (auto dest!: loop_ok_marks intro!: exI [of _ "length ms"])
next
  case (Some e)
  assume "loop ms s = (s', r)"
  with Some loop_stop_split obtain pre m post where "ms = pre @ m # post" "marks s' = marks s @ pre"
    by blast
  then show ?thesis by (intro exI [of _ "length pre"]) simp
qed

end

subsection \<open>Signed arithmetic without overflow\<close>

lemma sint_inject: "(sint a :: int) = sint b \<longleftrightarrow> a = b"
  by (rule word_eq_iff_signed [symmetric])

lemma sint_add_exact:
  fixes a b :: int64
  assumes "- (2 ^ 63) \<le> sint a + sint b" "sint a + sint b < 2 ^ 63"
  shows "sint (a + b) = sint a + sint b"
  using assms by (simp add: sint_word_ariths signed_take_bit_int_eq_self)

lemma sint_diff_exact:
  fixes a b :: int64
  assumes "- (2 ^ 63) \<le> sint a - sint b" "sint a - sint b < 2 ^ 63"
  shows "sint (a - b) = sint a - sint b"
  using assms by (simp add: sint_word_ariths signed_take_bit_int_eq_self)

lemma int64_range: "- (2 ^ 63) \<le> sint (a :: int64)" "sint (a :: int64) < 2 ^ 63"
  using sint_range_size [of a] by (simp_all add: word_size)

end
