(* ===== verification/GoStrings.thy ===== *)
theory GoStrings
  imports Prelude
begin

section \<open>Go strings: bytes, runes and the range loop\<close>

text \<open>
  A Go string is a sequence of bytes, here a list of 8-bit \<open>char\<close>s. \<open>for i, c := range s\<close>
  decodes UTF-8: it visits runes, with the index of their first byte, and reads an invalid
  byte as U+FFFD of width one. The decoder is written out (the accepted ranges of the first
  and second byte are the ones of the language's decoder), and the search for an ASCII rune
  by such a loop is shown to be a search for the byte.
\<close>

definition rune_error :: nat where
  "rune_error = 0xFFFD"

definition byte_in :: "nat \<Rightarrow> nat \<Rightarrow> char \<Rightarrow> bool" where
  "byte_in lo hi c = (lo \<le> (of_char c :: nat) \<and> (of_char c :: nat) \<le> hi)"

text \<open>The rune at the start of a byte sequence and its width.\<close>

definition decode_rune2 :: "nat \<Rightarrow> string \<Rightarrow> nat \<times> nat" where
  "decode_rune2 b0 r = (case r of
     c1 # _ \<Rightarrow>
       if byte_in 0x80 0xBF c1 then ((b0 - 0xC0) * 64 + (of_char c1 - 0x80), 2) else (rune_error, 1)
   | _ \<Rightarrow> (rune_error, 1))"

definition decode_rune3 :: "nat \<Rightarrow> string \<Rightarrow> nat \<times> nat" where
  "decode_rune3 b0 r = (case r of
     c1 # c2 # _ \<Rightarrow>
       if byte_in (if b0 = 0xE0 then 0xA0 else 0x80) (if b0 = 0xED then 0x9F else 0xBF) c1 \<and>
          byte_in 0x80 0xBF c2
       then ((b0 - 0xE0) * 4096 + (of_char c1 - 0x80) * 64 + (of_char c2 - 0x80), 3)
       else (rune_error, 1)
   | _ \<Rightarrow> (rune_error, 1))"

definition decode_rune4 :: "nat \<Rightarrow> string \<Rightarrow> nat \<times> nat" where
  "decode_rune4 b0 r = (case r of
     c1 # c2 # c3 # _ \<Rightarrow>
       if byte_in (if b0 = 0xF0 then 0x90 else 0x80) (if b0 = 0xF4 then 0x8F else 0xBF) c1 \<and>
          byte_in 0x80 0xBF c2 \<and> byte_in 0x80 0xBF c3
       then ((b0 - 0xF0) * 262144 + (of_char c1 - 0x80) * 4096 + (of_char c2 - 0x80) * 64 +
             (of_char c3 - 0x80), 4)
       else (rune_error, 1)
   | _ \<Rightarrow> (rune_error, 1))"

fun decode_rune :: "string \<Rightarrow> nat \<times> nat" where
  "decode_rune [] = (rune_error, 0)"
| "decode_rune (c # r) =
     (let b0 = of_char c :: nat in
      if b0 < 0x80 then (b0, 1)
      else if 0xC2 \<le> b0 \<and> b0 \<le> 0xDF then decode_rune2 b0 r
      else if 0xE0 \<le> b0 \<and> b0 \<le> 0xEF then decode_rune3 b0 r
      else if 0xF0 \<le> b0 \<and> b0 \<le> 0xF4 then decode_rune4 b0 r
      else (rune_error, 1))"

text \<open>What one decoding step does to a non-ASCII first byte: a rune from 0x80 up, over non-ASCII bytes.\<close>

definition wide_rune :: "nat \<times> nat \<Rightarrow> string \<Rightarrow> bool" where
  "wide_rune rw r \<longleftrightarrow> 0x80 \<le> fst rw \<and> 1 \<le> snd rw \<and> snd rw \<le> Suc (length r) \<and>
     (\<forall>c \<in> set (take (snd rw - 1) r). 0x80 \<le> (of_char c :: nat))"

lemma wide_rune_error: "wide_rune (rune_error, 1) r"
  by (simp add: wide_rune_def rune_error_def)

lemma wide_decode_rune2: "0xC2 \<le> b0 \<Longrightarrow> wide_rune (decode_rune2 b0 r) r"
  using wide_rune_error [of r]
  by (auto simp: decode_rune2_def wide_rune_def byte_in_def split: list.splits)

lemma wide_decode_rune3:
  assumes "0xE0 \<le> b0"
  shows "wide_rune (decode_rune3 b0 r) r"
proof (cases r)
  case Nil
  then show ?thesis using wide_rune_error [of r] by (simp add: decode_rune3_def)
next
  case (Cons c1 r1)
  show ?thesis
  proof (cases r1)
    case Nil
    with Cons show ?thesis using wide_rune_error [of r] by (simp add: decode_rune3_def)
  next
    case (Cons c2 r2)
    with \<open>r = c1 # r1\<close> assms show ?thesis
      using wide_rune_error [of r]
      by (cases "b0 = 0xE0") (auto simp: decode_rune3_def wide_rune_def byte_in_def)
  qed
qed

lemma wide_decode_rune4:
  assumes "0xF0 \<le> b0"
  shows "wide_rune (decode_rune4 b0 r) r"
proof -
  have short: "wide_rune (decode_rune4 b0 r) r" if "length r < 3"
    using that wide_rune_error [of r] by (auto simp: decode_rune4_def split: list.splits)
  show ?thesis
  proof (cases "length r < 3")
    case False
    then obtain c1 c2 c3 r3 where r: "r = c1 # c2 # c3 # r3"
      by (metis One_nat_def Suc_length_conv length_Cons linorder_not_less list.exhaust list.size(3)
          numeral_3_eq_3 zero_less_Suc Suc_less_eq)
    show ?thesis
      using assms wide_rune_error [of r]
      by (cases "b0 = 0xF0") (auto simp: r decode_rune4_def wide_rune_def byte_in_def)
  qed (rule short)
qed

lemma decode_rune_ascii: "(of_char c :: nat) < 0x80 \<Longrightarrow> decode_rune (c # r) = (of_char c, 1)"
  by simp

lemma decode_rune_wide: "0x80 \<le> (of_char c :: nat) \<Longrightarrow> wide_rune (decode_rune (c # r)) r"
  using wide_rune_error wide_decode_rune2 wide_decode_rune3 wide_decode_rune4 by (simp add: Let_def)

lemma decode_rune_width: "s \<noteq> [] \<Longrightarrow> 1 \<le> snd (decode_rune s) \<and> snd (decode_rune s) \<le> length s"
proof (cases s)
  case (Cons c r)
  then show ?thesis
    using decode_rune_ascii [of c r] decode_rune_wide [of c r]
    by (cases "(of_char c :: nat) < 0x80") (auto simp: wide_rune_def not_less simp del: decode_rune.simps)
qed simp

declare decode_rune.simps [simp del]

text \<open>The range loop: the list of (index, rune) pairs it visits.\<close>

function range_from :: "nat \<Rightarrow> string \<Rightarrow> (nat \<times> nat) list" where
  "range_from i s =
     (if s = [] then []
      else (i, fst (decode_rune s)) #
        range_from (i + snd (decode_rune s)) (drop (snd (decode_rune s)) s))"
  by pat_completeness auto
termination
proof (relation "measure (\<lambda>(i, s). length s)", goal_cases)
  case (2 i s)
  with decode_rune_width [of s] show ?case by auto
qed simp

declare range_from.simps [simp del]

definition go_range :: "string \<Rightarrow> (nat \<times> nat) list" where
  "go_range s = range_from 0 s"

text \<open>The index at which a range loop first sees rune \<open>c\<close>.\<close>

fun first_index :: "nat \<Rightarrow> (nat \<times> nat) list \<Rightarrow> nat option" where
  "first_index c [] = None"
| "first_index c ((i, r) # rest) = (if r = c then Some i else first_index c rest)"

lemma first_index_range_from:
  assumes c: "(of_char c :: nat) < 0x80"
  shows "first_index (of_char c) (range_from i s) =
    (if c \<in> set s then Some (i + length (takeWhile (\<lambda>x. x \<noteq> c) s)) else None)"
proof (induction i s rule: range_from.induct)
  case (1 i s)
  show ?case
  proof (cases s)
    case Nil
    then show ?thesis by (simp add: range_from.simps)
  next
    case (Cons x r)
    let ?w = "snd (decode_rune s)"
    have step: "range_from i s = (i, fst (decode_rune s)) # range_from (i + ?w) (drop ?w s)"
      using Cons by (subst range_from.simps) simp
    show ?thesis
    proof (cases "x = c")
      case True
      with c Cons show ?thesis unfolding step by (simp add: decode_rune_ascii)
    next
      case False
      have skip: "fst (decode_rune s) \<noteq> of_char c \<and> c \<notin> set (take ?w s)"
      proof (cases "(of_char x :: nat) < 0x80")
        case True
        with False Cons show ?thesis by (auto simp: decode_rune_ascii)
      next
        case False
        with Cons have "wide_rune (decode_rune s) r" using decode_rune_wide [of x r] by simp
        then show ?thesis
          using c Cons False by (cases ?w) (auto simp: wide_rune_def)
      qed
      have tw: "takeWhile (\<lambda>x. x \<noteq> c) s = take ?w s @ takeWhile (\<lambda>x. x \<noteq> c) (drop ?w s)"
        using skip takeWhile_append2 [of "take ?w s" "\<lambda>x. x \<noteq> c" "drop ?w s"]
        by (metis (full_types) append_take_drop_id)
      have mem: "c \<in> set s \<longleftrightarrow> c \<in> set (drop ?w s)"
        using skip by (metis Un_iff append_take_drop_id set_append)
      have len: "length (take ?w s) = ?w"
        using decode_rune_width [of s] Cons by simp
      have "first_index (of_char c) (range_from i s) =
          first_index (of_char c) (range_from (i + ?w) (drop ?w s))"
        using skip by (simp add: step)
      also have "\<dots> = (if c \<in> set (drop ?w s)
          then Some (i + ?w + length (takeWhile (\<lambda>x. x \<noteq> c) (drop ?w s))) else None)"
        using "1.IH" Cons by simp
      also have "\<dots> = (if c \<in> set s then Some (i + length (takeWhile (\<lambda>x. x \<noteq> c) s)) else None)"
        using mem len by (simp add: tw)
      finally show ?thesis .
    qed
  qed
qed

lemma first_index_go_range:
  "(of_char c :: nat) < 0x80 \<Longrightarrow>
   first_index (of_char c) (go_range s) =
     (if c \<in> set s then Some (length (takeWhile (\<lambda>x. x \<noteq> c) s)) else None)"
  by (simp add: go_range_def first_index_range_from)

lemma dot_ascii: "(of_char (CHR ''.'') :: nat) = 46"
  by simp

lemmas first_dot_go_range = first_index_go_range [of "CHR ''.''", unfolded dot_ascii, simplified]

end
