(* ===== verification/EventTypes.thy ===== *)
theory EventTypes
  imports GoStrings
begin

section \<open>Event types (events/types.go)\<close>

text \<open>
  The event type strings, their domain and action parts (computed by a range loop over runes
  that stops at the first dot) and the membership test over the 28 known types. The lemmas
  reduce the loops to \<open>takeWhile\<close> and \<open>dropWhile\<close> and show that the two parts
  determine the type.
\<close>

named_theorems event_type \<open>the event type constants\<close>

type_synonym event_type = string

definition EventTypeUserRegistered :: event_type where
  [event_type]: "EventTypeUserRegistered = ''user.registered''"

definition EventTypeUserVerified :: event_type where
  [event_type]: "EventTypeUserVerified = ''user.verified''"

definition EventTypeUserProfileUpdated :: event_type where
  [event_type]: "EventTypeUserProfileUpdated = ''user.profile_updated''"

definition EventTypeUserSuspended :: event_type where
  [event_type]: "EventTypeUserSuspended = ''user.suspended''"

definition EventTypeUserDeleted :: event_type where
  [event_type]: "EventTypeUserDeleted = ''user.deleted''"

definition EventTypeDriverApplicationSubmitted :: event_type where
  [event_type]: "EventTypeDriverApplicationSubmitted = ''driver.application_submitted''"

definition EventTypeDriverDocumentsSubmitted :: event_type where
  [event_type]: "EventTypeDriverDocumentsSubmitted = ''driver.documents_submitted''"

definition EventTypeDriverApproved :: event_type where
  [event_type]: "EventTypeDriverApproved = ''driver.approved''"

definition EventTypeDriverRejected :: event_type where
  [event_type]: "EventTypeDriverRejected = ''driver.rejected''"

definition EventTypeDriverWentOnline :: event_type where
  [event_type]: "EventTypeDriverWentOnline = ''driver.went_online''"

definition EventTypeDriverWentOffline :: event_type where
  [event_type]: "EventTypeDriverWentOffline = ''driver.went_offline''"

definition EventTypeDriverLocationUpdated :: event_type where
  [event_type]: "EventTypeDriverLocationUpdated = ''driver.location_updated''"

definition EventTypeRideRequested :: event_type where
  [event_type]: "EventTypeRideRequested = ''ride.requested''"

definition EventTypeRideDriverAssigned :: event_type where
  [event_type]: "EventTypeRideDriverAssigned = ''ride.driver_assigned''"

definition EventTypeRideDriverArrived :: event_type where
  [event_type]: "EventTypeRideDriverArrived = ''ride.driver_arrived''"

definition EventTypeRideStarted :: event_type where
  [event_type]: "EventTypeRideStarted = ''ride.started''"

definition EventTypeRideCompleted :: event_type where
  [event_type]: "EventTypeRideCompleted = ''ride.completed''"

definition EventTypeRideCancelled :: event_type where
  [event_type]: "EventTypeRideCancelled = ''ride.cancelled''"

definition EventTypeRideRated :: event_type where
  [event_type]: "EventTypeRideRated = ''ride.rated''"

definition EventTypePaymentInitiated :: event_type where
  [event_type]: "EventTypePaymentInitiated = ''payment.initiated''"

definition EventTypePaymentCompleted :: event_type where
  [event_type]: "EventTypePaymentCompleted = ''payment.completed''"

definition EventTypePaymentFailed :: event_type where
  [event_type]: "EventTypePaymentFailed = ''payment.failed''"

definition EventTypePaymentRefunded :: event_type where
  [event_type]: "EventTypePaymentRefunded = ''payment.refunded''"

definition EventTypePayoutRequested :: event_type where
  [event_type]: "EventTypePayoutRequested = ''payout.requested''"

definition EventTypePayoutCompleted :: event_type where
  [event_type]: "EventTypePayoutCompleted = ''payout.completed''"

definition EventTypeSafetyEmergencyTriggered :: event_type where
  [event_type]: "EventTypeSafetyEmergencyTriggered = ''safety.emergency_triggered''"

definition EventTypeSafetyIncidentReported :: event_type where
  [event_type]: "EventTypeSafetyIncidentReported = ''safety.incident_reported''"

definition EventTypeSafetyTripShared :: event_type where
  [event_type]: "EventTypeSafetyTripShared = ''safety.trip_shared''"

definition VersionLatest :: string where
  "VersionLatest = ''1.0''"

definition EventType_String :: "event_type \<Rightarrow> string" where
  "EventType_String e = e"

definition EventType_Domain :: "event_type \<Rightarrow> string" where
  "EventType_Domain e =
     (case first_index 46 (go_range e) of Some i \<Rightarrow> take i e | None \<Rightarrow> e)"

definition EventType_Action :: "event_type \<Rightarrow> string" where
  "EventType_Action e =
     (case first_index 46 (go_range e) of Some i \<Rightarrow> drop (i + 1) e | None \<Rightarrow> [])"

definition EventType_Valid :: "event_type \<Rightarrow> bool" where
  "EventType_Valid e = (e \<in> set [
     EventTypeUserRegistered, EventTypeUserVerified, EventTypeUserProfileUpdated,
     EventTypeUserSuspended, EventTypeUserDeleted, EventTypeDriverApplicationSubmitted,
     EventTypeDriverDocumentsSubmitted, EventTypeDriverApproved, EventTypeDriverRejected,
     EventTypeDriverWentOnline, EventTypeDriverWentOffline, EventTypeDriverLocationUpdated,
     EventTypeRideRequested, EventTypeRideDriverAssigned, EventTypeRideDriverArrived,
     EventTypeRideStarted, EventTypeRideCompleted, EventTypeRideCancelled,
     EventTypeRideRated, EventTypePaymentInitiated, EventTypePaymentCompleted,
     EventTypePaymentFailed, EventTypePaymentRefunded, EventTypePayoutRequested,
     EventTypePayoutCompleted, EventTypeSafetyEmergencyTriggered, EventTypeSafetyIncidentReported,
     EventTypeSafetyTripShared])"

subsection \<open>What the loops compute\<close>

lemma takeWhile_absent: "x \<notin> set xs \<Longrightarrow> takeWhile (\<lambda>c. c \<noteq> x) xs = xs"
  by (induction xs) auto

lemma dropWhile_absent: "x \<notin> set xs \<Longrightarrow> dropWhile (\<lambda>c. c \<noteq> x) xs = []"
  by (induction xs) auto

lemma EventType_Domain_takeWhile: "EventType_Domain e = takeWhile (\<lambda>c. c \<noteq> CHR ''.'') e"
proof (cases "CHR ''.'' \<in> set e")
  case True
  then show ?thesis
    by (simp add: EventType_Domain_def first_dot_go_range takeWhile_eq_take [symmetric])
next
  case False
  then show ?thesis by (simp add: EventType_Domain_def first_dot_go_range takeWhile_absent)
qed

lemma EventType_Action_dropWhile: "EventType_Action e = tl (dropWhile (\<lambda>c. c \<noteq> CHR ''.'') e)"
proof (cases "CHR ''.'' \<in> set e")
  case True
  then show ?thesis
    by (simp add: EventType_Action_def first_dot_go_range dropWhile_eq_drop drop_Suc tl_drop)
next
  case False
  then show ?thesis by (simp add: EventType_Action_def first_dot_go_range dropWhile_absent)
qed

lemmas event_parts = EventType_Domain_takeWhile EventType_Action_dropWhile

lemma EventType_Domain_no_dot: "CHR ''.'' \<notin> set (EventType_Domain e)"
  by (auto simp: EventType_Domain_takeWhile dest: set_takeWhileD)

lemma EventType_parts_append:
  "CHR ''.'' \<notin> set d \<Longrightarrow> EventType_Domain (d @ CHR ''.'' # a) = d \<and> EventType_Action (d @ CHR ''.'' # a) = a"
  by (induction d) (auto simp: event_parts)

lemma EventType_rejoin:
  "CHR ''.'' \<in> set e \<Longrightarrow> EventType_Domain e @ CHR ''.'' # EventType_Action e = e"
  by (induction e) (auto simp: event_parts)

lemma EventType_without_dot:
  "CHR ''.'' \<notin> set e \<Longrightarrow> EventType_Domain e = e \<and> EventType_Action e = []"
  by (induction e) (auto simp: event_parts)

text \<open>
  The range loops of \<open>Domain\<close> and \<open>Action\<close> split an event type at its first dot,
  for any byte sequence, valid UTF-8 or not: with a dot, domain, dot and action give the type
  back and the domain holds no dot; without one the domain is the whole type and the action
  is empty.
\<close>

theorem EventType_split:
  "if CHR ''.'' \<in> set e
   then EventType_Domain e @ ''.'' @ EventType_Action e = e \<and> CHR ''.'' \<notin> set (EventType_Domain e)
   else EventType_Domain e = e \<and> EventType_Action e = []"
  by (simp add: EventType_rejoin EventType_without_dot EventType_Domain_no_dot)

text \<open>The domains of the known event types.\<close>

definition event_domains :: "string list" where
  "event_domains = [''user'', ''driver'', ''ride'', ''payment'', ''payout'', ''safety'']"

lemma EventType_Valid_domain: "EventType_Valid e \<Longrightarrow> EventType_Domain e \<in> set event_domains"
  by (auto simp: EventType_Valid_def event_type event_domains_def EventType_Domain_takeWhile)

lemma EventType_Valid_action: "EventType_Valid e \<Longrightarrow> EventType_Action e \<noteq> []"
  by (auto simp: EventType_Valid_def event_type EventType_Action_dropWhile)

end
