(* ===== verification/Topics.thy ===== *)
theory Topics
  imports EventTypes
begin

section \<open>Topics and consumer groups (topics/topics.go, topics/consumer\_groups.go)\<close>

text \<open>
  Topic names, the routing from event types to topics, the dead letter topic of a topic, the
  partition key field of a topic and the consumer group names. The lemmas show that routing
  is total on the known event types, that dead letter topics form a copy of the topic names
  disjoint from the live ones, and that group names are injective in the service name.
\<close>

named_theorems topic_name \<open>the topic, partition key and consumer group constants\<close>

type_synonym topic = string

definition Users :: topic where [topic_name]: "Users = ''txova.users.v1''"

definition Drivers :: topic where [topic_name]: "Drivers = ''txova.drivers.v1''"

definition Rides :: topic where [topic_name]: "Rides = ''txova.rides.v1''"

definition Payments :: topic where [topic_name]: "Payments = ''txova.payments.v1''"

definition Safety :: topic where [topic_name]: "Safety = ''txova.safety.v1''"

definition Locations :: topic where [topic_name]: "Locations = ''txova.locations.v1''"

definition Topic_String :: "topic \<Rightarrow> string" where
  "Topic_String t = t"

definition Topic_DLQ :: "topic \<Rightarrow> topic" where
  "Topic_DLQ t = t @ ''.dlq''"

definition Topic_Valid :: "topic \<Rightarrow> bool" where
  "Topic_Valid t = (t \<in> set [Users, Drivers, Rides, Payments, Safety, Locations])"

definition ForEventType :: "event_type \<Rightarrow> topic" where
  "ForEventType e =
     (let d = EventType_Domain e in
      if d = ''user'' then Users
      else if d = ''driver'' then Drivers
      else if d = ''ride'' then Rides
      else if d = ''payment'' \<or> d = ''payout'' then Payments
      else if d = ''safety'' then Safety
      else [])"

definition topics_All :: "topic list" where
  "topics_All = [Users, Drivers, Rides, Payments, Safety, Locations]"

definition PartitionKeyUserID :: string where [topic_name]: "PartitionKeyUserID = ''user_id''"

definition PartitionKeyDriverID :: string where [topic_name]: "PartitionKeyDriverID = ''driver_id''"

definition PartitionKeyRideID :: string where [topic_name]: "PartitionKeyRideID = ''ride_id''"

definition PartitionKeyPaymentID :: string where [topic_name]: "PartitionKeyPaymentID = ''payment_id''"

definition PartitionKeyIncidentID :: string where [topic_name]: "PartitionKeyIncidentID = ''incident_id''"

definition PartitionKey :: "topic \<Rightarrow> string" where
  "PartitionKey t =
     (if t = Users then PartitionKeyUserID
      else if t = Drivers \<or> t = Locations then PartitionKeyDriverID
      else if t = Rides then PartitionKeyRideID
      else if t = Payments then PartitionKeyPaymentID
      else if t = Safety then PartitionKeyIncidentID
      else [])"

subsection \<open>Topic creation settings\<close>

record topic_config =
  NumPartitions :: int32
  ReplicationFactor :: "16 word"
  RetentionMs :: int64

definition topics_DefaultConfig :: topic_config where
  "topics_DefaultConfig =
     \<lparr>NumPartitions = 12, ReplicationFactor = 3, RetentionMs = 7 * 24 * 60 * 60 * 1000\<rparr>"

definition topics_DevConfig :: topic_config where
  "topics_DevConfig =
     \<lparr>NumPartitions = 3, ReplicationFactor = 1, RetentionMs = 24 * 60 * 60 * 1000\<rparr>"

subsection \<open>Consumer groups\<close>

type_synonym consumer_group = string

definition ConsumerGroupUserService :: consumer_group where
  [topic_name]: "ConsumerGroupUserService = ''user-service-group''"

definition ConsumerGroupDriverService :: consumer_group where
  [topic_name]: "ConsumerGroupDriverService = ''driver-service-group''"

definition ConsumerGroupRideService :: consumer_group where
  [topic_name]: "ConsumerGroupRideService = ''ride-service-group''"

definition ConsumerGroupPaymentService :: consumer_group where
  [topic_name]: "ConsumerGroupPaymentService = ''payment-service-group''"

definition ConsumerGroupNotificationService :: consumer_group where
  [topic_name]: "ConsumerGroupNotificationService = ''notification-service-group''"

definition ConsumerGroupSafetyService :: consumer_group where
  [topic_name]: "ConsumerGroupSafetyService = ''safety-service-group''"

definition ConsumerGroupOperationsService :: consumer_group where
  [topic_name]: "ConsumerGroupOperationsService = ''operations-service-group''"

definition ConsumerGroupAnalyticsService :: consumer_group where
  [topic_name]: "ConsumerGroupAnalyticsService = ''analytics-service-group''"

definition ConsumerGroup_String :: "consumer_group \<Rightarrow> string" where
  "ConsumerGroup_String c = c"

definition ConsumerGroup_Valid :: "consumer_group \<Rightarrow> bool" where
  "ConsumerGroup_Valid c = (c \<in> set [
     ConsumerGroupUserService, ConsumerGroupDriverService, ConsumerGroupRideService,
     ConsumerGroupPaymentService, ConsumerGroupNotificationService,
     ConsumerGroupSafetyService, ConsumerGroupOperationsService, ConsumerGroupAnalyticsService])"

definition ForService :: "string \<Rightarrow> consumer_group" where
  "ForService serviceName = serviceName @ ''-group''"

subsection \<open>Routing\<close>

lemma ForEventType_cases:
  "ForEventType e \<in> set [Users, Drivers, Rides, Payments, Safety, []]"
  by (simp add: ForEventType_def Let_def)

lemma ForEventType_nonempty_iff: "ForEventType e \<noteq> [] \<longleftrightarrow> EventType_Domain e \<in> set event_domains"
  by (simp add: ForEventType_def Let_def event_domains_def topic_name)

lemma ForEventType_Topic_Valid_iff: "Topic_Valid (ForEventType e) \<longleftrightarrow> ForEventType e \<noteq> []"
  using ForEventType_cases [of e] by (auto simp: Topic_Valid_def topic_name)

lemma ForEventType_same_domain:
  "EventType_Domain e = EventType_Domain e' \<Longrightarrow> ForEventType e = ForEventType e'"
  by (simp add: ForEventType_def)

text \<open>
  The route of a domain in words: its plural, except that \<open>safety\<close> has none and payouts go with
  the payments; and the key that goes with it.
\<close>

definition route_subject :: "string \<Rightarrow> string" where
  "route_subject d = (if d = ''safety'' then d else if d = ''payout'' then ''payments'' else d @ ''s'')"

definition route_key :: "string \<Rightarrow> string" where
  "route_key d = (if d = ''safety'' then ''incident_id'' else if d = ''payout'' then ''payment_id'' else d @ ''_id'')"

lemma ForEventType_route:
  "EventType_Domain e \<in> set event_domains \<Longrightarrow>
   ForEventType e = ''txova.'' @ route_subject (EventType_Domain e) @ ''.v1'' \<and>
   PartitionKey (ForEventType e) = route_key (EventType_Domain e)"
  by (auto simp: ForEventType_def PartitionKey_def Let_def event_domains_def topic_name route_subject_def route_key_def)

text \<open>
  C40: every known event type is routed to the known topic of its own domain: \<open>ride.requested\<close>
  to \<open>txova.rides.v1\<close>, keyed by \<open>ride_id\<close>, and so on, payouts with the payments and safety
  events, keyed by \<open>incident_id\<close>, to \<open>txova.safety.v1\<close>; among all strings, exactly those whose
  domain is one of the six event domains are routed at all.
\<close>

theorem ForEventType_total_on_valid:
  "(EventType_Valid e \<longrightarrow> Topic_Valid (ForEventType e) \<and>
      ForEventType e = ''txova.'' @ route_subject (EventType_Domain e) @ ''.v1'' \<and>
      PartitionKey (ForEventType e) = route_key (EventType_Domain e)) \<and>
   (ForEventType e \<noteq> [] \<longleftrightarrow> EventType_Domain e \<in> {''user'', ''driver'', ''ride'', ''payment'', ''payout'', ''safety''})"
proof -
  have "set event_domains = {''user'', ''driver'', ''ride'', ''payment'', ''payout'', ''safety''}"
    by (auto simp: event_domains_def)
  with ForEventType_nonempty_iff [of e] have
    routed: "ForEventType e \<noteq> [] \<longleftrightarrow> EventType_Domain e \<in> {''user'', ''driver'', ''ride'', ''payment'', ''payout'', ''safety''}"
    by simp
  have "Topic_Valid (ForEventType e)" if "EventType_Domain e \<in> set event_domains"
    using that by (simp add: ForEventType_Topic_Valid_iff ForEventType_nonempty_iff)
  with EventType_Valid_domain [of e] ForEventType_route [of e] routed show ?thesis by blast
qed

theorem ForEventType_total_on_valid_witness:
  "EventType_Valid EventTypePayoutCompleted \<and> ForEventType EventTypePayoutCompleted = ''txova.payments.v1'' \<and>
   PartitionKey (ForEventType EventTypePayoutCompleted) = ''payment_id''"
proof -
  have v: "EventType_Valid EventTypePayoutCompleted" by (simp add: EventType_Valid_def)
  have d: "EventType_Domain EventTypePayoutCompleted = ''payout''" by (simp add: event_type EventType_Domain_takeWhile)
  have r: "route_subject ''payout'' = ''payments''" "route_key ''payout'' = ''payment_id''"
    by (simp_all add: route_subject_def route_key_def)
  from v ForEventType_total_on_valid [of EventTypePayoutCompleted, unfolded d r append.simps] show ?thesis by blast
qed

text \<open>
  No event type is ever routed to the locations topic: location updates of drivers go to
  the drivers topic like every other driver event, so \<open>Locations\<close> is reachable by an
  explicit \<open>PublishToTopic\<close> only.
\<close>

theorem locations_never_routed:
  "ForEventType e \<noteq> Locations \<and> ForEventType EventTypeDriverLocationUpdated = Drivers"
  using ForEventType_cases [of e]
  by (auto simp: topic_name ForEventType_def event_type EventType_Domain_takeWhile)

subsection \<open>Dead letter topics\<close>

lemma Topic_DLQ_inject [simp]: "Topic_DLQ t = Topic_DLQ t' \<longleftrightarrow> t = t'"
  by (simp add: Topic_DLQ_def)

lemma Topic_DLQ_nonempty [simp]: "Topic_DLQ t \<noteq> []"
  by (simp add: Topic_DLQ_def)

lemma Topic_Valid_last: "Topic_Valid t \<Longrightarrow> last t = CHR ''1''"
  by (auto simp: Topic_Valid_def topic_name)

lemma last_Topic_DLQ: "last (Topic_DLQ t) = CHR ''q''"
  by (simp add: Topic_DLQ_def)

lemma Topic_DLQ_not_Valid: "\<not> Topic_Valid (Topic_DLQ t)"
  using Topic_Valid_last [of "Topic_DLQ t"] by (auto simp: last_Topic_DLQ)

lemma ForEventType_not_DLQ: "ForEventType e \<noteq> Topic_DLQ t"
  by (metis ForEventType_Topic_Valid_iff Topic_DLQ_nonempty Topic_DLQ_not_Valid)

text \<open>
  Dead letter topics never collide: different topics have different dead letter topics,
  no dead letter topic is a known live topic, and the routing of events never yields one, so
  a published event cannot land in a dead letter queue by routing.
\<close>

theorem dlq_topics_disjoint:
  "(Topic_DLQ t = Topic_DLQ t' \<longleftrightarrow> t = t') \<and> \<not> Topic_Valid (Topic_DLQ t) \<and>
   ForEventType e \<noteq> Topic_DLQ t"
  by (simp add: Topic_DLQ_not_Valid ForEventType_not_DLQ)

lemma topics_All_Valid: "set topics_All = {t. Topic_Valid t} \<and> distinct topics_All"
  by (auto simp: topics_All_def Topic_Valid_def topic_name)

text \<open>
  The partition key field is defined on exactly the known topics, and \<open>All\<close> lists
  exactly the known topics, each once.
\<close>

theorem partition_key_iff_known:
  "(PartitionKey t \<noteq> [] \<longleftrightarrow> Topic_Valid t) \<and> (t \<in> set topics_All \<longleftrightarrow> Topic_Valid t) \<and> distinct topics_All"
  using topics_All_Valid by (auto simp: PartitionKey_def Topic_Valid_def topic_name)

subsection \<open>Services and their groups\<close>

definition known_services :: "string list" where
  "known_services = [''user-service'', ''driver-service'', ''ride-service'', ''payment-service'',
     ''notification-service'', ''safety-service'', ''operations-service'', ''analytics-service'']"

lemma ForService_inject [simp]: "ForService s = ForService s' \<longleftrightarrow> s = s'"
  by (simp add: ForService_def)

lemma known_groups: "ConsumerGroup_Valid c \<longleftrightarrow> c \<in> ForService ` set known_services"
  by (auto simp: ConsumerGroup_Valid_def topic_name known_services_def ForService_def)

text \<open>
  \<open>ForService\<close> gives different services different groups, and its result is one of
  the declared group constants exactly for the eight known services.
\<close>

theorem ForService_known_iff:
  "(ConsumerGroup_Valid (ForService s) \<longleftrightarrow> s \<in> set known_services) \<and>
   (ForService s = ForService s' \<longleftrightarrow> s = s')"
  by (auto simp: known_groups)

end
