(* ===== verification/ConsumerConfig.thy ===== *)
theory ConsumerConfig
  imports Prelude
begin

section \<open>Consumer configuration (consumer/config.go, consumer/errors.go)\<close>

text \<open>
  The sentinel errors of the consumer package, its configuration with the defaults and the
  validation, and the translation to the Kafka client's configuration. That configuration is
  another module's struct: the fields the code sets are a record, the others its extension,
  and the client's fresh configuration and offset constants are parameters. Durations are
  nanoseconds.
\<close>

definition consumer_ErrNoBrokers :: go_error where
  [go_err]: "consumer_ErrNoBrokers = ErrValue ''consumer'' ''ErrNoBrokers'' ''no brokers configured''"

definition consumer_ErrNoGroupID :: go_error where
  [go_err]: "consumer_ErrNoGroupID = ErrValue ''consumer'' ''ErrNoGroupID'' ''group ID is required''"

definition consumer_ErrNoTopics :: go_error where
  [go_err]: "consumer_ErrNoTopics = ErrValue ''consumer'' ''ErrNoTopics'' ''at least one topic is required''"

definition consumer_ErrConsumerClosed :: go_error where
  [go_err]: "consumer_ErrConsumerClosed = ErrValue ''consumer'' ''ErrConsumerClosed'' ''consumer is closed''"

definition consumer_ErrNoHandler :: go_error where
  [go_err]: "consumer_ErrNoHandler =
     ErrValue ''consumer'' ''ErrNoHandler'' ''no handler registered for event type''"

definition consumer_ErrHandlerPanic :: go_error where
  [go_err]: "consumer_ErrHandlerPanic = ErrValue ''consumer'' ''ErrHandlerPanic'' ''handler panicked''"

definition consumer_ErrConfigRequired :: go_error where
  [go_err]: "consumer_ErrConfigRequired = ErrValue ''consumer'' ''ErrConfigRequired'' ''config is required''"

definition consumer_ErrCheckerNotInitialized :: go_error where
  [go_err]: "consumer_ErrCheckerNotInitialized =
     ErrValue ''consumer'' ''ErrCheckerNotInitialized'' ''checker is not initialized''"

definition consumer_ErrNoPartitionAssignments :: go_error where
  [go_err]: "consumer_ErrNoPartitionAssignments = ErrValue ''consumer'' ''ErrNoPartitionAssignments''
     ''consumer group has no active partition assignments''"

definition consumer_ErrGroupNotFound :: go_error where
  [go_err]: "consumer_ErrGroupNotFound = ErrValue ''consumer'' ''ErrGroupNotFound'' ''consumer group not found''"

definition consumer_ErrMissingCommittedOffset :: go_error where
  [go_err]: "consumer_ErrMissingCommittedOffset =
     ErrValue ''consumer'' ''ErrMissingCommittedOffset'' ''missing committed offset''"

subsection \<open>Configuration\<close>

definition OffsetResetEarliest :: string where "OffsetResetEarliest = ''earliest''"

definition OffsetResetLatest :: string where "OffsetResetLatest = ''latest''"

definition go_second :: int where "go_second = 1000000000"

record consumer_config =
  cc_Brokers :: "string list"
  cc_GroupID :: string
  cc_Topics :: "string list"
  cc_OffsetReset :: string
  cc_EnableAutoCommit :: bool
  cc_MaxPollRecords :: int
  cc_SessionTimeout :: int
  cc_HeartbeatInterval :: int
  cc_ProcessingTimeout :: int
  cc_MaxRetries :: int

definition consumer_DefaultConfig :: consumer_config where
  "consumer_DefaultConfig =
     \<lparr>cc_Brokers = [], cc_GroupID = [], cc_Topics = [], cc_OffsetReset = OffsetResetEarliest,
      cc_EnableAutoCommit = False, cc_MaxPollRecords = 100, cc_SessionTimeout = 30 * go_second,
      cc_HeartbeatInterval = 10 * go_second, cc_ProcessingTimeout = 30 * go_second,
      cc_MaxRetries = 3\<rparr>"

definition consumer_Config_Validate :: "consumer_config \<Rightarrow> go_error option" where
  "consumer_Config_Validate c =
     (if cc_Brokers c = [] then Some consumer_ErrNoBrokers
      else if cc_GroupID c = [] then Some consumer_ErrNoGroupID
      else if cc_Topics c = [] then Some consumer_ErrNoTopics
      else None)"

record sarama_consumer_config =
  sc_Session_Timeout :: int
  sc_Heartbeat_Interval :: int
  sc_MaxProcessingTime :: int
  sc_Offsets_Initial :: int
  sc_AutoCommit_Enable :: bool
  sc_Return_Errors :: bool

definition consumer_toSaramaConfig ::
  "'a sarama_consumer_config_scheme \<Rightarrow> int \<Rightarrow> int \<Rightarrow> consumer_config \<Rightarrow>
   'a sarama_consumer_config_scheme" where
  "consumer_toSaramaConfig NewConfig OffsetNewest OffsetOldest c =
     NewConfig\<lparr>sc_Session_Timeout := cc_SessionTimeout c,
       sc_Heartbeat_Interval := cc_HeartbeatInterval c,
       sc_MaxProcessingTime := cc_ProcessingTimeout c,
       sc_Offsets_Initial := (if cc_OffsetReset c = OffsetResetLatest then OffsetNewest else OffsetOldest),
       sc_AutoCommit_Enable := cc_EnableAutoCommit c,
       sc_Return_Errors := True\<rparr>"

lemma consumer_Config_Validate_None_iff:
  "consumer_Config_Validate c = None \<longleftrightarrow> cc_Brokers c \<noteq> [] \<and> cc_GroupID c \<noteq> [] \<and> cc_Topics c \<noteq> []"
  by (simp add: consumer_Config_Validate_def)

lemma consumer_Config_Validate_ignores_MaxRetries:
  "consumer_Config_Validate (c\<lparr>cc_MaxRetries := n\<rparr>) = consumer_Config_Validate c"
  by (simp add: consumer_Config_Validate_def)

end
