(* ===== verification/HandlerRegistry.thy ===== *)
theory HandlerRegistry
  imports EventTypes
begin

section \<open>The handler registry (consumer/handler.go)\<close>

text \<open>
  A registry maps event types to handlers and holds one fallback handler. A handler is a Go
  function value and may be nil (\<open>None\<close>), also inside the map. The registry's map is a Go
  map, reached through the interface \<open>go_map\<close> only.
\<close>

record 'h registry =
  reg_handlers :: "(event_type, 'h option) gomap"
  reg_wildcardHandler :: "'h option"

definition NewHandlerRegistry :: "'h registry" where
  "NewHandlerRegistry = \<lparr>reg_handlers = gomap_empty, reg_wildcardHandler = None\<rparr>"

definition registry_Register :: "event_type \<Rightarrow> 'h option \<Rightarrow> 'h registry \<Rightarrow> 'h registry" where
  "registry_Register t h r = r\<lparr>reg_handlers := gomap_store t h (reg_handlers r)\<rparr>"

definition registry_RegisterWildcard :: "'h option \<Rightarrow> 'h registry \<Rightarrow> 'h registry" where
  "registry_RegisterWildcard h r = r\<lparr>reg_wildcardHandler := h\<rparr>"

definition registry_Get :: "'h registry \<Rightarrow> event_type \<Rightarrow> 'h option" where
  "registry_Get r t = (case gomap_lookup (reg_handlers r) t of
     Some h \<Rightarrow> h
   | None \<Rightarrow> reg_wildcardHandler r)"

definition registry_Has :: "'h registry \<Rightarrow> event_type \<Rightarrow> bool" where
  "registry_Has r t = (case gomap_lookup (reg_handlers r) t of
     Some _ \<Rightarrow> True
   | None \<Rightarrow> reg_wildcardHandler r \<noteq> None)"

definition RegisteredTypes :: "(event_type list \<Rightarrow> event_type list) \<Rightarrow> 'h registry \<Rightarrow> event_type list" where
  "RegisteredTypes ord r = ord (gomap_keys (reg_handlers r))"

subsection \<open>Sequences of registrations\<close>

datatype 'h reg_op = OpRegister event_type "'h option" | OpWildcard "'h option"

fun apply_reg_op :: "'h registry \<Rightarrow> 'h reg_op \<Rightarrow> 'h registry" where
  "apply_reg_op r (OpRegister t h) = registry_Register t h r"
| "apply_reg_op r (OpWildcard h) = registry_RegisterWildcard h r"

definition registry_of :: "'h reg_op list \<Rightarrow> 'h registry" where
  "registry_of ops = foldl apply_reg_op NewHandlerRegistry ops"

lemma registry_of_snoc [simp]: "registry_of (ops @ [x]) = apply_reg_op (registry_of ops) x"
  by (simp add: registry_of_def)

lemma registry_of_wf: "gomap_wf (reg_handlers (registry_of ops))"
proof (induction ops rule: rev_induct)
  case Nil
  show ?case by (simp add: registry_of_def NewHandlerRegistry_def gomap.wf_empty)
next
  case (snoc x ops)
  then show ?case
    by (cases x) (simp_all add: registry_Register_def registry_RegisterWildcard_def gomap.wf_store)
qed

text \<open>The registrations of one type, and of the fallback, in order.\<close>

definition handlers_for :: "event_type \<Rightarrow> 'h reg_op list \<Rightarrow> 'h option list" where
  "handlers_for t ops = List.map_filter (\<lambda>x. case x of OpRegister t' h \<Rightarrow> if t' = t then Some h else None
     | OpWildcard _ \<Rightarrow> None) ops"

definition wildcards :: "'h reg_op list \<Rightarrow> 'h option list" where
  "wildcards ops = List.map_filter (\<lambda>x. case x of OpRegister _ _ \<Rightarrow> None | OpWildcard h \<Rightarrow> Some h) ops"

lemma handlers_for_snoc:
  "handlers_for t (ops @ [x]) = handlers_for t ops @
     (case x of OpRegister t' h \<Rightarrow> if t' = t then [h] else [] | OpWildcard _ \<Rightarrow> [])"
  by (cases x) (auto simp: handlers_for_def List.map_filter_def)

lemma wildcards_snoc:
  "wildcards (ops @ [x]) = wildcards ops @ (case x of OpRegister _ _ \<Rightarrow> [] | OpWildcard h \<Rightarrow> [h])"
  by (cases x) (auto simp: wildcards_def List.map_filter_def)

lemma registry_of_lookup:
  "gomap_lookup (reg_handlers (registry_of ops)) t =
     (if handlers_for t ops = [] then None else Some (last (handlers_for t ops)))"
proof (induction ops rule: rev_induct)
  case Nil
  show ?case by (simp add: registry_of_def NewHandlerRegistry_def gomap.lookup_empty handlers_for_def
        map_filter_simps)
next
  case (snoc x ops)
  then show ?case
    by (cases x) (simp_all add: handlers_for_snoc registry_Register_def registry_RegisterWildcard_def
        gomap.lookup_store)
qed

lemma registry_of_wildcard:
  "reg_wildcardHandler (registry_of ops) = (if wildcards ops = [] then None else last (wildcards ops))"
proof (induction ops rule: rev_induct)
  case Nil
  show ?case by (simp add: registry_of_def NewHandlerRegistry_def wildcards_def map_filter_simps)
next
  case (snoc x ops)
  then show ?case
    by (cases x) (simp_all add: wildcards_snoc registry_Register_def registry_RegisterWildcard_def)
qed

text \<open>
  C39: after any sequence of registrations, \<open>Get\<close> returns the handler last registered for
  exactly this type, if there was one, and otherwise the last fallback: registration
  overwrites, registrations of other types do not interfere, and the fallback never shadows a
  specific handler.
\<close>

theorem registry_Get_last_registration:
  "registry_Get (registry_of ops) t =
     (if handlers_for t ops \<noteq> [] then last (handlers_for t ops)
      else if wildcards ops \<noteq> [] then last (wildcards ops) else None)"
  by (simp add: registry_Get_def registry_of_lookup registry_of_wildcard)

lemma registry_Get_imp_Has: "registry_Get r t \<noteq> None \<Longrightarrow> registry_Has r t"
  by (auto simp: registry_Get_def registry_Has_def split: option.splits)

text \<open>
  \<open>Has\<close> and \<open>Get\<close> agree on every type except one whose registered handler is nil:
  there \<open>Has\<close> answers true while \<open>Get\<close> returns nil, although a fallback may be
  registered.
\<close>

theorem registry_Has_Get_disagree_iff_nil_registered:
  "(registry_Has r t \<noteq> (registry_Get r t \<noteq> None)) \<longleftrightarrow> gomap_lookup (reg_handlers r) t = Some None"
  by (auto simp: registry_Get_def registry_Has_def split: option.splits)

text \<open>
  \<open>RegisteredTypes\<close> returns, in whatever order the map is visited, each type with a
  registration exactly once; fallbacks do not appear in it.
\<close>

theorem RegisteredTypes_exact:
  assumes "iteration_order ord"
  shows "distinct (RegisteredTypes ord (registry_of ops)) \<and>
    set (RegisteredTypes ord (registry_of ops)) = {t. handlers_for t ops \<noteq> []}"
proof -
  let ?ks = "gomap_keys (reg_handlers (registry_of ops))"
  have "mset (ord ?ks) = mset ?ks" by (rule iteration_order_mset [OF assms])
  moreover have "distinct ?ks" by (rule gomap.keys_distinct [OF registry_of_wf])
  ultimately have "distinct (ord ?ks)" by (metis mset_eq_imp_distinct_iff)
  moreover have "set (ord ?ks) = {t. handlers_for t ops \<noteq> []}"
    by (auto simp: iteration_order_set [OF assms] gomap.keys_set registry_of_lookup dom_def)
  ultimately show ?thesis by (simp add: RegisteredTypes_def)
qed

theorem RegisteredTypes_exact_witness:
  "iteration_order rev \<and>
   set (RegisteredTypes rev (registry_of [OpRegister ''a.b'' (Some True), OpWildcard (Some False)])) = {''a.b''}"
  using RegisteredTypes_exact [OF iteration_order_rev, of "[OpRegister ''a.b'' (Some True), OpWildcard (Some False)]"]
  by (auto simp: handlers_for_def map_filter_simps)

end
