(* ===== verification/GoRegexp.thy ===== *)
theory GoRegexp
  imports Prelude
begin

section \<open>Anchored regular expressions\<close>

text \<open>
  The part of the \<open>regexp\<close> package the repository uses: matching a whole string against a
  pattern between \<open>^\<close> and \<open>$\<close> (without the multi-line flag both anchor the ends of
  the text). Expressions have a language (an inductive predicate) and an executable matcher by
  derivatives; the matcher is shown to decide the language.
\<close>

datatype re =
    RNone
  | REps
  | RClass "char \<Rightarrow> bool"
  | RSeq re re
  | RAlt re re
  | RStar re

definition RPlus :: "re \<Rightarrow> re" where
  "RPlus r = RSeq r (RStar r)"

definition RChar :: "char \<Rightarrow> re" where
  "RChar c = RClass (\<lambda>x. x = c)"

inductive re_lang :: "re \<Rightarrow> string \<Rightarrow> bool" where
  lang_eps: "re_lang REps []"
| lang_class: "P c \<Longrightarrow> re_lang (RClass P) [c]"
| lang_seq: "re_lang r u \<Longrightarrow> re_lang s v \<Longrightarrow> re_lang (RSeq r s) (u @ v)"
| lang_alt1: "re_lang r u \<Longrightarrow> re_lang (RAlt r s) u"
| lang_alt2: "re_lang s u \<Longrightarrow> re_lang (RAlt r s) u"
| lang_star0: "re_lang (RStar r) []"
| lang_star1: "re_lang r u \<Longrightarrow> re_lang (RStar r) v \<Longrightarrow> re_lang (RStar r) (u @ v)"

inductive_simps re_lang_None: "re_lang RNone u"
  and re_lang_Eps: "re_lang REps u"
  and re_lang_Class: "re_lang (RClass P) u"
  and re_lang_Seq: "re_lang (RSeq r s) u"
  and re_lang_Alt: "re_lang (RAlt r s) u"

lemmas re_lang_simps = re_lang_None re_lang_Eps re_lang_Class re_lang_Seq re_lang_Alt

fun nullable :: "re \<Rightarrow> bool" where
  "nullable RNone = False"
| "nullable REps = True"
| "nullable (RClass P) = False"
| "nullable (RSeq r s) = (nullable r \<and> nullable s)"
| "nullable (RAlt r s) = (nullable r \<or> nullable s)"
| "nullable (RStar r) = True"

fun deriv :: "char \<Rightarrow> re \<Rightarrow> re" where
  "deriv c RNone = RNone"
| "deriv c REps = RNone"
| "deriv c (RClass P) = (if P c then REps else RNone)"
| "deriv c (RSeq r s) =
     (if nullable r then RAlt (RSeq (deriv c r) s) (deriv c s) else RSeq (deriv c r) s)"
| "deriv c (RAlt r s) = RAlt (deriv c r) (deriv c s)"
| "deriv c (RStar r) = RSeq (deriv c r) (RStar r)"

fun re_match :: "re \<Rightarrow> string \<Rightarrow> bool" where
  "re_match r [] = nullable r"
| "re_match r (c # cs) = re_match (deriv c r) cs"

lemma nullable_iff: "nullable r \<longleftrightarrow> re_lang r []"
proof (induction r)
  case (RStar r)
  then show ?case by (simp add: lang_star0)
qed (auto simp: re_lang_simps)

lemma re_lang_Star_Cons:
  "re_lang (RStar r) (c # w) \<longleftrightarrow> (\<exists>u v. w = u @ v \<and> re_lang r (c # u) \<and> re_lang (RStar r) v)"
proof
  assume "re_lang (RStar r) (c # w)"
  then show "\<exists>u v. w = u @ v \<and> re_lang r (c # u) \<and> re_lang (RStar r) v"
  proof (induction "RStar r" "c # w" arbitrary: c w rule: re_lang.induct)
    case (lang_star1 u v)
    then show ?case by (cases u) auto
  qed
next
  assume "\<exists>u v. w = u @ v \<and> re_lang r (c # u) \<and> re_lang (RStar r) v"
  then show "re_lang (RStar r) (c # w)"
    using lang_star1 by (metis append_Cons)
qed

lemma deriv_iff: "re_lang (deriv c r) w \<longleftrightarrow> re_lang r (c # w)"
proof (induction r arbitrary: w)
  case (RSeq r s)
  then show ?case
    by (auto simp: re_lang_Seq re_lang_Alt Cons_eq_append_conv nullable_iff)
next
  case (RStar r)
  then show ?case by (simp add: re_lang_Seq re_lang_Star_Cons)
qed (auto simp: re_lang_simps)

lemma re_match_iff: "re_match r w \<longleftrightarrow> re_lang r w"
  by (induction w arbitrary: r) (simp_all add: nullable_iff deriv_iff)

subsection \<open>Repetition of a character class\<close>

lemma re_lang_Star_Class: "re_lang (RStar (RClass P)) w \<longleftrightarrow> list_all P w"
  by (induction w) (auto simp: lang_star0 re_lang_Star_Cons re_lang_Class)

lemma re_lang_Class_Seq_Cons:
  "re_lang (RSeq (RClass P) s) (c # w) \<longleftrightarrow> P c \<and> re_lang s w"
  using deriv_iff [of c "RSeq (RClass P) s" w] by (auto simp: re_lang_simps split: if_splits)

lemma re_lang_Plus_Class: "re_lang (RPlus (RClass P)) w \<longleftrightarrow> w \<noteq> [] \<and> list_all P w"
proof (cases w)
  case Nil
  then show ?thesis by (simp add: RPlus_def re_lang_Seq re_lang_Class)
next
  case (Cons c u)
  then show ?thesis by (simp add: RPlus_def re_lang_Class_Seq_Cons re_lang_Star_Class)
qed

end
