(* ===== verification/GoTime.thy ===== *)
theory GoTime
  imports Prelude
begin

section \<open>Time values\<close>

text \<open>
  \<open>time.Time\<close> as the standard library keeps it: seconds since January 1 of year 1, 00:00
  UTC, nanoseconds within the second, and the offset of its zone in seconds east of UTC
  (presentation only). The zero time is the instant zero, whatever its zone.
\<close>

record go_time =
  t_sec :: int
  t_nsec :: int
  t_off :: int

definition time_zero :: go_time where
  "time_zero = \<lparr>t_sec = 0, t_nsec = 0, t_off = 0\<rparr>"

definition time_IsZero :: "go_time \<Rightarrow> bool" where
  "time_IsZero t = (t_sec t = 0 \<and> t_nsec t = 0)"

definition time_UTC :: "go_time \<Rightarrow> go_time" where
  "time_UTC t = t\<lparr>t_off := 0\<rparr>"

lemma time_IsZero_UTC [simp]: "time_IsZero (time_UTC t) = time_IsZero t"
  by (simp add: time_IsZero_def time_UTC_def)

lemma t_off_UTC [simp]: "t_off (time_UTC t) = 0"
  by (simp add: time_UTC_def)

end
