(* ===== verification/Envelope.thy ===== *)
theory Envelope
  imports EventTypes GoRegexp GoTime
begin

section \<open>The event envelope (envelope/envelope.go)\<close>

text \<open>
  The envelope every message travels in: its creation from a configuration, its validation,
  the copying setters and the domain and action accessors. What the code takes from other
  modules is a parameter: the user id type and its methods, the UUID generator, the clock, the
  correlation and request id of a context and \<open>json.Marshal\<close> of a caller's payload value.
  The lemmas characterise validation by the conditions an envelope meets and creation by the
  branch taken.
\<close>

subsection \<open>Sentinel errors\<close>

definition envelope_ErrConfigRequired :: go_error where
  [go_err]: "envelope_ErrConfigRequired = ErrValue ''envelope'' ''ErrConfigRequired'' ''config is required''"

definition envelope_ErrEventTypeRequired :: go_error where
  [go_err]: "envelope_ErrEventTypeRequired = ErrValue ''envelope'' ''ErrEventTypeRequired'' ''event type is required''"

definition envelope_ErrVersionRequired :: go_error where
  [go_err]: "envelope_ErrVersionRequired = ErrValue ''envelope'' ''ErrVersionRequired'' ''version is required''"

definition envelope_ErrVersionInvalid :: go_error where
  [go_err]: "envelope_ErrVersionInvalid =
     ErrValue ''envelope'' ''ErrVersionInvalid'' ''version must be in semver format (major.minor)''"

definition envelope_ErrSourceRequired :: go_error where
  [go_err]: "envelope_ErrSourceRequired = ErrValue ''envelope'' ''ErrSourceRequired'' ''source is required''"

definition envelope_ErrPayloadRequired :: go_error where
  [go_err]: "envelope_ErrPayloadRequired = ErrValue ''envelope'' ''ErrPayloadRequired'' ''payload is required''"

definition envelope_ErrIDRequired :: go_error where
  [go_err]: "envelope_ErrIDRequired = ErrValue ''envelope'' ''ErrIDRequired'' ''id is required''"

definition envelope_ErrTimestampRequired :: go_error where
  [go_err]: "envelope_ErrTimestampRequired = ErrValue ''envelope'' ''ErrTimestampRequired'' ''timestamp is required''"

definition envelope_ErrCorrelationIDRequired :: go_error where
  [go_err]: "envelope_ErrCorrelationIDRequired =
     ErrValue ''envelope'' ''ErrCorrelationIDRequired'' ''correlation_id is required''"

definition envelope_ErrDestinationNil :: go_error where
  [go_err]: "envelope_ErrDestinationNil = ErrValue ''envelope'' ''ErrDestinationNil'' ''destination cannot be nil''"

definition envelope_ErrPayloadEmpty :: go_error where
  [go_err]: "envelope_ErrPayloadEmpty = ErrValue ''envelope'' ''ErrPayloadEmpty'' ''payload is empty''"

subsection \<open>Versions\<close>

text \<open>The pattern \<open>^\d+\.\d+$\<close>.\<close>

definition semverRegex :: re where
  "semverRegex = RSeq (RPlus (RClass is_digit)) (RSeq (RChar (CHR ''.'')) (RPlus (RClass is_digit)))"

definition is_semver :: "string \<Rightarrow> bool" where
  "is_semver v \<longleftrightarrow> (\<exists>major minor. v = major @ ''.'' @ minor \<and> major \<noteq> [] \<and> minor \<noteq> [] \<and>
     list_all is_digit major \<and> list_all is_digit minor)"

lemma semverRegex_iff: "re_match semverRegex v \<longleftrightarrow> is_semver v"
proof -
  have "re_lang (RSeq (RChar (CHR ''.'')) (RPlus (RClass is_digit))) u \<longleftrightarrow>
      (\<exists>minor. u = ''.'' @ minor \<and> minor \<noteq> [] \<and> list_all is_digit minor)" for u
    by (auto simp: re_lang_Seq RChar_def re_lang_Class re_lang_Plus_Class)
  then show ?thesis
    by (auto simp: re_match_iff semverRegex_def re_lang_Seq [of "RPlus (RClass is_digit)"]
        re_lang_Plus_Class is_semver_def)
qed

lemma is_semver_nonempty: "is_semver v \<Longrightarrow> v \<noteq> []"
  by (auto simp: is_semver_def)

subsection \<open>Data\<close>

definition ActorTypeUser :: string where "ActorTypeUser = ''user''"

definition ActorTypeSystem :: string where "ActorTypeSystem = ''system''"

definition ActorTypeAdmin :: string where "ActorTypeAdmin = ''admin''"

text \<open>The actor's id has the type \<open>ids.UserID\<close> of another module: a type parameter.\<close>

record 'uid actor =
  actor_ID :: 'uid
  actor_Type :: string

definition Actor_IsZero :: "('uid \<Rightarrow> bool) \<Rightarrow> 'uid actor \<Rightarrow> bool" where
  "Actor_IsZero uid_IsZero a = (uid_IsZero (actor_ID a) \<or> actor_Type a = [])"

text \<open>
  A payload is a \<open>json.RawMessage\<close>, a byte slice that may be nil. An absent actor is a nil
  pointer.
\<close>

record 'uid envelope =
  env_ID :: string
  env_Type :: string
  env_Version :: string
  env_Source :: string
  env_Timestamp :: go_time
  env_CorrelationID :: string
  env_CausationID :: string
  env_Actor :: "'uid actor option"
  env_Payload :: "bytes option"

definition payload_bytes :: "bytes option \<Rightarrow> bytes" where
  "payload_bytes p = (case p of None \<Rightarrow> [] | Some b \<Rightarrow> b)"

record ('uid, 'p) envelope_config =
  ecfg_Type :: string
  ecfg_Version :: string
  ecfg_Source :: string
  ecfg_CorrelationID :: string
  ecfg_CausationID :: string
  ecfg_Actor :: "'uid actor option"
  ecfg_Payload :: "'p option"

text \<open>
  What \<open>New\<close> takes from outside: the result of \<open>ids.NewUserID\<close>, the string form of a
  user id, the clock and \<open>json.Marshal\<close> on payload values.
\<close>

record ('uid, 'p) envelope_deps =
  ids_NewUserID :: "go_error + 'uid"
  UserID_String :: "'uid \<Rightarrow> string"
  time_Now :: go_time
  marshal_payload :: "'p \<Rightarrow> go_error + bytes"

subsection \<open>Operations\<close>

definition validateConfig :: "('uid, 'p) envelope_config option \<Rightarrow> go_error option" where
  "validateConfig c = (case c of
     None \<Rightarrow> Some envelope_ErrConfigRequired
   | Some cfg \<Rightarrow>
       if ecfg_Type cfg = [] then Some envelope_ErrEventTypeRequired
       else if ecfg_Version cfg = [] then Some envelope_ErrVersionRequired
       else if \<not> re_match semverRegex (ecfg_Version cfg)
         then Some (errorf_detail envelope_ErrVersionInvalid (''got '' @ ecfg_Version cfg))
       else if ecfg_Source cfg = [] then Some envelope_ErrSourceRequired
       else if ecfg_Payload cfg = None then Some envelope_ErrPayloadRequired
       else None)"

definition generateEventID :: "('uid, 'p) envelope_deps \<Rightarrow> go_error + string" where
  "generateEventID d = (case ids_NewUserID d of
     Inl e \<Rightarrow> Inl (errorf_ctx ''failed to generate UUID'' e)
   | Inr u \<Rightarrow> Inr (UserID_String d u))"

text \<open>A nil configuration never reaches the last branch: \<open>validateConfig\<close> has rejected it.\<close>

definition envelope_New ::
  "('uid, 'p) envelope_deps \<Rightarrow> ('uid, 'p) envelope_config option \<Rightarrow> go_error + 'uid envelope" where
  "envelope_New d c = (case validateConfig c of
     Some e \<Rightarrow> Inl e
   | None \<Rightarrow> (case generateEventID d of
       Inl e \<Rightarrow> Inl (errorf_ctx ''failed to generate event ID'' e)
     | Inr eventID \<Rightarrow> (case marshal_payload d (the (ecfg_Payload (the c))) of
         Inl e \<Rightarrow> Inl (errorf_ctx ''failed to marshal payload'' e)
       | Inr payloadBytes \<Rightarrow> Inr
           \<lparr>env_ID = eventID, env_Type = ecfg_Type (the c), env_Version = ecfg_Version (the c),
            env_Source = ecfg_Source (the c), env_Timestamp = time_UTC (time_Now d),
            env_CorrelationID = ecfg_CorrelationID (the c),
            env_CausationID = ecfg_CausationID (the c), env_Actor = ecfg_Actor (the c),
            env_Payload = Some payloadBytes\<rparr>)))"

text \<open>
  \<open>NewWithContext\<close> fills the correlation id into the caller's configuration (it is passed by
  pointer), so the configuration after the call is part of the result. The context's two ids
  come from another module's accessors.
\<close>

definition fill_correlation ::
  "('ctx \<Rightarrow> string) \<Rightarrow> ('ctx \<Rightarrow> string) \<Rightarrow> 'ctx \<Rightarrow> ('uid, 'p) envelope_config \<Rightarrow> ('uid, 'p) envelope_config" where
  "fill_correlation CorrelationID RequestID ctx cfg =
     (let cfg1 = (if ecfg_CorrelationID cfg = [] then cfg\<lparr>ecfg_CorrelationID := CorrelationID ctx\<rparr> else cfg)
      in if ecfg_CorrelationID cfg1 = [] then cfg1\<lparr>ecfg_CorrelationID := RequestID ctx\<rparr> else cfg1)"

definition envelope_NewWithContext ::
  "('uid, 'p) envelope_deps \<Rightarrow> ('ctx \<Rightarrow> string) \<Rightarrow> ('ctx \<Rightarrow> string) \<Rightarrow> 'ctx \<Rightarrow>
   ('uid, 'p) envelope_config option \<Rightarrow>
   ('uid, 'p) envelope_config option \<times> (go_error + 'uid envelope)" where
  "envelope_NewWithContext d CorrelationID RequestID ctx c = (case c of
     None \<Rightarrow> (None, Inl envelope_ErrConfigRequired)
   | Some cfg \<Rightarrow>
       (let cfg' = fill_correlation CorrelationID RequestID ctx cfg in
        (Some cfg', envelope_New d (Some cfg'))))"

definition envelope_Validate :: "'uid envelope \<Rightarrow> go_error option" where
  "envelope_Validate e =
     (if env_ID e = [] then Some envelope_ErrIDRequired
      else if env_Type e = [] then Some envelope_ErrEventTypeRequired
      else if env_Version e = [] then Some envelope_ErrVersionRequired
      else if \<not> re_match semverRegex (env_Version e)
        then Some (errorf_detail envelope_ErrVersionInvalid (''got '' @ env_Version e))
      else if env_Source e = [] then Some envelope_ErrSourceRequired
      else if time_IsZero (env_Timestamp e) then Some envelope_ErrTimestampRequired
      else if env_CorrelationID e = [] then Some envelope_ErrCorrelationIDRequired
      else if payload_bytes (env_Payload e) = [] then Some envelope_ErrPayloadRequired
      else None)"

text \<open>
  \<open>UnmarshalPayload\<close> hands the destination (an interface value, possibly nil) to
  \<open>json.Unmarshal\<close>, which may have changed it even when it reports an error.
\<close>

definition UnmarshalPayload ::
  "(bytes \<Rightarrow> 'd \<Rightarrow> 'd \<times> go_error option) \<Rightarrow> 'uid envelope \<Rightarrow> 'd option \<Rightarrow>
   'd option \<times> go_error option" where
  "UnmarshalPayload unmarshal e dest = (case dest of
     None \<Rightarrow> (None, Some envelope_ErrDestinationNil)
   | Some d \<Rightarrow>
       if payload_bytes (env_Payload e) = [] then (Some d, Some envelope_ErrPayloadEmpty)
       else (case unmarshal (payload_bytes (env_Payload e)) d of
           (d', Some err) \<Rightarrow> (Some d', Some (errorf_ctx ''failed to unmarshal payload'' err))
         | (d', None) \<Rightarrow> (Some d', None)))"

definition WithCorrelationID :: "'uid envelope \<Rightarrow> string \<Rightarrow> 'uid envelope" where
  "WithCorrelationID e correlationID = e\<lparr>env_CorrelationID := correlationID\<rparr>"

definition WithCausationID :: "'uid envelope \<Rightarrow> string \<Rightarrow> 'uid envelope" where
  "WithCausationID e causationID = e\<lparr>env_CausationID := causationID\<rparr>"

definition WithActor :: "'uid envelope \<Rightarrow> 'uid actor option \<Rightarrow> 'uid envelope" where
  "WithActor e actor = e\<lparr>env_Actor := actor\<rparr>"

definition EventDomain :: "'uid envelope \<Rightarrow> string" where
  "EventDomain e = (case first_index 46 (go_range (env_Type e)) of
     Some i \<Rightarrow> take i (env_Type e) | None \<Rightarrow> env_Type e)"

definition EventAction :: "'uid envelope \<Rightarrow> string" where
  "EventAction e = (case first_index 46 (go_range (env_Type e)) of
     Some i \<Rightarrow> drop (i + 1) (env_Type e) | None \<Rightarrow> [])"

subsection \<open>Validation\<close>

definition envelope_ok :: "'uid envelope \<Rightarrow> bool" where
  "envelope_ok e \<longleftrightarrow> env_ID e \<noteq> [] \<and> env_Type e \<noteq> [] \<and> is_semver (env_Version e) \<and>
     env_Source e \<noteq> [] \<and> \<not> time_IsZero (env_Timestamp e) \<and> env_CorrelationID e \<noteq> [] \<and>
     payload_bytes (env_Payload e) \<noteq> []"

lemma envelope_Validate_None_iff: "envelope_Validate e = None \<longleftrightarrow> envelope_ok e"
  using is_semver_nonempty [of "env_Version e"]
  by (auto simp: envelope_Validate_def envelope_ok_def semverRegex_iff)

lemma validateConfig_None_iff:
  "validateConfig c = None \<longleftrightarrow> (\<exists>cfg. c = Some cfg \<and> ecfg_Type cfg \<noteq> [] \<and>
     is_semver (ecfg_Version cfg) \<and> ecfg_Source cfg \<noteq> [] \<and> ecfg_Payload cfg \<noteq> None)"
  using is_semver_nonempty
  by (auto simp: validateConfig_def semverRegex_iff split: option.splits)

text \<open>
  C37: \<open>Validate\<close> returns nil exactly for the complete envelopes: id, type, source and
  correlation id are non-empty, the version is two non-empty runs of decimal digits around one
  dot, the timestamp is not the zero time and the payload has at least one byte.
\<close>

theorem Validate_accepts_iff_complete:
  "envelope_Validate e = None \<longleftrightarrow>
     env_ID e \<noteq> [] \<and> env_Type e \<noteq> [] \<and>
     (\<exists>major minor. env_Version e = major @ ''.'' @ minor \<and> major \<noteq> [] \<and> minor \<noteq> [] \<and>
        list_all is_digit major \<and> list_all is_digit minor) \<and>
     env_Source e \<noteq> [] \<and> \<not> time_IsZero (env_Timestamp e) \<and> env_CorrelationID e \<noteq> [] \<and>
     payload_bytes (env_Payload e) \<noteq> []"
  by (simp only: envelope_Validate_None_iff envelope_ok_def is_semver_def)

lemma Validate_VersionInvalid:
  "envelope_Validate e = Some err \<Longrightarrow> errors_is err envelope_ErrVersionInvalid \<Longrightarrow>
   env_Version e \<noteq> [] \<and> \<not> is_semver (env_Version e)"
  by (auto simp: envelope_Validate_def go_err semverRegex_iff split: if_splits)

subsection \<open>Creation\<close>

lemma envelope_New_Inr_iff:
  "envelope_New d c = Inr e \<longleftrightarrow>
     validateConfig c = None \<and>
     (\<exists>cfg u b p. c = Some cfg \<and> ids_NewUserID d = Inr u \<and> ecfg_Payload cfg = Some p \<and>
        marshal_payload d p = Inr b \<and>
        e = \<lparr>env_ID = UserID_String d u, env_Type = ecfg_Type cfg, env_Version = ecfg_Version cfg,
             env_Source = ecfg_Source cfg, env_Timestamp = time_UTC (time_Now d),
             env_CorrelationID = ecfg_CorrelationID cfg, env_CausationID = ecfg_CausationID cfg,
             env_Actor = ecfg_Actor cfg, env_Payload = Some b\<rparr>)"
proof (cases "validateConfig c")
  case None
  then obtain cfg p where c: "c = Some cfg" and p: "ecfg_Payload cfg = Some p"
    by (auto simp: validateConfig_None_iff)
  show ?thesis
    using None unfolding c by (auto simp: envelope_New_def generateEventID_def p split: sum.splits)
qed (simp add: envelope_New_def)

text \<open>
  What is documented of the parameters: the string form of an id is not empty, the clock is
  past year one, and \<open>json.Marshal\<close> never succeeds with an empty output.
\<close>

definition deps_ok :: "('uid, 'p) envelope_deps \<Rightarrow> bool" where
  "deps_ok d \<longleftrightarrow> (\<forall>u. UserID_String d u \<noteq> []) \<and> \<not> time_IsZero (time_Now d) \<and>
     (\<forall>p. marshal_payload d p \<noteq> Inr [])"

lemma created_envelope_Validate:
  assumes "deps_ok d" and "envelope_New d (Some cfg) = Inr e"
  shows "envelope_Validate e =
    (if ecfg_CorrelationID cfg = [] then Some envelope_ErrCorrelationIDRequired else None)"
proof -
  from assms(2) have v: "validateConfig (Some cfg) = None"
    by (simp add: envelope_New_Inr_iff)
  from assms(2) obtain u b p where
    b: "marshal_payload d p = Inr b" and
    e: "e = \<lparr>env_ID = UserID_String d u, env_Type = ecfg_Type cfg, env_Version = ecfg_Version cfg,
             env_Source = ecfg_Source cfg, env_Timestamp = time_UTC (time_Now d),
             env_CorrelationID = ecfg_CorrelationID cfg, env_CausationID = ecfg_CausationID cfg,
             env_Actor = ecfg_Actor cfg, env_Payload = Some b\<rparr>"
    by (auto simp: envelope_New_Inr_iff)
  from b assms(1) have "b \<noteq> []" by (auto simp: deps_ok_def)
  with v e assms(1) is_semver_nonempty [of "ecfg_Version cfg"] show ?thesis
    by (auto simp: envelope_Validate_def validateConfig_None_iff deps_ok_def semverRegex_iff
        payload_bytes_def)
qed

text \<open>
  C38: a created envelope passes \<open>Validate\<close> unless its correlation id is empty, and then
  that is the one error reported: \<open>New\<close> does not require the correlation id that
  \<open>Validate\<close> (and so every publish) demands.
\<close>

theorem New_then_Validate:
  assumes "deps_ok d" and "envelope_New d (Some cfg) = Inr e"
  shows "envelope_Validate e =
    (if ecfg_CorrelationID cfg = [] then Some envelope_ErrCorrelationIDRequired else None)"
  by (rule created_envelope_Validate [OF assms])

definition sample_deps :: "(nat, string) envelope_deps" where
  "sample_deps = \<lparr>ids_NewUserID = Inr 7, UserID_String = (\<lambda>u. itoa (int u)),
     time_Now = \<lparr>t_sec = 63900000000, t_nsec = 5, t_off = 7200\<rparr>,
     marshal_payload = (\<lambda>p. Inr (''{'' @ p @ ''}''))\<rparr>"

definition sample_config :: "(nat, string) envelope_config" where
  "sample_config = \<lparr>ecfg_Type = ''ride.completed'', ecfg_Version = ''1.0'',
     ecfg_Source = ''ride-service'', ecfg_CorrelationID = ''corr-1'', ecfg_CausationID = [],
     ecfg_Actor = None, ecfg_Payload = Some []\<rparr>"

lemma sample_deps_ok: "deps_ok sample_deps"
  by (simp add: deps_ok_def sample_deps_def time_IsZero_def)

lemma sample_config_ok: "validateConfig (Some sample_config) = None"
  by (simp add: validateConfig_def sample_config_def semverRegex_def RPlus_def RChar_def is_digit_def)

lemma sample_New: "\<exists>e. envelope_New sample_deps (Some (sample_config\<lparr>ecfg_CorrelationID := c\<rparr>)) = Inr e"
  by (simp add: envelope_New_def generateEventID_def sample_deps_def sample_config_def
      validateConfig_def semverRegex_def RPlus_def RChar_def is_digit_def)

theorem New_then_Validate_witness:
  "\<exists>e. envelope_New sample_deps (Some (sample_config\<lparr>ecfg_CorrelationID := []\<rparr>)) = Inr e \<and>
     envelope_Validate e = Some envelope_ErrCorrelationIDRequired"
proof -
  obtain e where e: "envelope_New sample_deps (Some (sample_config\<lparr>ecfg_CorrelationID := []\<rparr>)) = Inr e"
    using sample_New by blast
  from New_then_Validate [OF sample_deps_ok e] e show ?thesis by auto
qed

text \<open>
  The errors of \<open>New\<close>: it succeeds exactly when the configuration is present and
  complete, an id can be generated and the payload can be marshalled; otherwise the
  configuration error comes first and is returned as it is, then the generator's, then the
  marshaller's, each wrapped so that \<open>errors.Is\<close> still finds it.
\<close>

theorem New_error_order:
  "envelope_New d c =
    (case validateConfig c of
       Some err \<Rightarrow> Inl err
     | None \<Rightarrow>
        (case (ids_NewUserID d, marshal_payload d (the (ecfg_Payload (the c)))) of
           (Inl err, _) \<Rightarrow> Inl (WrapErr (''failed to generate event ID: failed to generate UUID: '' @ error_text err)
                              (errorf_ctx ''failed to generate UUID'' err))
         | (Inr u, Inl err) \<Rightarrow> Inl (errorf_ctx ''failed to marshal payload'' err)
         | (Inr u, Inr b) \<Rightarrow> Inr
             \<lparr>env_ID = UserID_String d u, env_Type = ecfg_Type (the c), env_Version = ecfg_Version (the c),
              env_Source = ecfg_Source (the c), env_Timestamp = (time_Now d)\<lparr>t_off := 0\<rparr>,
              env_CorrelationID = ecfg_CorrelationID (the c),
              env_CausationID = ecfg_CausationID (the c), env_Actor = ecfg_Actor (the c),
              env_Payload = Some b\<rparr>))"
  by (simp add: envelope_New_def generateEventID_def time_UTC_def errorf_ctx_def split: option.splits sum.splits)

lemma fill_correlation_eq:
  "fill_correlation cid rid ctx cfg = cfg\<lparr>ecfg_CorrelationID :=
     (if ecfg_CorrelationID cfg \<noteq> [] then ecfg_CorrelationID cfg
      else if cid ctx \<noteq> [] then cid ctx else rid ctx)\<rparr>"
  by (simp add: fill_correlation_def Let_def)

text \<open>
  \<open>NewWithContext\<close> takes the correlation id from the configuration, else from the
  context, else the context's request id; it writes the chosen id back into the caller's
  configuration and changes nothing else there, and the envelope it returns carries that id.
  With a context that has either id, the envelope therefore passes \<open>Validate\<close>.
\<close>

theorem NewWithContext_correlation:
  assumes "deps_ok d" and "envelope_NewWithContext d cid rid ctx (Some cfg) = (c', Inr e)"
  shows "env_CorrelationID e =
      (if ecfg_CorrelationID cfg \<noteq> [] then ecfg_CorrelationID cfg
       else if cid ctx \<noteq> [] then cid ctx else rid ctx) \<and>
    c' = Some (cfg\<lparr>ecfg_CorrelationID := env_CorrelationID e\<rparr>) \<and>
    (envelope_Validate e = None \<longleftrightarrow>
       \<not> (ecfg_CorrelationID cfg = [] \<and> cid ctx = [] \<and> rid ctx = []))"
proof -
  let ?cfg' = "fill_correlation cid rid ctx cfg"
  from assms(2) have c': "c' = Some ?cfg'" and e: "envelope_New d (Some ?cfg') = Inr e"
    by (auto simp: envelope_NewWithContext_def Let_def)
  from e have "env_CorrelationID e = ecfg_CorrelationID ?cfg'"
    by (auto simp: envelope_New_Inr_iff)
  moreover have "envelope_Validate e = None \<longleftrightarrow> ecfg_CorrelationID ?cfg' \<noteq> []"
    using created_envelope_Validate [OF assms(1) e] by simp
  ultimately show ?thesis
    unfolding c' by (auto simp: fill_correlation_eq)
qed

theorem NewWithContext_correlation_witness:
  "\<exists>e. envelope_NewWithContext sample_deps (\<lambda>x. []) (\<lambda>x. x) ''req-9''
      (Some (sample_config\<lparr>ecfg_CorrelationID := []\<rparr>)) =
     (Some (sample_config\<lparr>ecfg_CorrelationID := ''req-9''\<rparr>), Inr e) \<and>
     env_CorrelationID e = ''req-9'' \<and> envelope_Validate e = None"
proof -
  let ?cfg = "sample_config\<lparr>ecfg_CorrelationID := []\<rparr>"
  have f: "fill_correlation (\<lambda>x. []) (\<lambda>x. x) ''req-9'' ?cfg = sample_config\<lparr>ecfg_CorrelationID := ''req-9''\<rparr>"
    by (simp add: fill_correlation_eq)
  obtain e where "envelope_New sample_deps (Some (sample_config\<lparr>ecfg_CorrelationID := ''req-9''\<rparr>)) = Inr e"
    using sample_New by blast
  then have r: "envelope_NewWithContext sample_deps (\<lambda>x. []) (\<lambda>x. x) ''req-9'' (Some ?cfg) =
      (Some (sample_config\<lparr>ecfg_CorrelationID := ''req-9''\<rparr>), Inr e)"
    by (simp add: envelope_NewWithContext_def Let_def f)
  have "env_CorrelationID e = ''req-9'' \<and> envelope_Validate e = None"
    using NewWithContext_correlation [OF sample_deps_ok r] by simp
  with r show ?thesis by blast
qed

subsection \<open>Copies and accessors\<close>

lemma EventDomain_eq: "EventDomain e = EventType_Domain (env_Type e)"
  by (simp add: EventDomain_def EventType_Domain_def)

lemma EventAction_eq: "EventAction e = EventType_Action (env_Type e)"
  by (simp add: EventAction_def EventType_Action_def)

lemma Validate_WithCausationID [simp]: "envelope_Validate (WithCausationID e c) = envelope_Validate e"
  by (simp add: envelope_Validate_def WithCausationID_def)

lemma Validate_WithActor [simp]: "envelope_Validate (WithActor e a) = envelope_Validate e"
  by (simp add: envelope_Validate_def WithActor_def)

lemma Validate_WithCorrelationID:
  "envelope_Validate e = None \<Longrightarrow> envelope_Validate (WithCorrelationID e c) = None \<longleftrightarrow> c \<noteq> []"
  by (simp add: envelope_Validate_None_iff envelope_ok_def WithCorrelationID_def)

text \<open>A complete envelope, on which the components that carry envelopes are evaluated.\<close>

definition sample_envelope :: "nat envelope" where
  "sample_envelope = \<lparr>env_ID = ''evt-1'', env_Type = ''ride.completed'', env_Version = ''1.0'',
     env_Source = ''ride-service'', env_Timestamp = \<lparr>t_sec = 63900000000, t_nsec = 0, t_off = 0\<rparr>,
     env_CorrelationID = ''corr-1'', env_CausationID = [], env_Actor = None, env_Payload = Some ''{}''\<rparr>"

lemma sample_envelope_ok: "envelope_ok sample_envelope"
proof -
  have "is_semver (''1'' @ CHR ''.'' # ''0'')" unfolding is_semver_def
    by (intro exI [of _ "''1''"] exI [of _ "''0''"]) (simp add: is_digit_def)
  then show ?thesis
    by (simp add: envelope_ok_def sample_envelope_def time_IsZero_def payload_bytes_def)
qed

end
