(* ===== verification/Consumer.thy ===== *)
theory Consumer
  imports ConsumerConfig HandlerRegistry Envelope
begin

section \<open>Message processing in the consumer (consumer/consumer.go)\<close>

text \<open>
  What happens to one message: decoding, handler lookup, the retry loop around a handler that
  may fail or panic, the dead letter callback and the marking of the message. Handlers and the
  dead letter callback are the caller's code: functions over the world \<open>'w\<close> outside the
  consumer (they may change it, and, holding a pointer to the envelope, the envelope too).
  Everything the consumer does to the outside is recorded, in order, in a trace. The decoder of
  the message bytes is an argument.
\<close>

subsection \<open>Messages, sessions, callbacks\<close>

record consumer_message =
  msg_Topic :: string
  msg_Partition :: int32
  msg_Offset :: int64
  msg_Value :: bytes

datatype 'uid action =
    ALog log_level string
  | AInvoke "'uid envelope" outcome
  | ADeadLetter "'uid envelope" go_error
  | AMark consumer_message
  | ACommit

record ('uid, 'w) session =
  ses_world :: 'w
  ses_trace :: "'uid action list"

type_synonym ('uid, 'w) handler = "'uid envelope \<Rightarrow> 'w \<Rightarrow> outcome \<times> 'uid envelope \<times> 'w"

text \<open>The dead letter callback returns nothing but may panic (\<open>Some\<close> the panic's text).\<close>

type_synonym ('uid, 'w) dlq_callback = "'uid envelope \<Rightarrow> go_error \<Rightarrow> 'w \<Rightarrow> string option \<times> 'w"

record ('uid, 'w, 'client) consumer =
  con_client :: 'client
  con_config :: consumer_config
  con_registry :: "('uid, 'w) handler registry"
  con_DLQHandler :: "('uid, 'w) dlq_callback option"

definition emit :: "'uid action \<Rightarrow> ('uid, 'w) session \<Rightarrow> ('uid, 'w) session" where
  "emit a s = s\<lparr>ses_trace := ses_trace s @ [a]\<rparr>"

definition log :: "log_level \<Rightarrow> string \<Rightarrow> ('uid, 'w) session \<Rightarrow> ('uid, 'w) session" where
  "log l m s = emit (ALog l m) s"

definition MarkMessage :: "consumer_message \<Rightarrow> ('uid, 'w) session \<Rightarrow> ('uid, 'w) session" where
  "MarkMessage m s = emit (AMark m) s"

subsection \<open>Construction\<close>

text \<open>\<open>sarama.NewConsumerGroup\<close> and the client's configuration values are parameters.\<close>

definition consumer_New ::
  "(string list \<Rightarrow> string \<Rightarrow> 'a sarama_consumer_config_scheme \<Rightarrow> go_error + 'client) \<Rightarrow>
   'a sarama_consumer_config_scheme \<Rightarrow> int \<Rightarrow> int \<Rightarrow>
   consumer_config option \<Rightarrow> ('uid, 'w) handler registry option \<Rightarrow>
   go_error + ('uid, 'w, 'client) consumer" where
  "consumer_New NewConsumerGroup NewConfig OffsetNewest OffsetOldest cfg registry =
     (let c = (case cfg of None \<Rightarrow> consumer_DefaultConfig | Some c \<Rightarrow> c) in
      case consumer_Config_Validate c of
        Some err \<Rightarrow> Inl (errorf_ctx ''invalid config'' err)
      | None \<Rightarrow>
         (let r = (case registry of None \<Rightarrow> NewHandlerRegistry | Some r \<Rightarrow> r);
              saramaCfg = consumer_toSaramaConfig NewConfig OffsetNewest OffsetOldest c
          in case NewConsumerGroup (cc_Brokers c) (cc_GroupID c) saramaCfg of
               Inl err \<Rightarrow> Inl (errorf_ctx ''failed to create consumer group'' err)
             | Inr client \<Rightarrow> Inr \<lparr>con_client = client, con_config = c, con_registry = r,
                                  con_DLQHandler = None\<rparr>))"

subsection \<open>One message\<close>

definition invokeHandler ::
  "('uid, 'w) handler \<Rightarrow> 'uid envelope \<Rightarrow> ('uid, 'w) session \<Rightarrow>
   go_error option \<times> 'uid envelope \<times> ('uid, 'w) session" where
  "invokeHandler h env s = (case h env (ses_world s) of (out, env', w') \<Rightarrow>
     ((case out of
         Returned err \<Rightarrow> err
       | Panicked r \<Rightarrow> Some (errorf_detail consumer_ErrHandlerPanic r)),
      env', (emit (AInvoke env out) s)\<lparr>ses_world := w'\<rparr>))"

text \<open>
  The loop \<open>for attempt := 1; attempt <= MaxRetries; attempt++\<close>, from a given attempt. The
  attempt counter stays exact for every \<open>MaxRetries\<close> below the largest machine integer.
\<close>

function retry_loop ::
  "('uid, 'w) handler \<Rightarrow> int \<Rightarrow> int \<Rightarrow> go_error option \<Rightarrow> 'uid envelope \<Rightarrow> ('uid, 'w) session \<Rightarrow>
   go_error option \<times> 'uid envelope \<times> ('uid, 'w) session" where
  "retry_loop h maxRetries attempt lastErr env s =
     (if attempt \<le> maxRetries then
        (case invokeHandler h env s of (err, env', s') \<Rightarrow>
           (case err of
              None \<Rightarrow> (None, env', s')
            | Some e \<Rightarrow> retry_loop h maxRetries (attempt + 1) (Some e) env'
                          (log LWarn ''handler failed, retrying'' s')))
      else (lastErr, env, s))"
  by pat_completeness auto
termination
  by (relation "measure (\<lambda>(h, maxRetries, attempt, lastErr, env, s). nat (maxRetries + 1 - attempt))") auto

declare retry_loop.simps [simp del]

text \<open>\<open>processMessage\<close> returns normally (\<open>None\<close>) unless the dead letter callback panics.\<close>

definition processMessage ::
  "(bytes \<Rightarrow> go_error + 'uid envelope) \<Rightarrow> ('uid, 'w, 'client) consumer \<Rightarrow> consumer_message \<Rightarrow>
   ('uid, 'w) session \<Rightarrow> ('uid, 'w) session \<times> string option" where
  "processMessage unmarshal c msg s =
     (case unmarshal (msg_Value msg) of
        Inl err \<Rightarrow> (MarkMessage msg (log LError ''failed to unmarshal envelope'' s), None)
      | Inr env \<Rightarrow>
         (case registry_Get (con_registry c) (env_Type env) of
            None \<Rightarrow> (MarkMessage msg (log LWarn ''no handler for event type'' s), None)
          | Some handler \<Rightarrow>
             (case retry_loop handler (cc_MaxRetries (con_config c)) 1 None env s of
                (None, env', s1) \<Rightarrow> (MarkMessage msg s1, None)
              | (Some lastErr, env', s1) \<Rightarrow>
                 (let s2 = log LError ''handler failed after max retries'' s1 in
                  case con_DLQHandler c of
                    None \<Rightarrow> (MarkMessage msg s2, None)
                  | Some DLQHandler \<Rightarrow>
                     (case DLQHandler env' lastErr (ses_world s2) of (panic, w') \<Rightarrow>
                       (let s3 = (emit (ADeadLetter env' lastErr) s2)\<lparr>ses_world := w'\<rparr> in
                        case panic of
                          Some r \<Rightarrow> (s3, Some r)
                        | None \<Rightarrow> (MarkMessage msg s3, None)))))))"

fun ConsumeClaim ::
  "(bytes \<Rightarrow> go_error + 'uid envelope) \<Rightarrow> ('uid, 'w, 'client) consumer \<Rightarrow> consumer_message list \<Rightarrow>
   ('uid, 'w) session \<Rightarrow> ('uid, 'w) session \<times> string option" where
  "ConsumeClaim unmarshal c [] s = (s, None)"
| "ConsumeClaim unmarshal c (msg # msgs) s =
     (case processMessage unmarshal c msg s of
        (s', None) \<Rightarrow> ConsumeClaim unmarshal c msgs s'
      | (s', Some panic) \<Rightarrow> (s', Some panic))"

subsection \<open>Projections of a trace\<close>

fun act_marks :: "'uid action list \<Rightarrow> consumer_message list" where
  "act_marks [] = []"
| "act_marks (AMark m # as) = m # act_marks as"
| "act_marks (_ # as) = act_marks as"

fun act_outcomes :: "'uid action list \<Rightarrow> outcome list" where
  "act_outcomes [] = []"
| "act_outcomes (AInvoke e out # as) = out # act_outcomes as"
| "act_outcomes (_ # as) = act_outcomes as"

fun act_deadletters :: "'uid action list \<Rightarrow> ('uid envelope \<times> go_error) list" where
  "act_deadletters [] = []"
| "act_deadletters (ADeadLetter e err # as) = (e, err) # act_deadletters as"
| "act_deadletters (_ # as) = act_deadletters as"

lemma act_marks_append [simp]: "act_marks (xs @ ys) = act_marks xs @ act_marks ys"
  by (induction xs rule: act_marks.induct) auto

lemma act_outcomes_append [simp]: "act_outcomes (xs @ ys) = act_outcomes xs @ act_outcomes ys"
  by (induction xs rule: act_outcomes.induct) auto

lemma act_deadletters_append [simp]: "act_deadletters (xs @ ys) = act_deadletters xs @ act_deadletters ys"
  by (induction xs rule: act_deadletters.induct) auto

lemma emit_simps [simp]:
  "ses_trace (emit a s) = ses_trace s @ [a]" "ses_world (emit a s) = ses_world s"
  "ses_trace (log l m s) = ses_trace s @ [ALog l m]" "ses_world (log l m s) = ses_world s"
  "ses_trace (MarkMessage msg s) = ses_trace s @ [AMark msg]" "ses_world (MarkMessage msg s) = ses_world s"
  by (simp_all add: emit_def log_def MarkMessage_def)

end
