(* ===== verification/ConsumerDelivery.thy ===== *)
theory ConsumerDelivery
  imports Consumer
begin

section \<open>What the consumer does with a message\<close>

text \<open>
  The abstract view of message processing: \<open>attempts\<close> runs a handler at most a given number
  of times and stops at the first success; the retry loop implements it, and a processed
  message is the attempts, then at most one dead letter, then the mark. From this follow the
  retry bound, the marking of every message, and what is lost when no dead letter callback is
  set or the retry count is not positive.
\<close>

definition outcome_error :: "outcome \<Rightarrow> go_error option" where
  "outcome_error out = (case out of
     Returned err \<Rightarrow> err | Panicked r \<Rightarrow> Some (errorf_detail consumer_ErrHandlerPanic r))"

fun attempts ::
  "('uid, 'w) handler \<Rightarrow> nat \<Rightarrow> 'uid envelope \<Rightarrow> 'w \<Rightarrow> outcome list \<times> 'uid envelope \<times> 'w" where
  "attempts h 0 env w = ([], env, w)"
| "attempts h (Suc n) env w =
     (case h env w of (out, env', w') \<Rightarrow>
        if outcome_error out = None then ([out], env', w')
        else (case attempts h n env' w' of (outs, env2, w2) \<Rightarrow> (out # outs, env2, w2)))"

lemma attempts_failures_before_last:
  "attempts h n env w = (outs, env', w') \<Longrightarrow> \<forall>out \<in> set (butlast outs). outcome_error out \<noteq> None"
  by (induction n arbitrary: env w outs) (auto split: prod.splits if_splits)

lemma attempts_length: "attempts h n env w = (outs, env', w') \<Longrightarrow> length outs \<le> n"
  by (induction n arbitrary: env w outs) (auto split: prod.splits if_splits)

lemma attempts_all_used:
  "attempts h n env w = (outs, env', w') \<Longrightarrow> outs = [] \<or> outcome_error (last outs) \<noteq> None \<Longrightarrow>
   length outs = n"
  by (induction n arbitrary: env w outs) (fastforce split: prod.splits if_splits)+

lemma attempts_failing_length:
  assumes "\<And>e w. outcome_error (fst (h e w)) \<noteq> None" and "attempts h n e w = (outs, e', w')"
  shows "length outs = n"
  using assms(2)
proof (induction n arbitrary: e w outs)
  case (Suc n)
  then show ?case using assms(1) [of e w] by (cases "h e w") (auto split: prod.splits if_splits)
qed simp

lemmas attempts_facts = attempts_failures_before_last attempts_length attempts_all_used

text \<open>An interval of a trace in which nothing was marked, dead-lettered or committed.\<close>

definition quiet :: "'uid action list \<Rightarrow> bool" where
  "quiet as \<longleftrightarrow> act_marks as = [] \<and> act_deadletters as = [] \<and> ACommit \<notin> set as"

lemma quiet_simps [simp]:
  "quiet []" "quiet [ALog l m]" "quiet [AInvoke e out]"
  "quiet (xs @ ys) \<longleftrightarrow> quiet xs \<and> quiet ys"
  by (auto simp: quiet_def)

lemma invokeHandler_eq:
  "h env (ses_world s) = (out, env', w') \<Longrightarrow>
   invokeHandler h env s = (outcome_error out, env', (emit (AInvoke env out) s)\<lparr>ses_world := w'\<rparr>)"
  by (simp add: invokeHandler_def outcome_error_def)

subsection \<open>The retry loop implements the attempts\<close>

lemma retry_loop_attempts:
  assumes "attempts h (nat (m + 1 - a)) env (ses_world s) = (outs, env', w')"
  shows "\<exists>s' new. retry_loop h m a le env s =
      ((if outs = [] then le else outcome_error (last outs)), env', s') \<and>
    ses_world s' = w' \<and> ses_trace s' = ses_trace s @ new \<and> act_outcomes new = outs \<and> quiet new"
  using assms
proof (induction h m a le env s arbitrary: outs env' w' rule: retry_loop.induct)
  case (1 h m a le env s)
  show ?case
  proof (cases "a \<le> m")
    case False
    with "1.prems" show ?thesis by (simp add: retry_loop.simps [of h m a])
  next
    case True
    obtain out env1 w1 where h: "h env (ses_world s) = (out, env1, w1)" by (cases "h env (ses_world s)")
    let ?s1 = "(emit (AInvoke env out) s)\<lparr>ses_world := w1\<rparr>"
    note inv = invokeHandler_eq [where h = h and env = env and s = s, OF h]
    from True obtain n where n: "nat (m + 1 - a) = Suc n" "nat (m + 1 - (a + 1)) = n"
      by (metis Suc_nat_eq_nat_zadd1 add.commute add_diff_cancel_right diff_add_eq diff_ge_0_iff_ge)
    show ?thesis
    proof (cases "outcome_error out")
      case None
      with True n h "1.prems" show ?thesis
        by (auto simp: retry_loop.simps [of h m a] inv)
    next
      case (Some err)
      obtain outs2 env2 w2 where rest: "attempts h n env1 w1 = (outs2, env2, w2)"
        by (cases "attempts h n env1 w1")
      with Some n h "1.prems" have outs: "outs = out # outs2" "env' = env2" "w' = w2" by auto
      let ?s2 = "log LWarn ''handler failed, retrying'' ?s1"
      have "\<exists>s' new. retry_loop h m (a + 1) (Some err) env1 ?s2 =
          ((if outs2 = [] then Some err else outcome_error (last outs2)), env2, s') \<and>
        ses_world s' = w2 \<and> ses_trace s' = ses_trace ?s2 @ new \<and> act_outcomes new = outs2 \<and> quiet new"
        using "1.IH" [OF True inv [symmetric] refl Some] rest n by (simp add: inv Some)
      then obtain s' new where r: "retry_loop h m (a + 1) (Some err) env1 ?s2 =
          ((if outs2 = [] then Some err else outcome_error (last outs2)), env2, s')"
        "ses_world s' = w2" "ses_trace s' = ses_trace ?s2 @ new" "act_outcomes new = outs2" "quiet new"
        by blast
      have "retry_loop h m a le env s = retry_loop h m (a + 1) (Some err) env1 ?s2"
        using True Some by (simp add: retry_loop.simps [of h m a] inv)
      with r outs Some show ?thesis
        by (intro exI [of _ s']
            exI [of _ "AInvoke env out # ALog LWarn ''handler failed, retrying'' # new"])
          (auto simp: quiet_def)
    qed
  qed
qed

lemmas retry_loop_first = retry_loop_attempts [where a = 1, simplified]

lemma retry_loop_extends: "\<exists>r env' s' new. retry_loop h m a le env s = (r, env', s') \<and> ses_trace s' = ses_trace s @ new"
proof -
  obtain outs env' w' where "attempts h (nat (m + 1 - a)) env (ses_world s) = (outs, env', w')"
    by (cases "attempts h (nat (m + 1 - a)) env (ses_world s)")
  from retry_loop_attempts [OF this, of le] show ?thesis by blast
qed

text \<open>With a positive retry count the loop starts by calling the handler with the envelope.\<close>

lemma retry_loop_first_call:
  assumes "a \<le> m"
  shows "\<exists>r env' s' rest. retry_loop h m a le env s = (r, env', s') \<and>
    ses_trace s' = ses_trace s @ AInvoke env (fst (h env (ses_world s))) # rest"
proof -
  obtain out env1 w1 where h: "h env (ses_world s) = (out, env1, w1)" by (cases "h env (ses_world s)")
  note inv = invokeHandler_eq [where h = h and env = env and s = s, OF h]
  let ?s1 = "(emit (AInvoke env out) s)\<lparr>ses_world := w1\<rparr>"
  show ?thesis
  proof (cases "outcome_error out")
    case None
    with assms inv h show ?thesis by (simp add: retry_loop.simps [of h m a])
  next
    case (Some err)
    with assms inv have "retry_loop h m a le env s =
        retry_loop h m (a + 1) (Some err) env1 (log LWarn ''handler failed, retrying'' ?s1)"
      by (simp add: retry_loop.simps [of h m a])
    with retry_loop_extends [of h m "a + 1" "Some err" env1 "log LWarn ''handler failed, retrying'' ?s1"] h
    show ?thesis by fastforce
  qed
qed

subsection \<open>One message: attempts, at most one dead letter, the mark\<close>

text \<open>The dead letters owed after the attempts: one, with the last error, if all failed.\<close>

definition owed_deadletters ::
  "('uid, 'w, 'client) consumer \<Rightarrow> outcome list \<Rightarrow> 'uid envelope \<Rightarrow> ('uid envelope \<times> go_error) list" where
  "owed_deadletters c outs env =
     (if outs = [] \<or> con_DLQHandler c = None then []
      else (case outcome_error (last outs) of None \<Rightarrow> [] | Some err \<Rightarrow> [(env, err)]))"

definition deadletter_actions :: "('uid envelope \<times> go_error) list \<Rightarrow> 'uid action list" where
  "deadletter_actions ds = map (\<lambda>(e, err). ADeadLetter e err) ds"

lemma deadletter_actions_simps [simp]:
  "deadletter_actions [] = []" "deadletter_actions [(e, err)] = [ADeadLetter e err]"
  by (simp_all add: deadletter_actions_def)

lemma processMessage_shape:
  assumes "unmarshal (msg_Value msg) = Inr env"
    and "registry_Get (con_registry c) (env_Type env) = Some h"
    and "attempts h (nat (cc_MaxRetries (con_config c))) env (ses_world s) = (outs, env', w')"
  shows "\<exists>s' panic pre. processMessage unmarshal c msg s = (s', panic) \<and>
    ses_trace s' = ses_trace s @ pre @ deadletter_actions (owed_deadletters c outs env') @
      (if panic = None then [AMark msg] else []) \<and>
    act_outcomes pre = outs \<and> quiet pre \<and>
    (owed_deadletters c outs env' = [] \<longrightarrow> panic = None \<and> ses_world s' = w') \<and>
    (\<forall>f err. con_DLQHandler c = Some f \<and> owed_deadletters c outs env' = [(env', err)] \<longrightarrow>
       (panic, ses_world s') = f env' err w')"
proof -
  obtain s1 pre where r: "retry_loop h (cc_MaxRetries (con_config c)) 1 None env s =
      ((if outs = [] then None else outcome_error (last outs)), env', s1)"
    "ses_world s1 = w'" "ses_trace s1 = ses_trace s @ pre" "act_outcomes pre = outs" "quiet pre"
    using retry_loop_first [where le = None, OF assms(3)] by blast
  show ?thesis
  proof (cases "if outs = [] then None else outcome_error (last outs)")
    case None
    with assms r have "processMessage unmarshal c msg s = (MarkMessage msg s1, None)"
      by (simp add: processMessage_def)
    moreover from None have "owed_deadletters c outs env' = []"
      by (auto simp: owed_deadletters_def split: if_splits)
    ultimately show ?thesis
      using r by (intro exI [of _ "MarkMessage msg s1"] exI [of _ None] exI [of _ pre]) simp
  next
    case (Some err)
    let ?s2 = "log LError ''handler failed after max retries'' s1"
    let ?pre = "pre @ [ALog LError ''handler failed after max retries'']"
    have pre': "act_outcomes ?pre = outs" "quiet ?pre" using r by auto
    show ?thesis
    proof (cases "con_DLQHandler c")
      case None
      with Some assms r have "processMessage unmarshal c msg s = (MarkMessage msg ?s2, None)"
        by (simp add: processMessage_def Let_def)
      with None pre' r show ?thesis
        by (intro exI [of _ "MarkMessage msg ?s2"] exI [of _ None] exI [of _ ?pre])
          (simp add: owed_deadletters_def)
    next
      case (Some f)
      obtain panic w2 where f: "f env' err w' = (panic, w2)" by (cases "f env' err w'")
      let ?s3 = "(emit (ADeadLetter env' err) ?s2)\<lparr>ses_world := w2\<rparr>"
      have owed: "owed_deadletters c outs env' = [(env', err)]"
        using Some \<open>(if outs = [] then None else outcome_error (last outs)) = Some err\<close>
        by (auto simp: owed_deadletters_def split: if_splits)
      have "processMessage unmarshal c msg s =
          (if panic = None then MarkMessage msg ?s3 else ?s3, panic)"
        using Some \<open>(if outs = [] then None else outcome_error (last outs)) = Some err\<close> assms r f
        by (cases panic) (simp_all add: processMessage_def Let_def)
      with owed pre' r f Some show ?thesis
        by (intro exI [of _ "if panic = None then MarkMessage msg ?s3 else ?s3"] exI [of _ panic]
            exI [of _ ?pre]) simp
    qed
  qed
qed

lemma processMessage_first_call:
  assumes "unmarshal (msg_Value msg) = Inr env" "registry_Get (con_registry c) (env_Type env) = Some h"
    and "1 \<le> cc_MaxRetries (con_config c)"
  shows "\<exists>s' panic rest. processMessage unmarshal c msg s = (s', panic) \<and>
    ses_trace s' = ses_trace s @ AInvoke env (fst (h env (ses_world s))) # rest"
proof -
  from retry_loop_first_call [OF assms(3), of h None env s] obtain r env' s1 rest where
    r: "retry_loop h (cc_MaxRetries (con_config c)) 1 None env s = (r, env', s1)"
    "ses_trace s1 = ses_trace s @ AInvoke env (fst (h env (ses_world s))) # rest" by blast
  then show ?thesis
    by (cases r; cases "con_DLQHandler c")
      (simp_all add: processMessage_def assms(1,2) Let_def split: prod.splits option.splits)
qed

lemma processMessage_skips:
  "(\<exists>err. unmarshal (msg_Value msg) = Inl err) \<or>
   (\<exists>env. unmarshal (msg_Value msg) = Inr env \<and> registry_Get (con_registry c) (env_Type env) = None) \<Longrightarrow>
   \<exists>l m. processMessage unmarshal c msg s = (MarkMessage msg (log l m s), None)"
  by (elim disjE exE conjE) (simp_all add: processMessage_def, blast+)

text \<open>Every message, in one statement: what is added to the trace and when it is marked.\<close>

lemma processMessage_marks:
  assumes "processMessage unmarshal c msg s = (s', panic)"
  shows "\<exists>pre. ses_trace s' = ses_trace s @ pre @ (if panic = None then [AMark msg] else []) \<and>
    act_marks pre = [] \<and> ACommit \<notin> set pre \<and> length (act_deadletters pre) \<le> 1"
proof (cases "(\<exists>err. unmarshal (msg_Value msg) = Inl err) \<or>
   (\<exists>env. unmarshal (msg_Value msg) = Inr env \<and> registry_Get (con_registry c) (env_Type env) = None)")
  case True
  from processMessage_skips [where unmarshal = unmarshal, OF this] assms obtain l m
    where "s' = MarkMessage msg (log l m s)" "panic = None" by (metis prod.inject)
  then show ?thesis by (intro exI [of _ "[ALog l m]"]) auto
next
  case False
  then obtain env h where e: "unmarshal (msg_Value msg) = Inr env"
    "registry_Get (con_registry c) (env_Type env) = Some h"
    by (metis not_None_eq obj_sumE)
  obtain outs env' w' where at: "attempts h (nat (cc_MaxRetries (con_config c))) env (ses_world s) = (outs, env', w')"
    by (cases "attempts h (nat (cc_MaxRetries (con_config c))) env (ses_world s)")
  from processMessage_shape [where unmarshal = unmarshal and s = s and c = c, OF e at] assms obtain pre where
    "ses_trace s' = ses_trace s @ pre @ deadletter_actions (owed_deadletters c outs env') @
      (if panic = None then [AMark msg] else [])" "quiet pre" by auto
  then show ?thesis
    by (intro exI [of _ "pre @ deadletter_actions (owed_deadletters c outs env')"])
      (auto simp: quiet_def owed_deadletters_def split: option.splits)
qed

text \<open>
  C1: processing a decodable message with a handler is: the attempts (the handler is called at
  most \<open>MaxRetries\<close> times and never after a success), then, exactly if the last of them
  failed and a dead letter callback is set, one dead letter carrying the envelope as the handler
  left it and the last error, then the mark of this message. Without a dead letter there is no
  panic; with one, the callback is called on that envelope and error in the world the attempts
  left, a panic is the callback's own, and only then the mark is missing. Nothing else is marked
  or dead-lettered.
\<close>

theorem processMessage_delivery:
  assumes "unmarshal (msg_Value msg) = Inr env"
    and "registry_Get (con_registry c) (env_Type env) = Some h"
    and "attempts h (nat (cc_MaxRetries (con_config c))) env (ses_world s) = (outs, env', w')"
  shows "\<exists>s' panic pre. processMessage unmarshal c msg s = (s', panic) \<and>
    ses_trace s' = ses_trace s @ pre @ deadletter_actions (owed_deadletters c outs env') @
      (if panic = None then [AMark msg] else []) \<and>
    act_outcomes pre = outs \<and> act_marks pre = [] \<and> act_deadletters pre = [] \<and>
    length outs \<le> nat (cc_MaxRetries (con_config c)) \<and>
    (\<forall>out \<in> set (butlast outs). outcome_error out \<noteq> None) \<and>
    (owed_deadletters c outs env' = [] \<longrightarrow> panic = None \<and> ses_world s' = w') \<and>
    (\<forall>f err. con_DLQHandler c = Some f \<and> owed_deadletters c outs env' = [(env', err)] \<longrightarrow>
       (panic, ses_world s') = f env' err w')"
  using processMessage_shape [where unmarshal = unmarshal and c = c and s = s, OF assms]
    attempts_failures_before_last [OF assms(3)] attempts_length [OF assms(3)]
  unfolding quiet_def by blast

text \<open>A sample consumer: its handler fails until the counter in the world reaches two.\<close>

definition sample_message :: consumer_message where
  "sample_message = \<lparr>msg_Topic = ''txova.rides.v1'', msg_Partition = 0, msg_Offset = 7, msg_Value = ''x''\<rparr>"

definition sample_error :: go_error where
  "sample_error = ErrValue ''app'' ''errBusy'' ''busy''"

definition flaky_handler :: "(nat, nat) handler" where
  "flaky_handler env w = (Returned (if w < 2 then Some sample_error else None), env, Suc w)"

definition sample_consumer :: "int \<Rightarrow> (nat, nat) dlq_callback option \<Rightarrow> (nat, nat, unit) consumer" where
  "sample_consumer n dlq = \<lparr>con_client = (), con_config = consumer_DefaultConfig\<lparr>cc_MaxRetries := n\<rparr>,
     con_registry = registry_RegisterWildcard (Some flaky_handler) NewHandlerRegistry,
     con_DLQHandler = dlq\<rparr>"

definition sample_session :: "(nat, nat) session" where
  "sample_session = \<lparr>ses_world = 0, ses_trace = []\<rparr>"

lemma sample_Get: "registry_Get (con_registry (sample_consumer n dlq)) t = Some flaky_handler"
  by (simp add: sample_consumer_def registry_Get_def registry_RegisterWildcard_def
      NewHandlerRegistry_def gomap.lookup_empty)

lemma sample_attempts:
  "attempts flaky_handler 2 env 0 = ([Returned (Some sample_error), Returned (Some sample_error)], env, 2)"
  "attempts flaky_handler 3 env 0 =
     ([Returned (Some sample_error), Returned (Some sample_error), Returned None], env, 3)"
  by (simp_all add: eval_nat_numeral flaky_handler_def outcome_error_def)

lemma sample_settings [simp]:
  "cc_MaxRetries (con_config (sample_consumer n dlq)) = n" "con_DLQHandler (sample_consumer n dlq) = dlq"
  "ses_world sample_session = 0" "ses_trace sample_session = []"
  by (simp_all add: sample_consumer_def sample_session_def)

theorem processMessage_delivery_witness:
  "\<exists>s' pre. processMessage (\<lambda>b. Inr sample_envelope) (sample_consumer 2 (Some (\<lambda>e err w. (None, w + 10))))
      sample_message sample_session = (s', None) \<and>
    ses_trace s' = pre @ [ADeadLetter sample_envelope sample_error, AMark sample_message] \<and> ses_world s' = 12 \<and>
    act_outcomes pre = [Returned (Some sample_error), Returned (Some sample_error)]"
proof -
  let ?f = "\<lambda>(e :: nat envelope) (err :: go_error) w. (None :: string option, w + (10 :: nat))"
  let ?c = "sample_consumer 2 (Some ?f)"
  have at: "attempts flaky_handler (nat (cc_MaxRetries (con_config ?c))) sample_envelope (ses_world sample_session) =
      ([Returned (Some sample_error), Returned (Some sample_error)], sample_envelope, 2)"
    by (simp add: sample_attempts)
  have owed: "owed_deadletters ?c [Returned (Some sample_error), Returned (Some sample_error)] sample_envelope =
      [(sample_envelope, sample_error)]"
    by (simp add: owed_deadletters_def outcome_error_def)
  from processMessage_delivery [where unmarshal = "\<lambda>b. Inr sample_envelope" and msg = sample_message
      and s = sample_session and c = ?c, OF refl sample_Get at]
  obtain s' panic pre where r: "processMessage (\<lambda>b. Inr sample_envelope) ?c sample_message sample_session = (s', panic)"
    "ses_trace s' = pre @ [ADeadLetter sample_envelope sample_error] @ (if panic = None then [AMark sample_message] else [])"
    "act_outcomes pre = [Returned (Some sample_error), Returned (Some sample_error)]"
    "(panic, ses_world s') = ?f sample_envelope sample_error 2"
    unfolding owed deadletter_actions_simps sample_settings append_Nil by blast
  then show ?thesis by (intro exI [of _ s'] exI [of _ pre]) simp
qed

subsection \<open>Retries\<close>

text \<open>
  C10: the retry loop calls the handler at most \<open>MaxRetries\<close> times and marks nothing. It
  ends with an error exactly when it has used all of them and every call failed (an error
  return or a panic), and that error is the last call's; it ends without one, for a positive
  \<open>MaxRetries\<close>, exactly when the last call it made succeeded.
\<close>

theorem retry_loop_bound:
  assumes "retry_loop h m 1 None env s = (r, env', s')"
  shows "\<exists>new. ses_trace s' = ses_trace s @ new \<and> act_marks new = [] \<and>
    length (act_outcomes new) \<le> nat m \<and>
    (r \<noteq> None \<longrightarrow> length (act_outcomes new) = nat m \<and> r = outcome_error (last (act_outcomes new)) \<and>
       (\<forall>out \<in> set (act_outcomes new). outcome_error out \<noteq> None)) \<and>
    (r = None \<and> 0 < m \<longrightarrow> act_outcomes new \<noteq> [] \<and> outcome_error (last (act_outcomes new)) = None \<and>
       (\<forall>out \<in> set (butlast (act_outcomes new)). outcome_error out \<noteq> None))"
proof -
  obtain outs env1 w1 where at: "attempts h (nat m) env (ses_world s) = (outs, env1, w1)"
    by (cases "attempts h (nat m) env (ses_world s)")
  from retry_loop_first [where le = None, OF at] assms obtain new where
    r: "r = (if outs = [] then None else outcome_error (last outs))" and
    new: "ses_trace s' = ses_trace s @ new" "act_outcomes new = outs" "act_marks new = []"
    by (auto simp: quiet_def)
  note facts = attempts_facts [OF at]
  have "\<forall>out \<in> set outs. outcome_error out \<noteq> None" if "r \<noteq> None"
  proof -
    from that r have "outs \<noteq> []" "outcome_error (last outs) \<noteq> None" by (auto split: if_splits)
    with facts(1) show ?thesis by (metis UnE append_butlast_last_id empty_iff insert_iff list.set set_append)
  qed
  moreover have "outs \<noteq> []" if "0 < m" using facts(3) that by (cases outs) auto
  ultimately show ?thesis
    using new facts r by (intro exI [of _ new]) (auto split: if_splits)
qed

theorem retry_loop_bound_witness:
  "\<exists>s'. retry_loop flaky_handler 3 1 None sample_envelope sample_session = (None, sample_envelope, s') \<and>
     length (act_outcomes (ses_trace s')) \<le> 3"
proof -
  have at: "attempts flaky_handler (nat 3) sample_envelope (ses_world sample_session) =
      ([Returned (Some sample_error), Returned (Some sample_error), Returned None], sample_envelope, 3)"
    by (simp add: sample_attempts)
  from retry_loop_first [where le = None, OF at] obtain s' where
    r: "retry_loop flaky_handler 3 1 None sample_envelope sample_session = (None, sample_envelope, s')"
    by (auto simp: outcome_error_def)
  from retry_loop_bound [OF r] r show ?thesis by auto
qed

text \<open>
  C36: with a \<open>MaxRetries\<close> of zero or less a decodable message that has a handler is marked
  as processed although the handler is never called and nothing is dead-lettered or logged, and
  the configuration's validation accepts every value of \<open>MaxRetries\<close>.
\<close>

theorem nonpositive_MaxRetries_drops_messages:
  assumes "unmarshal (msg_Value msg) = Inr env"
    and "registry_Get (con_registry c) (env_Type env) = Some h"
    and "cc_MaxRetries (con_config c) \<le> 0"
  shows "processMessage unmarshal c msg s = (MarkMessage msg s, None) \<and>
    consumer_Config_Validate (cfg\<lparr>cc_MaxRetries := n\<rparr>) = consumer_Config_Validate cfg"
  using assms by (simp add: processMessage_def retry_loop.simps consumer_Config_Validate_ignores_MaxRetries)

theorem nonpositive_MaxRetries_drops_messages_witness:
  "processMessage (\<lambda>b. Inr sample_envelope) (sample_consumer 0 (Some (\<lambda>e err w. (None, w)))) sample_message
     sample_session = (MarkMessage sample_message sample_session, None)"
  using nonpositive_MaxRetries_drops_messages [where unmarshal = "\<lambda>b. Inr sample_envelope"
      and msg = sample_message and c = "sample_consumer 0 (Some (\<lambda>e err w. (None, w)))"
      and s = sample_session, OF refl sample_Get]
  by simp

lemma owed_none_without_callback: "con_DLQHandler c = None \<Longrightarrow> owed_deadletters c outs env = []"
  by (simp add: owed_deadletters_def)

text \<open>
  Without a dead letter callback a message whose handler fails on every attempt is still
  marked as processed: after exactly \<open>MaxRetries\<close> failed calls the mark is the last action,
  and no dead letter was made, so the message is discarded.
\<close>

theorem failed_message_marked_without_callback:
  assumes "unmarshal (msg_Value msg) = Inr env"
    and "registry_Get (con_registry c) (env_Type env) = Some h"
    and "con_DLQHandler c = None"
    and "\<And>e w. outcome_error (fst (h e w)) \<noteq> None"
  shows "\<exists>s' pre. processMessage unmarshal c msg s = (s', None) \<and>
    ses_trace s' = ses_trace s @ pre @ [AMark msg] \<and> act_deadletters pre = [] \<and>
    length (act_outcomes pre) = nat (cc_MaxRetries (con_config c))"
proof -
  let ?n = "nat (cc_MaxRetries (con_config c))"
  obtain outs env' w' where at: "attempts h ?n env (ses_world s) = (outs, env', w')"
    by (cases "attempts h ?n env (ses_world s)")
  from processMessage_shape [where unmarshal = unmarshal and c = c and s = s, OF assms(1,2) at]
  show ?thesis
    using attempts_failing_length [where h = h, OF assms(4) at]
    by (auto simp: owed_none_without_callback [OF assms(3)] quiet_def)
qed

definition failing_handler :: "(nat, nat) handler" where
  "failing_handler env w = (Panicked ''boom'', env, Suc w)"

theorem failed_message_marked_without_callback_witness:
  "\<exists>s' pre. processMessage (\<lambda>b. Inr sample_envelope)
      ((sample_consumer 3 None)\<lparr>con_registry := registry_RegisterWildcard (Some failing_handler) NewHandlerRegistry\<rparr>)
      sample_message sample_session = (s', None) \<and>
    ses_trace s' = pre @ [AMark sample_message] \<and> act_deadletters pre = [] \<and> length (act_outcomes pre) = 3"
proof -
  let ?c = "(sample_consumer 3 None)\<lparr>con_registry := registry_RegisterWildcard (Some failing_handler) NewHandlerRegistry\<rparr>"
  have g: "registry_Get (con_registry ?c) (env_Type sample_envelope) = Some failing_handler"
    by (simp add: registry_Get_def registry_RegisterWildcard_def NewHandlerRegistry_def gomap.lookup_empty)
  have d: "con_DLQHandler ?c = None" by (simp add: sample_consumer_def)
  have f: "outcome_error (fst (failing_handler e w)) \<noteq> None" for e w
    by (simp add: failing_handler_def outcome_error_def)
  have n: "nat (cc_MaxRetries (con_config ?c)) = 3" by (simp add: sample_consumer_def)
  from failed_message_marked_without_callback [where unmarshal = "\<lambda>b. Inr sample_envelope"
      and msg = sample_message and s = sample_session, OF refl g d f]
  show ?thesis unfolding n sample_settings append_Nil .
qed

subsection \<open>Panics\<close>

text \<open>
  A panic of a handler never leaves the consumer: \<open>invokeHandler\<close> turns it into an
  error that \<open>errors.Is\<close> recognises as \<open>ErrHandlerPanic\<close> and whose text carries the
  panic value; a handler that returns has its own result passed on unchanged.
\<close>

theorem invokeHandler_contains_panics:
  "(case h env (ses_world s) of
      (Panicked r, env', w') \<Rightarrow>
        (\<exists>err. fst (invokeHandler h env s) = Some err \<and> errors_is err consumer_ErrHandlerPanic \<and>
           error_text err = ''handler panicked: '' @ r)
    | (Returned e, env', w') \<Rightarrow> fst (invokeHandler h env s) = e)"
  by (simp add: invokeHandler_def go_err errorf_detail_def split: prod.splits outcome.splits)

subsection \<open>A claim\<close>

interpretation consumer_claim: claim_loop
  "processMessage unmarshal c" "ConsumeClaim unmarshal c" "\<lambda>s. act_marks (ses_trace s)"
  for unmarshal c
proof unfold_locales
  fix m s s' assume "processMessage unmarshal c m s = (s', None)"
  from processMessage_marks [OF this] show "act_marks (ses_trace s') = act_marks (ses_trace s) @ [m]"
    by auto
next
  fix m s s' e assume "processMessage unmarshal c m s = (s', Some e)"
  from processMessage_marks [OF this] show "act_marks (ses_trace s') = act_marks (ses_trace s)"
    by auto
qed (auto split: prod.splits option.splits)

lemma processMessage_panic_needs_callback:
  assumes "processMessage unmarshal c msg s = (s', Some r)"
  shows "\<exists>f env err w. con_DLQHandler c = Some f \<and> fst (f env err w) = Some r"
  using assms
  by (auto simp: processMessage_def Let_def split: sum.splits option.splits prod.splits) (metis fst_conv)

text \<open>
  C9: a claim marks a prefix of its messages, each once and in order. If the dead letter
  callback never panics (or there is none) the claim runs to its end and every message has been
  marked, whatever the decoder and the handlers did.
\<close>

theorem ConsumeClaim_marks_in_order:
  assumes "ConsumeClaim unmarshal c msgs s = (s', panic)"
  shows "(\<exists>k. act_marks (ses_trace s') = act_marks (ses_trace s) @ take k msgs) \<and>
    ((\<forall>f env err w. con_DLQHandler c = Some f \<longrightarrow> fst (f env err w) = None) \<longrightarrow>
       panic = None \<and> act_marks (ses_trace s') = act_marks (ses_trace s) @ msgs)"
proof -
  have "panic = None"
    if calm: "\<forall>f env err w. con_DLQHandler c = Some f \<longrightarrow> fst (f env err w) = None"
  proof (cases panic)
    case (Some r)
    from consumer_claim.loop_stop_split [OF assms [unfolded Some]]
    obtain m s1 where "processMessage unmarshal c m s1 = (s', Some r)" by blast
    from processMessage_panic_needs_callback [OF this] calm show ?thesis by auto
  qed
  with consumer_claim.loop_marks_prefix [OF assms] consumer_claim.loop_ok_marks assms
  show ?thesis by blast
qed

theorem ConsumeClaim_marks_in_order_witness:
  "\<exists>s'. ConsumeClaim (\<lambda>b. Inr sample_envelope) (sample_consumer 1 None) [sample_message, sample_message]
      sample_session = (s', None) \<and> act_marks (ses_trace s') = [sample_message, sample_message]"
proof -
  obtain s' panic where r: "ConsumeClaim (\<lambda>b. Inr sample_envelope) (sample_consumer 1 None)
      [sample_message, sample_message] sample_session = (s', panic)" by fastforce
  from ConsumeClaim_marks_in_order [OF r] r show ?thesis by auto
qed

subsection \<open>Commits\<close>

lemma ConsumeClaim_no_commit:
  "ConsumeClaim unmarshal c msgs s = (s', panic) \<Longrightarrow> ACommit \<notin> set (ses_trace s) \<Longrightarrow> ACommit \<notin> set (ses_trace s')"
proof (induction msgs arbitrary: s)
  case (Cons m ms)
  obtain s1 p1 where p: "processMessage unmarshal c m s = (s1, p1)" by (cases "processMessage unmarshal c m s")
  from processMessage_marks [OF p] Cons.prems(2) have "ACommit \<notin> set (ses_trace s1)" by (auto split: if_splits)
  with Cons p show ?case by (cases p1) auto
qed auto

lemma ConsumeClaim_extends:
  "ConsumeClaim unmarshal c msgs s = (s', panic) \<Longrightarrow> \<exists>new. ses_trace s' = ses_trace s @ new"
proof (induction msgs arbitrary: s)
  case (Cons m ms)
  obtain s1 p1 where p: "processMessage unmarshal c m s = (s1, p1)" by (cases "processMessage unmarshal c m s")
  from processMessage_marks [OF p] obtain new1 where "ses_trace s1 = ses_trace s @ new1" by blast
  with Cons p show ?case by (cases p1) fastforce+
qed auto

text \<open>
  Processing a claim never asks the session to commit offsets, it only marks; and the client
  configuration made from the default configuration turns automatic commits off. Under the
  defaults nothing in the package ever commits a marked offset.
\<close>

theorem defaults_never_commit:
  "(ACommit \<in> set (ses_trace (fst (ConsumeClaim unmarshal c msgs s))) \<longleftrightarrow> ACommit \<in> set (ses_trace s)) \<and>
   sc_AutoCommit_Enable (consumer_toSaramaConfig base newest oldest consumer_DefaultConfig) = False"
proof -
  obtain s' panic where r: "ConsumeClaim unmarshal c msgs s = (s', panic)"
    by (cases "ConsumeClaim unmarshal c msgs s")
  have "\<exists>new. ses_trace s' = ses_trace s @ new" by (rule ConsumeClaim_extends [OF r])
  with ConsumeClaim_no_commit [OF r] r show ?thesis
    by (auto simp: consumer_toSaramaConfig_def consumer_DefaultConfig_def)
qed

end
