(* ===== verification/ConsumerSession.thy ===== *)
theory ConsumerSession
  imports ConsumerDelivery
begin

section \<open>The concurrent claims of a session (consumer/consumer.go)\<close>

text \<open>
  In a session the Kafka client runs \<open>ConsumeClaim\<close> once for every partition assigned to the
  consumer, each in a goroutine, over the one consumer and the one session. Here a claim is a
  machine with a program counter; a step does what the code does between two calls that leave
  the consumer: receiving and decoding a message and looking up its handler, one attempt, the end
  of the retry loop, the dead letter callback, the mark. Steps of different claims interleave in
  any order, and the handlers share the world. A panic of the callback ends the process. Run
  alone, a claim does what \<open>ConsumeClaim\<close> does.
\<close>

datatype ('uid, 'w) claim_pc =
    PIdle
  | PTry consumer_message "('uid, 'w) handler" int "go_error option" "'uid envelope"
  | PFail consumer_message go_error "'uid envelope"
  | PMark consumer_message

record ('uid, 'w) claim =
  cl_pc :: "('uid, 'w) claim_pc"
  cl_msgs :: "consumer_message list"

subsection \<open>The steps of a claim\<close>

text \<open>The decoding and the handler lookup at the start of \<open>processMessage\<close>.\<close>

definition receive ::
  "(bytes \<Rightarrow> go_error + 'uid envelope) \<Rightarrow> ('uid, 'w, 'client) consumer \<Rightarrow> consumer_message \<Rightarrow>
   ('uid, 'w) session \<Rightarrow> ('uid, 'w) claim_pc \<times> ('uid, 'w) session" where
  "receive unmarshal c msg s =
     (case unmarshal (msg_Value msg) of
        Inl err \<Rightarrow> (PMark msg, log LError ''failed to unmarshal envelope'' s)
      | Inr env \<Rightarrow>
         (case registry_Get (con_registry c) (env_Type env) of
            None \<Rightarrow> (PMark msg, log LWarn ''no handler for event type'' s)
          | Some handler \<Rightarrow> (PTry msg handler 1 None env, s)))"

text \<open>One round of the retry loop, or its end.\<close>

definition try_once ::
  "('uid, 'w, 'client) consumer \<Rightarrow> consumer_message \<Rightarrow> ('uid, 'w) handler \<Rightarrow> int \<Rightarrow> go_error option \<Rightarrow> 'uid envelope \<Rightarrow>
   ('uid, 'w) session \<Rightarrow> ('uid, 'w) claim_pc \<times> ('uid, 'w) session" where
  "try_once c msg h attempt lastErr env s =
     (if attempt \<le> cc_MaxRetries (con_config c) then
        (case invokeHandler h env s of (err, env', s') \<Rightarrow>
           (case err of
              None \<Rightarrow> (PMark msg, s')
            | Some e \<Rightarrow> (PTry msg h (attempt + 1) (Some e) env', log LWarn ''handler failed, retrying'' s')))
      else (case lastErr of
          None \<Rightarrow> (PMark msg, s)
        | Some e \<Rightarrow> (PFail msg e env, log LError ''handler failed after max retries'' s)))"

text \<open>The dead letter callback, which may panic.\<close>

definition dead_letter ::
  "('uid, 'w, 'client) consumer \<Rightarrow> go_error \<Rightarrow> 'uid envelope \<Rightarrow> ('uid, 'w) session \<Rightarrow>
   ('uid, 'w) session \<times> string option" where
  "dead_letter c err env s = (case con_DLQHandler c of
     None \<Rightarrow> (s, None)
   | Some DLQHandler \<Rightarrow> (case DLQHandler env err (ses_world s) of (panic, w') \<Rightarrow>
       ((emit (ADeadLetter env err) s)\<lparr>ses_world := w'\<rparr>, panic)))"

definition claim_step ::
  "(bytes \<Rightarrow> go_error + 'uid envelope) \<Rightarrow> ('uid, 'w, 'client) consumer \<Rightarrow> ('uid, 'w) claim \<Rightarrow> ('uid, 'w) session \<Rightarrow>
   (('uid, 'w) claim \<times> ('uid, 'w) session \<times> string option) option" where
  "claim_step unmarshal c cl s = (case cl_pc cl of
     PIdle \<Rightarrow> (case cl_msgs cl of
         [] \<Rightarrow> None
       | msg # msgs \<Rightarrow> (case receive unmarshal c msg s of (pc, s') \<Rightarrow> Some (\<lparr>cl_pc = pc, cl_msgs = msgs\<rparr>, s', None)))
   | PTry msg h attempt lastErr env \<Rightarrow>
       (case try_once c msg h attempt lastErr env s of (pc, s') \<Rightarrow> Some (cl\<lparr>cl_pc := pc\<rparr>, s', None))
   | PFail msg err env \<Rightarrow> (case dead_letter c err env s of (s', panic) \<Rightarrow> Some (cl\<lparr>cl_pc := PMark msg\<rparr>, s', panic))
   | PMark msg \<Rightarrow> Some (cl\<lparr>cl_pc := PIdle\<rparr>, MarkMessage msg s, None))"

subsection \<open>Sessions\<close>

record ('uid, 'w) group_session =
  gs_claims :: "('uid, 'w) claim list"
  gs_session :: "('uid, 'w) session"
  gs_crash :: "string option"

definition set_claim :: "nat \<Rightarrow> ('uid, 'w) claim \<Rightarrow> ('uid, 'w) group_session \<Rightarrow> ('uid, 'w) group_session" where
  "set_claim i cl g = g\<lparr>gs_claims := (gs_claims g)[i := cl]\<rparr>"

text \<open>The client may also close the channel of a claim, which drops what it has not delivered.\<close>

inductive session_step ::
  "(bytes \<Rightarrow> go_error + 'uid envelope) \<Rightarrow> ('uid, 'w, 'client) consumer \<Rightarrow>
   ('uid, 'w) group_session \<Rightarrow> ('uid, 'w) group_session \<Rightarrow> bool" for unmarshal c where
  claim_runs: "gs_crash g = None \<Longrightarrow> i < length (gs_claims g) \<Longrightarrow>
     claim_step unmarshal c (gs_claims g ! i) (gs_session g) = Some (cl, s, panic) \<Longrightarrow>
     session_step unmarshal c g ((set_claim i cl g)\<lparr>gs_session := s, gs_crash := panic\<rparr>)"
| channel_closed: "gs_crash g = None \<Longrightarrow> i < length (gs_claims g) \<Longrightarrow> cl_msgs (gs_claims g ! i) \<noteq> [] \<Longrightarrow>
     session_step unmarshal c g (set_claim i ((gs_claims g ! i)\<lparr>cl_msgs := []\<rparr>) g)"

definition claim_of :: "consumer_message list \<Rightarrow> ('uid, 'w) claim" where
  "claim_of msgs = \<lparr>cl_pc = PIdle, cl_msgs = msgs\<rparr>"

definition session_initial :: "consumer_message list list \<Rightarrow> ('uid, 'w) session \<Rightarrow> ('uid, 'w) group_session \<Rightarrow> bool" where
  "session_initial batches s g \<longleftrightarrow> g = \<lparr>gs_claims = map claim_of batches, gs_session = s, gs_crash = None\<rparr>"

subsection \<open>A claim alone is ConsumeClaim\<close>

text \<open>What is left of \<open>ConsumeClaim\<close> from a state of a claim.\<close>

definition finish_message ::
  "(bytes \<Rightarrow> go_error + 'uid envelope) \<Rightarrow> ('uid, 'w, 'client) consumer \<Rightarrow> consumer_message \<Rightarrow> consumer_message list \<Rightarrow>
   ('uid, 'w) session \<times> string option \<Rightarrow> ('uid, 'w) session \<times> string option" where
  "finish_message unmarshal c msg msgs r = (case r of
     (s, None) \<Rightarrow> ConsumeClaim unmarshal c msgs (MarkMessage msg s)
   | (s, Some panic) \<Rightarrow> (s, Some panic))"

definition finish_retries ::
  "(bytes \<Rightarrow> go_error + 'uid envelope) \<Rightarrow> ('uid, 'w, 'client) consumer \<Rightarrow> consumer_message \<Rightarrow> consumer_message list \<Rightarrow>
   go_error option \<times> 'uid envelope \<times> ('uid, 'w) session \<Rightarrow> ('uid, 'w) session \<times> string option" where
  "finish_retries unmarshal c msg msgs r = (case r of
     (None, env, s) \<Rightarrow> finish_message unmarshal c msg msgs (s, None)
   | (Some err, env, s) \<Rightarrow>
       finish_message unmarshal c msg msgs (dead_letter c err env (log LError ''handler failed after max retries'' s)))"

definition claim_result ::
  "(bytes \<Rightarrow> go_error + 'uid envelope) \<Rightarrow> ('uid, 'w, 'client) consumer \<Rightarrow> ('uid, 'w) claim \<Rightarrow> ('uid, 'w) session \<Rightarrow>
   ('uid, 'w) session \<times> string option" where
  "claim_result unmarshal c cl s = (case cl_pc cl of
     PIdle \<Rightarrow> ConsumeClaim unmarshal c (cl_msgs cl) s
   | PTry msg h attempt lastErr env \<Rightarrow>
       finish_retries unmarshal c msg (cl_msgs cl) (retry_loop h (cc_MaxRetries (con_config c)) attempt lastErr env s)
   | PFail msg err env \<Rightarrow> finish_message unmarshal c msg (cl_msgs cl) (dead_letter c err env s)
   | PMark msg \<Rightarrow> finish_message unmarshal c msg (cl_msgs cl) (s, None))"

lemma processMessage_finish:
  "(case processMessage unmarshal c msg s of
      (s', None) \<Rightarrow> ConsumeClaim unmarshal c msgs s' | (s', Some panic) \<Rightarrow> (s', Some panic)) =
   (case receive unmarshal c msg s of (pc, s') \<Rightarrow> claim_result unmarshal c \<lparr>cl_pc = pc, cl_msgs = msgs\<rparr> s')"
  by (auto simp: processMessage_def receive_def claim_result_def finish_retries_def finish_message_def dead_letter_def
      Let_def split: sum.splits option.splits prod.splits)

lemma claim_step_result:
  assumes "claim_step unmarshal c cl s = Some (cl', s', panic)"
  shows "claim_result unmarshal c cl s =
    (case panic of None \<Rightarrow> claim_result unmarshal c cl' s' | Some r \<Rightarrow> (s', Some r))"
proof (cases "cl_pc cl")
  case PIdle
  with assms obtain msg msgs where m: "cl_msgs cl = msg # msgs" by (cases "cl_msgs cl") (auto simp: claim_step_def)
  with PIdle have "claim_result unmarshal c cl s = (case processMessage unmarshal c msg s of
      (s', None) \<Rightarrow> ConsumeClaim unmarshal c msgs s' | (s', Some panic) \<Rightarrow> (s', Some panic))"
    by (simp add: claim_result_def)
  with PIdle m assms processMessage_finish [where unmarshal = unmarshal and c = c and msg = msg and s = s and msgs = msgs] show ?thesis
    by (auto simp: claim_step_def split: prod.splits)
next
  case (PTry msg h a lastErr env)
  with assms show ?thesis
    by (auto simp: claim_step_def try_once_def claim_result_def finish_retries_def retry_loop.simps [of h _ a]
        split: prod.splits option.splits if_splits)
next
  case (PFail msg err env)
  with assms show ?thesis
    by (auto simp: claim_step_def claim_result_def finish_message_def split: prod.splits option.splits)
next
  case (PMark msg)
  with assms show ?thesis by (auto simp: claim_step_def claim_result_def finish_message_def)
qed

text \<open>Every step uses up something: attempts, stages of a message, messages.\<close>

fun pc_rank :: "int \<Rightarrow> ('uid, 'w) claim_pc \<Rightarrow> nat" where
  "pc_rank n PIdle = 0"
| "pc_rank n (PMark msg) = 1"
| "pc_rank n (PFail msg err env) = 2"
| "pc_rank n (PTry msg h attempt lastErr env) = nat (n + 1 - attempt) + 3"

definition claim_rank :: "int \<Rightarrow> ('uid, 'w) claim \<Rightarrow> nat" where
  "claim_rank n cl = pc_rank n (cl_pc cl) + length (cl_msgs cl) * (nat n + 4)"

lemma receive_rank: "receive unmarshal c msg s = (pc, s') \<Longrightarrow> pc_rank (cc_MaxRetries (con_config c)) pc \<le> nat (cc_MaxRetries (con_config c)) + 3"
  by (auto simp: receive_def split: sum.splits option.splits)

lemma try_once_rank:
  "try_once c msg h a le env s = (pc, s') \<Longrightarrow>
   pc_rank (cc_MaxRetries (con_config c)) pc < pc_rank (cc_MaxRetries (con_config c)) (PTry msg h a le env)"
  by (auto simp: try_once_def split: prod.splits option.splits if_splits)

lemma claim_step_rank:
  assumes "claim_step unmarshal c cl s = Some (cl', s', panic)"
  shows "claim_rank (cc_MaxRetries (con_config c)) cl' < claim_rank (cc_MaxRetries (con_config c)) cl"
proof (cases "cl_pc cl")
  case PIdle
  with assms obtain msg msgs where m: "cl_msgs cl = msg # msgs" by (cases "cl_msgs cl") (auto simp: claim_step_def)
  obtain pc s1 where r: "receive unmarshal c msg s = (pc, s1)" by fastforce
  from receive_rank [OF r] r m PIdle assms show ?thesis by (auto simp: claim_step_def claim_rank_def)
next
  case (PTry msg h a lastErr env)
  obtain pc s1 where r: "try_once c msg h a lastErr env s = (pc, s1)" by fastforce
  from try_once_rank [OF r] r PTry assms show ?thesis by (auto simp: claim_step_def claim_rank_def)
qed (use assms in \<open>auto simp: claim_step_def claim_rank_def split: prod.splits\<close>)

lemma claim_step_None_iff: "claim_step unmarshal c cl s = None \<longleftrightarrow> cl = claim_of []"
  by (cases cl) (auto simp: claim_step_def claim_of_def split: claim_pc.splits list.splits prod.splits)

text \<open>A claim on its own, up to a panic.\<close>

definition claim_moves ::
  "(bytes \<Rightarrow> go_error + 'uid envelope) \<Rightarrow> ('uid, 'w, 'client) consumer \<Rightarrow>
   ('uid, 'w) claim \<times> ('uid, 'w) session \<Rightarrow> ('uid, 'w) claim \<times> ('uid, 'w) session \<Rightarrow> bool" where
  "claim_moves unmarshal c x y \<longleftrightarrow> claim_step unmarshal c (fst x) (snd x) = Some (fst y, snd y, None)"

lemma claim_moves_result:
  "(claim_moves unmarshal c)\<^sup>*\<^sup>* x y \<Longrightarrow>
   claim_result unmarshal c (fst x) (snd x) = claim_result unmarshal c (fst y) (snd y)"
  by (induction rule: rtranclp_induct) (auto simp: claim_moves_def dest: claim_step_result)

text \<open>The claim runs until it is drained, or until the callback panics.\<close>

definition ends_with ::
  "(bytes \<Rightarrow> go_error + 'uid envelope) \<Rightarrow> ('uid, 'w, 'client) consumer \<Rightarrow>
   ('uid, 'w) claim \<times> ('uid, 'w) session \<Rightarrow> ('uid, 'w) session \<times> string option \<Rightarrow> bool" where
  "ends_with unmarshal c x res \<longleftrightarrow> (case res of
     (s', None) \<Rightarrow> (claim_moves unmarshal c)\<^sup>*\<^sup>* x (claim_of [], s')
   | (s', Some r) \<Rightarrow> \<exists>cl s cl'. (claim_moves unmarshal c)\<^sup>*\<^sup>* x (cl, s) \<and>
       claim_step unmarshal c cl s = Some (cl', s', Some r))"

lemma ends_with_step: "claim_moves unmarshal c x y \<Longrightarrow> ends_with unmarshal c y res \<Longrightarrow> ends_with unmarshal c x res"
  by (auto simp: ends_with_def split: prod.splits option.splits intro: converse_rtranclp_into_rtranclp)

lemma claim_runs_to_result: "ends_with unmarshal c (cl, s) (claim_result unmarshal c cl s)"
proof (induction "claim_rank (cc_MaxRetries (con_config c)) cl" arbitrary: cl s rule: less_induct)
  case less
  show ?case
  proof (cases "claim_step unmarshal c cl s")
    case None
    then have "cl = claim_of []" by (simp add: claim_step_None_iff)
    then show ?thesis by (simp add: ends_with_def claim_result_def claim_of_def)
  next
    case (Some r)
    obtain cl' s' panic where step: "claim_step unmarshal c cl s = Some (cl', s', panic)" using Some by (cases r) auto
    note res = claim_step_result [OF step]
    show ?thesis
    proof (cases panic)
      case None
      with step have "claim_moves unmarshal c (cl, s) (cl', s')" by (simp add: claim_moves_def)
      from ends_with_step [OF this less.hyps [OF claim_step_rank [OF step]]] res None show ?thesis by simp
    next
      case (Some r)
      with step res show ?thesis by (auto simp: ends_with_def)
    qed
  qed
qed

subsection \<open>Marks\<close>

fun in_flight :: "('uid, 'w) claim_pc \<Rightarrow> consumer_message list" where
  "in_flight PIdle = []"
| "in_flight (PTry msg h attempt lastErr env) = [msg]"
| "in_flight (PFail msg err env) = [msg]"
| "in_flight (PMark msg) = [msg]"

lemma receive_marks:
  "receive unmarshal c msg s = (pc, s') \<Longrightarrow> in_flight pc = [msg] \<and> act_marks (ses_trace s') = act_marks (ses_trace s)"
  by (auto simp: receive_def split: sum.splits option.splits)

lemma try_once_marks:
  "try_once c msg h a le env s = (pc, s') \<Longrightarrow> in_flight pc = [msg] \<and> act_marks (ses_trace s') = act_marks (ses_trace s)"
  by (auto simp: try_once_def invokeHandler_def split: prod.splits option.splits if_splits)

lemma dead_letter_marks: "dead_letter c err env s = (s', panic) \<Longrightarrow> act_marks (ses_trace s') = act_marks (ses_trace s)"
  by (auto simp: dead_letter_def split: prod.splits option.splits)

text \<open>A step takes messages of its own claim only, in order, and marks at most the one in flight.\<close>

lemma claim_step_marks:
  assumes "claim_step unmarshal c cl s = Some (cl', s', panic)"
  shows "\<exists>new. act_marks (ses_trace s') = act_marks (ses_trace s) @ new \<and>
    new @ in_flight (cl_pc cl') @ cl_msgs cl' = in_flight (cl_pc cl) @ cl_msgs cl"
proof (cases "cl_pc cl")
  case PIdle
  with assms show ?thesis
    by (auto simp: claim_step_def dest!: receive_marks split: list.splits prod.splits)
next
  case (PTry msg h a lastErr env)
  with assms show ?thesis by (auto simp: claim_step_def dest!: try_once_marks split: prod.splits)
next
  case (PFail msg err env)
  with assms show ?thesis by (auto simp: claim_step_def dest!: dead_letter_marks split: prod.splits)
next
  case (PMark msg)
  with assms show ?thesis by (auto simp: claim_step_def)
qed

text \<open>
  The marks of a session so far: of every batch a prefix, then the message in flight, then what is
  still to be delivered, then what the client has dropped.
\<close>

definition separate :: "consumer_message list list \<Rightarrow> bool" where
  "separate batches \<longleftrightarrow> (\<forall>i < length batches. \<forall>j < length batches. i \<noteq> j \<longrightarrow> set (batches ! i) \<inter> set (batches ! j) = {})"

definition claim_place :: "consumer_message list \<Rightarrow> consumer_message list \<Rightarrow> ('uid, 'w) claim \<Rightarrow> bool" where
  "claim_place batch marked cl \<longleftrightarrow> (\<exists>dropped. batch = filter (\<lambda>m. m \<in> set batch) marked @ in_flight (cl_pc cl) @ cl_msgs cl @ dropped)"

definition session_place :: "consumer_message list list \<Rightarrow> ('uid, 'w) session \<Rightarrow> ('uid, 'w) group_session \<Rightarrow> bool" where
  "session_place batches s g \<longleftrightarrow> length (gs_claims g) = length batches \<and>
     (\<exists>marked. act_marks (ses_trace (gs_session g)) = act_marks (ses_trace s) @ marked \<and>
        set marked \<subseteq> \<Union> (set ` set batches) \<and>
        (\<forall>i < length batches. claim_place (batches ! i) marked (gs_claims g ! i)))"

lemma claim_place_step:
  assumes "claim_step unmarshal c cl s = Some (cl', s', panic)" "claim_place batch marked cl"
  shows "\<exists>new. act_marks (ses_trace s') = act_marks (ses_trace s) @ new \<and> set new \<subseteq> set batch \<and>
    claim_place batch (marked @ new) cl'"
proof -
  from claim_step_marks [OF assms(1)] obtain new where
    new: "act_marks (ses_trace s') = act_marks (ses_trace s) @ new"
    "new @ in_flight (cl_pc cl') @ cl_msgs cl' = in_flight (cl_pc cl) @ cl_msgs cl" by blast
  from assms(2) obtain dropped where
    "batch = filter (\<lambda>m. m \<in> set batch) marked @ in_flight (cl_pc cl) @ cl_msgs cl @ dropped" by (auto simp: claim_place_def)
  with new(2) have b: "batch = filter (\<lambda>m. m \<in> set batch) marked @ new @ in_flight (cl_pc cl') @ cl_msgs cl' @ dropped"
    by (metis append.assoc)
  have sub: "set new \<subseteq> set batch" by (subst b) auto
  then have "filter (\<lambda>m. m \<in> set batch) new = new" by (auto intro: filter_True)
  with b have "claim_place batch (marked @ new) cl'" unfolding claim_place_def by (intro exI [of _ dropped]) simp
  with new(1) sub show ?thesis by blast
qed

lemma claim_place_other: "claim_place batch marked cl \<Longrightarrow> set new \<inter> set batch = {} \<Longrightarrow> claim_place batch (marked @ new) cl"
proof -
  assume "set new \<inter> set batch = {}"
  then have "filter (\<lambda>m. m \<in> set batch) new = []" by (auto simp: filter_empty_conv)
  then show "claim_place batch marked cl \<Longrightarrow> claim_place batch (marked @ new) cl" by (simp add: claim_place_def)
qed

lemma claim_place_closed: "claim_place batch marked cl \<Longrightarrow> claim_place batch marked (cl\<lparr>cl_msgs := []\<rparr>)"
  by (auto simp: claim_place_def)

lemma session_place_step:
  assumes "session_step unmarshal c g g'" "session_place batches s g" "separate batches"
  shows "session_place batches s g'"
  using assms(1)
proof cases
  case (claim_runs i cl s1 panic)
  from assms(2) obtain marked where m: "length (gs_claims g) = length batches"
    "act_marks (ses_trace (gs_session g)) = act_marks (ses_trace s) @ marked" "set marked \<subseteq> \<Union> (set ` set batches)"
    "\<And>j. j < length batches \<Longrightarrow> claim_place (batches ! j) marked (gs_claims g ! j)" by (auto simp: session_place_def)
  have i: "i < length batches" using claim_runs(3) m(1) by simp
  from claim_place_step [OF claim_runs(4) m(4) [OF i]] obtain new where
    new: "act_marks (ses_trace s1) = act_marks (ses_trace (gs_session g)) @ new" "set new \<subseteq> set (batches ! i)"
    "claim_place (batches ! i) (marked @ new) cl" by blast
  have "claim_place (batches ! j) (marked @ new) ((gs_claims g)[i := cl] ! j)" if j: "j < length batches" for j
  proof (cases "j = i")
    case False
    with assms(3) i j new(2) have "set new \<inter> set (batches ! j) = {}" unfolding separate_def by blast
    with False m(4) [OF j] claim_place_other show ?thesis by simp
  qed (use new(3) i m(1) in simp)
  moreover have "set (marked @ new) \<subseteq> \<Union> (set ` set batches)" using m(3) new(2) i by fastforce
  ultimately show ?thesis
    using claim_runs(1) m(1,2) new(1) unfolding session_place_def
    by (intro conjI exI [of _ "marked @ new"]) (auto simp: set_claim_def)
next
  case (channel_closed i)
  with assms(2) show ?thesis
    by (auto simp: session_place_def set_claim_def nth_list_update intro!: claim_place_closed)
qed

lemma session_place_initial: "session_initial batches s g \<Longrightarrow> session_place batches s g"
  by (auto simp: session_initial_def session_place_def claim_place_def claim_of_def)

interpretation session_marks: step_invariant "session_initial batches s" "session_step unmarshal c"
  "\<lambda>g. separate batches \<longrightarrow> session_place batches s g" for batches s unmarshal c
  by unfold_locales (auto dest: session_place_initial session_place_step)

subsection \<open>The end of a session\<close>

definition session_finished :: "('uid, 'w) group_session \<Rightarrow> bool" where
  "session_finished g \<longleftrightarrow> gs_crash g \<noteq> None \<or> (\<forall>cl \<in> set (gs_claims g). cl = claim_of [])"

definition session_rank :: "('uid, 'w, 'client) consumer \<Rightarrow> ('uid, 'w) group_session \<Rightarrow> nat" where
  "session_rank c g = sum_list (map (claim_rank (cc_MaxRetries (con_config c))) (gs_claims g))"

lemma session_rank_step: "session_step unmarshal c g g' \<Longrightarrow> session_rank c g' < session_rank c g"
proof (induction rule: session_step.induct)
  case (claim_runs g i cl s panic)
  from sum_update_less [OF claim_runs(2) claim_step_rank [OF claim_runs(3)]] show ?case
    by (simp add: session_rank_def set_claim_def)
next
  case (channel_closed g i)
  let ?n = "cc_MaxRetries (con_config c)"
  from channel_closed have "claim_rank ?n ((gs_claims g ! i)\<lparr>cl_msgs := []\<rparr>) < claim_rank ?n (gs_claims g ! i)"
    by (simp add: claim_rank_def)
  from sum_update_less [OF channel_closed(2) this] show ?case by (simp add: session_rank_def set_claim_def)
qed

lemma session_progress: "\<not> session_finished g \<Longrightarrow> \<exists>g'. session_step unmarshal c g g'"
proof -
  assume "\<not> session_finished g"
  then obtain i where i: "gs_crash g = None" "i < length (gs_claims g)" "gs_claims g ! i \<noteq> claim_of []"
    by (auto simp: session_finished_def in_set_conv_nth)
  then obtain r where "claim_step unmarshal c (gs_claims g ! i) (gs_session g) = Some r"
    using claim_step_None_iff by (metis not_None_eq)
  with i session_step.claim_runs show ?thesis by (cases r) blast
qed

interpretation session_end: shutdown "session_initial batches s" "session_step unmarshal c"
  "\<lambda>g. separate batches \<longrightarrow> session_place batches s g" "\<lambda>g. True" session_finished "session_rank c"
  for batches s unmarshal c
  by unfold_locales (auto dest: session_rank_step session_progress)

subsection \<open>Properties\<close>

text \<open>
  C7: The steps implement the code: a claim alone runs to its end with a result exactly if
  \<open>ConsumeClaim\<close> returns with it, and it comes to a panic with it exactly if
  \<open>ConsumeClaim\<close> panics with it.
\<close>

theorem ConsumeClaim_iff_claim_run:
  "(ConsumeClaim unmarshal c msgs s = (s', None) \<longleftrightarrow>
      (claim_moves unmarshal c)\<^sup>*\<^sup>* (claim_of msgs, s) (claim_of [], s')) \<and>
   (ConsumeClaim unmarshal c msgs s = (s', Some r) \<longleftrightarrow>
      (\<exists>cl s1 cl'. (claim_moves unmarshal c)\<^sup>*\<^sup>* (claim_of msgs, s) (cl, s1) \<and>
         claim_step unmarshal c cl s1 = Some (cl', s', Some r)))"
proof -
  have start: "claim_result unmarshal c (claim_of ms) s = ConsumeClaim unmarshal c ms s" for ms s
    by (simp add: claim_result_def claim_of_def)
  have run: "ends_with unmarshal c (claim_of msgs, s) (ConsumeClaim unmarshal c msgs s)"
    using claim_runs_to_result [of unmarshal c "claim_of msgs" s] by (simp add: start)
  show ?thesis
  proof (intro conjI iffI)
    assume "ConsumeClaim unmarshal c msgs s = (s', None)"
    with run show "(claim_moves unmarshal c)\<^sup>*\<^sup>* (claim_of msgs, s) (claim_of [], s')" by (simp add: ends_with_def)
  next
    assume "(claim_moves unmarshal c)\<^sup>*\<^sup>* (claim_of msgs, s) (claim_of [], s')"
    from claim_moves_result [OF this] show "ConsumeClaim unmarshal c msgs s = (s', None)" by (simp add: start)
  next
    assume "ConsumeClaim unmarshal c msgs s = (s', Some r)"
    with run show "\<exists>cl s1 cl'. (claim_moves unmarshal c)\<^sup>*\<^sup>* (claim_of msgs, s) (cl, s1) \<and>
         claim_step unmarshal c cl s1 = Some (cl', s', Some r)" by (simp add: ends_with_def)
  next
    assume "\<exists>cl s1 cl'. (claim_moves unmarshal c)\<^sup>*\<^sup>* (claim_of msgs, s) (cl, s1) \<and>
         claim_step unmarshal c cl s1 = Some (cl', s', Some r)"
    then obtain cl s1 cl' where run': "(claim_moves unmarshal c)\<^sup>*\<^sup>* (claim_of msgs, s) (cl, s1)"
      "claim_step unmarshal c cl s1 = Some (cl', s', Some r)" by blast
    from claim_moves_result [OF run'(1)] claim_step_result [OF run'(2)]
    show "ConsumeClaim unmarshal c msgs s = (s', Some r)" by (simp add: start)
  qed
qed

text \<open>
  C2: However the claims of a session interleave, whatever the handlers do to the world they
  share and whenever channels close or the process dies: the marks of each claim are a prefix of
  its messages, in order and without gaps, so that a mark never passes over a message of the same
  partition that was not processed, and only messages of the session are marked.
\<close>

theorem session_marks_in_order:
  assumes "reach (session_initial batches s) (session_step unmarshal c) g" "separate batches"
  shows "\<exists>marked. act_marks (ses_trace (gs_session g)) = act_marks (ses_trace s) @ marked \<and>
    set marked \<subseteq> \<Union> (set ` set batches) \<and>
    (\<forall>i < length batches. \<exists>k. filter (\<lambda>m. m \<in> set (batches ! i)) marked = take k (batches ! i))"
proof -
  from session_marks.reach_inv [OF assms(1)] assms(2) obtain marked where
    m: "act_marks (ses_trace (gs_session g)) = act_marks (ses_trace s) @ marked" "set marked \<subseteq> \<Union> (set ` set batches)"
    "\<And>i. i < length batches \<Longrightarrow> claim_place (batches ! i) marked (gs_claims g ! i)"
    by (auto simp: session_place_def)
  have "\<exists>k. filter (\<lambda>m. m \<in> set (batches ! i)) marked = take k (batches ! i)" if "i < length batches" for i
    using m(3) [OF that] unfolding claim_place_def by (metis append_eq_conv_conj)
  with m(1,2) show ?thesis by blast
qed

text \<open>
  C8: A session always ends: with finitely many messages delivered no run is infinite, every run
  can be continued until each claim is drained or the process has died, and one that cannot be
  continued has got there. The bound is the sum over the claims of the retries and stages left.
\<close>

theorem session_ends:
  assumes "reach (session_initial batches s) (session_step unmarshal c) g"
  shows "(\<exists>t. (session_step unmarshal c)\<^sup>*\<^sup>* g t \<and> session_finished t) \<and>
    (\<forall>t. (session_step unmarshal c)\<^sup>*\<^sup>* g t \<and> \<not> (\<exists>u. session_step unmarshal c t u) \<longrightarrow> session_finished t) \<and>
    \<not> (\<exists>f. f (0::nat) = g \<and> (\<forall>n. session_step unmarshal c (f n) (f (Suc n))))"
  by (rule session_end.orderly_end [OF assms TrueI])

text \<open>A session of two claims, over the sample consumer.\<close>

definition sample_batches :: "consumer_message list list" where
  "sample_batches = [[sample_message], [sample_message\<lparr>msg_Partition := 1\<rparr>]]"

definition sample_group :: "(nat, nat) group_session" where
  "sample_group = \<lparr>gs_claims = map claim_of sample_batches, gs_session = sample_session, gs_crash = None\<rparr>"

lemma sample_group_reach: "reach (session_initial sample_batches sample_session) (session_step u c) sample_group"
  by (rule reach_init) (simp add: session_initial_def sample_group_def)

theorem session_ends_witness:
  "\<exists>t. (session_step (\<lambda>b. Inr sample_envelope) (sample_consumer 2 None))\<^sup>*\<^sup>* sample_group t \<and> session_finished t"
  using session_ends [OF sample_group_reach] by blast

text \<open>The second claim marks its message while the first has not begun.\<close>

theorem session_marks_in_order_witness:
  "\<exists>g marked. reach (session_initial sample_batches sample_session) (session_step (\<lambda>b. Inl sample_error) (sample_consumer 2 None)) g \<and>
     act_marks (ses_trace (gs_session g)) = [sample_message\<lparr>msg_Partition := 1\<rparr>] \<and>
     marked = act_marks (ses_trace (gs_session g)) \<and>
     (\<forall>i < length sample_batches. \<exists>k. filter (\<lambda>m. m \<in> set (sample_batches ! i)) marked = take k (sample_batches ! i))"
proof -
  let ?u = "\<lambda>b. Inl sample_error :: go_error + nat envelope" and ?c = "sample_consumer 2 None"
    and ?m = "sample_message\<lparr>msg_Partition := 1\<rparr>"
  let ?s1 = "log LError ''failed to unmarshal envelope'' sample_session"
  let ?g1 = "(set_claim 1 \<lparr>cl_pc = PMark ?m, cl_msgs = []\<rparr> sample_group)\<lparr>gs_session := ?s1, gs_crash := None\<rparr>"
  let ?g2 = "(set_claim 1 (claim_of []) ?g1)\<lparr>gs_session := MarkMessage ?m ?s1, gs_crash := None\<rparr>"
  have "session_step ?u ?c sample_group ?g1"
    by (rule session_step.claim_runs)
      (simp_all add: sample_group_def sample_batches_def claim_of_def claim_step_def receive_def)
  with sample_group_reach have g1: "reach (session_initial sample_batches sample_session) (session_step ?u ?c) ?g1"
    by (rule reach_step)
  have "session_step ?u ?c ?g1 ?g2"
    by (rule session_step.claim_runs)
      (simp_all add: sample_group_def sample_batches_def claim_of_def claim_step_def set_claim_def)
  with g1 have g2: "reach (session_initial sample_batches sample_session) (session_step ?u ?c) ?g2"
    by (rule reach_step)
  have "separate sample_batches"
    by (auto simp: separate_def sample_batches_def sample_message_def less_Suc_eq)
  from session_marks_in_order [OF g2 this] obtain marked where
    m: "act_marks (ses_trace (gs_session ?g2)) = act_marks (ses_trace sample_session) @ marked"
    "\<forall>i < length sample_batches. \<exists>k. filter (\<lambda>m. m \<in> set (sample_batches ! i)) marked = take k (sample_batches ! i)" by blast
  moreover have "act_marks (ses_trace (gs_session ?g2)) = [?m]" by simp
  ultimately show ?thesis using g2
    by (intro exI [of _ ?g2] exI [of _ marked]) simp
qed

end
