(* ===== verification/GoSync.thy ===== *)
theory GoSync
  imports Prelude
begin

section \<open>Wait groups (sync.WaitGroup of the standard library)\<close>

text \<open>
  A wait group is a counter and a number of parked waiters in one atomic word. \<open>Wait\<close> returns
  at once when the counter is zero, else it parks. The \<open>Done\<close> that brings the counter to zero
  with waiters parked then, in a second step, resets the word and releases them. A waiter that
  was released looks at the word again when it runs: it panics if the group is in use again. An
  \<open>Add\<close> from zero panics while waiters are parked. (A counter below zero, the third panic, cannot
  arise where every \<open>Done\<close> follows an \<open>Add\<close>.)
\<close>

record wait_group =
  wg_count :: nat
  wg_waiters :: nat

definition wg_zero :: wait_group where
  "wg_zero = \<lparr>wg_count = 0, wg_waiters = 0\<rparr>"

text \<open>The second half of a \<open>Done\<close> is due.\<close>

definition wg_must_release :: "wait_group \<Rightarrow> bool" where
  "wg_must_release w \<longleftrightarrow> wg_count w = 0 \<and> wg_waiters w \<noteq> 0"

text \<open>\<open>None\<close> is the panic.\<close>

definition wg_Add :: "wait_group \<Rightarrow> wait_group option" where
  "wg_Add w = (if wg_must_release w then None else Some (w\<lparr>wg_count := Suc (wg_count w)\<rparr>))"

definition wg_Done :: "wait_group \<Rightarrow> wait_group" where
  "wg_Done w = w\<lparr>wg_count := wg_count w - 1\<rparr>"

definition wg_release :: "wait_group \<Rightarrow> wait_group" where
  "wg_release w = w\<lparr>wg_waiters := 0\<rparr>"

definition wg_park :: "wait_group \<Rightarrow> wait_group" where
  "wg_park w = w\<lparr>wg_waiters := Suc (wg_waiters w)\<rparr>"

lemma wg_simps [simp]:
  "wg_count (wg_Done w) = wg_count w - 1" "wg_waiters (wg_Done w) = wg_waiters w"
  "wg_count (wg_release w) = wg_count w" "wg_waiters (wg_release w) = 0"
  "wg_count (wg_park w) = wg_count w" "wg_waiters (wg_park w) = Suc (wg_waiters w)"
  "wg_count wg_zero = 0" "wg_waiters wg_zero = 0"
  by (simp_all add: wg_Done_def wg_release_def wg_park_def wg_zero_def)

lemma wg_Add_Some: "wg_Add w = Some w' \<Longrightarrow> \<not> wg_must_release w \<and> wg_count w' = Suc (wg_count w) \<and> wg_waiters w' = wg_waiters w"
  by (auto simp: wg_Add_def split: if_splits)

lemma wg_Add_None_iff: "wg_Add w = None \<longleftrightarrow> wg_must_release w"
  by (simp add: wg_Add_def)

lemma wg_eq_zero_iff: "w = wg_zero \<longleftrightarrow> wg_count w = 0 \<and> wg_waiters w = 0"
  by (cases w) (simp add: wg_zero_def)

end
