(* ===== verification/ConsumerLifecycle.thy ===== *)
theory ConsumerLifecycle
  imports ConsumerConfig GoSync
begin

section \<open>Starting and closing a consumer (consumer/consumer.go)\<close>

text \<open>
  \<open>Start\<close> and \<open>Close\<close> run in goroutines of the caller, any number of each, over the
  consumer's \<open>closed\<close> flag, its wait group and its client. Every goroutine has a program
  counter; a step is one goroutine moving past one lock section, wait group operation, context
  check or call of the client. What the client's \<open>Consume\<close> and \<open>Close\<close> return is any
  error or nil, and each \<open>Start\<close> has a context that may be cancelled at any time. The client
  may be consumed from after it was closed: it then returns an error. A panic of the wait group
  ends the process: \<open>lc_crash\<close>.
\<close>

datatype start_pc = SInit | SChecked | SLoop | SConsuming | SReleasing go_error | SReturned go_error

datatype close_pc = CInit | CWaiting | CParked | CReleased | CClosing | CReturned "go_error option"

record consumer_life =
  lc_closed :: bool
  lc_wg :: wait_group
  lc_client_closes :: nat
  lc_starts :: "(start_pc \<times> go_error option) list"
  lc_closes :: "close_pc list"
  lc_crash :: bool

text \<open>A \<open>Start\<close> carries the cause of its context's cancellation, \<open>None\<close> while it is live.\<close>

subsection \<open>The decisions of the code\<close>

text \<open>The first check of \<open>Start\<close>, under the read lock.\<close>

definition Start_check :: "bool \<Rightarrow> start_pc" where
  "Start_check closed = (if closed then SReturned consumer_ErrConsumerClosed else SChecked)"

text \<open>The \<open>select\<close> at the top of the loop, and the branch after \<open>Consume\<close>.\<close>

definition Start_select :: "go_error option \<Rightarrow> start_pc" where
  "Start_select ctx = (case ctx of Some cause \<Rightarrow> SReturned cause | None \<Rightarrow> SConsuming)"

definition Start_after_consume :: "go_error option \<Rightarrow> go_error option \<Rightarrow> start_pc" where
  "Start_after_consume ctx err = (case err of
     None \<Rightarrow> SLoop
   | Some e \<Rightarrow> (case ctx of Some cause \<Rightarrow> SReturned cause | None \<Rightarrow> SLoop))"

text \<open>The guarded prologue of \<open>Close\<close>, under the lock, and its result.\<close>

definition Close_check :: "bool \<Rightarrow> close_pc" where
  "Close_check closed = (if closed then CReturned None else CWaiting)"

definition Close_result :: "go_error option \<Rightarrow> close_pc" where
  "Close_result err = CReturned (map_option (errorf_ctx ''failed to close consumer'') err)"

fun returned :: "start_pc \<Rightarrow> bool" where
  "returned (SReturned e) = True"
| "returned _ = False"

text \<open>A goroutine moves to a new counter.\<close>

definition set_start :: "nat \<Rightarrow> start_pc \<Rightarrow> consumer_life \<Rightarrow> consumer_life" where
  "set_start i pc s = s\<lparr>lc_starts := (lc_starts s)[i := (pc, snd (lc_starts s ! i))]\<rparr>"

definition set_close :: "nat \<Rightarrow> close_pc \<Rightarrow> consumer_life \<Rightarrow> consumer_life" where
  "set_close j pc s = s\<lparr>lc_closes := (lc_closes s)[j := pc]\<rparr>"

definition set_wg :: "wait_group \<Rightarrow> consumer_life \<Rightarrow> consumer_life" where
  "set_wg w s = s\<lparr>lc_wg := w\<rparr>"

text \<open>\<open>wg.Add\<close> after the check, not under the lock any more.\<close>

definition Start_add :: "nat \<Rightarrow> consumer_life \<Rightarrow> consumer_life" where
  "Start_add i s = (case wg_Add (lc_wg s) of
     None \<Rightarrow> s\<lparr>lc_crash := True\<rparr>
   | Some w \<Rightarrow> set_wg w (set_start i SLoop s))"

text \<open>The deferred \<open>wg.Done\<close> of a \<open>Start\<close> that leaves its loop, and the second half of that.\<close>

definition leave_loop :: "nat \<Rightarrow> go_error \<Rightarrow> consumer_life \<Rightarrow> consumer_life" where
  "leave_loop i e s = (let w = wg_Done (lc_wg s) in
     set_wg w (set_start i (if wg_must_release w then SReleasing e else SReturned e) s))"

definition loop_to :: "nat \<Rightarrow> start_pc \<Rightarrow> consumer_life \<Rightarrow> consumer_life" where
  "loop_to i pc s = (case pc of SReturned e \<Rightarrow> leave_loop i e s | _ \<Rightarrow> set_start i pc s)"

definition release_parked :: "close_pc \<Rightarrow> close_pc" where
  "release_parked c = (if c = CParked then CReleased else c)"

definition Start_release :: "nat \<Rightarrow> go_error \<Rightarrow> consumer_life \<Rightarrow> consumer_life" where
  "Start_release i e s = (set_wg (wg_release (lc_wg s)) (set_start i (SReturned e) s))
     \<lparr>lc_closes := map release_parked (lc_closes s)\<rparr>"

text \<open>\<open>wg.Wait\<close>, and its second look at the group after it was parked and released.\<close>

definition Close_wait :: "nat \<Rightarrow> consumer_life \<Rightarrow> consumer_life" where
  "Close_wait j s = (if wg_count (lc_wg s) = 0 then set_close j CClosing s
     else set_wg (wg_park (lc_wg s)) (set_close j CParked s))"

definition Close_wake :: "nat \<Rightarrow> consumer_life \<Rightarrow> consumer_life" where
  "Close_wake j s = (if lc_wg s = wg_zero then set_close j CClosing s else s\<lparr>lc_crash := True\<rparr>)"

definition consumer_initial :: "consumer_life \<Rightarrow> bool" where
  "consumer_initial s \<longleftrightarrow> \<not> lc_closed s \<and> lc_wg s = wg_zero \<and> lc_client_closes s = 0 \<and> \<not> lc_crash s \<and>
     (\<forall>p \<in> set (lc_starts s). fst p = SInit) \<and> (\<forall>c \<in> set (lc_closes s). c = CInit)"

inductive consumer_step :: "consumer_life \<Rightarrow> consumer_life \<Rightarrow> bool" where
  start_check: "\<not> lc_crash s \<Longrightarrow> i < length (lc_starts s) \<Longrightarrow> fst (lc_starts s ! i) = SInit \<Longrightarrow>
     consumer_step s (set_start i (Start_check (lc_closed s)) s)"
| start_add: "\<not> lc_crash s \<Longrightarrow> i < length (lc_starts s) \<Longrightarrow> fst (lc_starts s ! i) = SChecked \<Longrightarrow>
     consumer_step s (Start_add i s)"
| start_select: "\<not> lc_crash s \<Longrightarrow> i < length (lc_starts s) \<Longrightarrow> lc_starts s ! i = (SLoop, ctx) \<Longrightarrow>
     consumer_step s (loop_to i (Start_select ctx) s)"
| start_consumed: "\<not> lc_crash s \<Longrightarrow> i < length (lc_starts s) \<Longrightarrow> lc_starts s ! i = (SConsuming, ctx) \<Longrightarrow>
     consumer_step s (loop_to i (Start_after_consume ctx err) s)"
| start_release: "\<not> lc_crash s \<Longrightarrow> i < length (lc_starts s) \<Longrightarrow> fst (lc_starts s ! i) = SReleasing e \<Longrightarrow>
     consumer_step s (Start_release i e s)"
| cancel: "\<not> lc_crash s \<Longrightarrow> i < length (lc_starts s) \<Longrightarrow> lc_starts s ! i = (pc, None) \<Longrightarrow>
     consumer_step s (s\<lparr>lc_starts := (lc_starts s)[i := (pc, Some cause)]\<rparr>)"
| close_check: "\<not> lc_crash s \<Longrightarrow> j < length (lc_closes s) \<Longrightarrow> lc_closes s ! j = CInit \<Longrightarrow>
     consumer_step s ((set_close j (Close_check (lc_closed s)) s)\<lparr>lc_closed := True\<rparr>)"
| close_wait: "\<not> lc_crash s \<Longrightarrow> j < length (lc_closes s) \<Longrightarrow> lc_closes s ! j = CWaiting \<Longrightarrow>
     consumer_step s (Close_wait j s)"
| close_wake: "\<not> lc_crash s \<Longrightarrow> j < length (lc_closes s) \<Longrightarrow> lc_closes s ! j = CReleased \<Longrightarrow>
     consumer_step s (Close_wake j s)"
| close_client: "\<not> lc_crash s \<Longrightarrow> j < length (lc_closes s) \<Longrightarrow> lc_closes s ! j = CClosing \<Longrightarrow>
     consumer_step s ((set_close j (Close_result err) s)\<lparr>lc_client_closes := Suc (lc_client_closes s)\<rparr>)"

subsection \<open>The invariant\<close>

definition in_loop :: "start_pc \<times> go_error option \<Rightarrow> bool" where
  "in_loop p \<longleftrightarrow> fst p = SLoop \<or> fst p = SConsuming"

fun releasing :: "start_pc \<Rightarrow> bool" where
  "releasing (SReleasing e) = True"
| "releasing _ = False"

definition closing :: "close_pc \<Rightarrow> bool" where
  "closing c \<longleftrightarrow> c \<in> {CWaiting, CParked, CReleased, CClosing}"

definition loops :: "(start_pc \<times> go_error option) list \<Rightarrow> nat" where
  "loops ps = length (filter in_loop ps)"

definition releasers :: "(start_pc \<times> go_error option) list \<Rightarrow> nat" where
  "releasers ps = length (filter (\<lambda>p. releasing (fst p)) ps)"

definition parked :: "close_pc list \<Rightarrow> nat" where
  "parked cs = length (filter ((=) CParked) cs)"

definition closers :: "close_pc list \<Rightarrow> nat" where
  "closers cs = length (filter closing cs)"

text \<open>
  The counter is the number of \<open>Start\<close> calls in their loops, the waiters are the parked
  \<open>Close\<close> calls, one \<open>Start\<close> is releasing exactly when that is due, and of the \<open>Close\<close> calls
  only the first gets past its check.
\<close>

definition consumer_inv :: "consumer_life \<Rightarrow> bool" where
  "consumer_inv s \<longleftrightarrow> wg_count (lc_wg s) = loops (lc_starts s) \<and> wg_waiters (lc_wg s) = parked (lc_closes s) \<and>
     releasers (lc_starts s) = (if wg_must_release (lc_wg s) then 1 else 0) \<and>
     closers (lc_closes s) + lc_client_closes s = (if lc_closed s then 1 else 0)"

lemmas life_defs = set_start_def set_close_def set_wg_def

lemma in_loop_simps [simp]:
  "in_loop (SLoop, c)" "in_loop (SConsuming, c)" "\<not> in_loop (SInit, c)" "\<not> in_loop (SChecked, c)"
  "\<not> in_loop (SReleasing e, c)" "\<not> in_loop (SReturned e, c)"
  by (simp_all add: in_loop_def)

lemma closing_simps [simp]:
  "closing CWaiting" "closing CParked" "closing CReleased" "closing CClosing" "\<not> closing CInit" "\<not> closing (CReturned e)"
  by (simp_all add: closing_def)

lemma closing_release [simp]: "closing (release_parked c) = closing c"
  by (auto simp: release_parked_def)

lemma Start_check_not [simp]: "\<not> in_loop (Start_check b, c)" "\<not> releasing (Start_check b)"
  by (simp_all add: Start_check_def)

lemma set_fields [simp]:
  "lc_closes (set_start i pc s) = lc_closes s" "lc_starts (set_close j pc' s) = lc_starts s"
  "lc_wg (set_start i pc s) = lc_wg s" "lc_wg (set_close j pc' s) = lc_wg s"
  "lc_closed (set_start i pc s) = lc_closed s" "lc_closed (set_close j pc' s) = lc_closed s"
  "lc_client_closes (set_start i pc s) = lc_client_closes s" "lc_client_closes (set_close j pc' s) = lc_client_closes s"
  "lc_crash (set_start i pc s) = lc_crash s" "lc_crash (set_close j pc' s) = lc_crash s"
  "lc_starts (set_start i pc s) = (lc_starts s)[i := (pc, snd (lc_starts s ! i))]"
  "lc_closes (set_close j pc' s) = (lc_closes s)[j := pc']"
  "lc_wg (set_wg w s) = w" "lc_starts (set_wg w s) = lc_starts s" "lc_closes (set_wg w s) = lc_closes s"
  "lc_closed (set_wg w s) = lc_closed s" "lc_client_closes (set_wg w s) = lc_client_closes s" "lc_crash (set_wg w s) = lc_crash s"
  by (simp_all add: life_defs)

lemma Start_select_cases:
  "Start_select ctx = SConsuming \<and> ctx = None \<or> (\<exists>cause. Start_select ctx = SReturned cause \<and> ctx = Some cause)"
  by (cases ctx) (auto simp: Start_select_def)

lemma Start_after_consume_cases:
  "Start_after_consume ctx err = SLoop \<or>
   (\<exists>cause. Start_after_consume ctx err = SReturned cause \<and> ctx = Some cause)"
  by (cases ctx; cases err) (auto simp: Start_after_consume_def)

lemma loop_to_simps [simp]:
  "loop_to i SLoop s = set_start i SLoop s" "loop_to i SConsuming s = set_start i SConsuming s"
  "loop_to i (SReturned e) s = leave_loop i e s"
  by (simp_all add: loop_to_def)

text \<open>The counts after a \<open>Start\<close> moved.\<close>

lemma start_counts:
  assumes "i < length (lc_starts s)" "lc_starts s ! i = (pc, ctx)"
  shows "loops ((lc_starts s)[i := (pc', ctx')]) + (if in_loop (pc, ctx) then 1 else 0) =
      loops (lc_starts s) + (if in_loop (pc', ctx') then 1 else 0)"
    "releasers ((lc_starts s)[i := (pc', ctx')]) + (if releasing pc then 1 else 0) =
      releasers (lc_starts s) + (if releasing pc' then 1 else 0)"
  using count_update [of i "lc_starts s" in_loop "(pc', ctx')"]
    count_update [of i "lc_starts s" "\<lambda>p. releasing (fst p)" "(pc', ctx')"] assms
  by (simp_all add: loops_def releasers_def)

lemma close_counts:
  assumes "j < length (lc_closes s)"
  shows "closers ((lc_closes s)[j := c]) + (if closing (lc_closes s ! j) then 1 else 0) =
      closers (lc_closes s) + (if closing c then 1 else 0)"
    "parked ((lc_closes s)[j := c]) + (if lc_closes s ! j = CParked then 1 else 0) =
      parked (lc_closes s) + (if c = CParked then 1 else 0)"
  using count_update [of j "lc_closes s" closing c] count_update [of j "lc_closes s" "(=) CParked" c] assms
  by (simp_all add: closers_def parked_def eq_commute [of CParked])

lemma counts_pos:
  "i < length (lc_starts s) \<Longrightarrow> in_loop (lc_starts s ! i) \<Longrightarrow> 0 < loops (lc_starts s)"
  "i < length (lc_starts s) \<Longrightarrow> releasing (fst (lc_starts s ! i)) \<Longrightarrow> 0 < releasers (lc_starts s)"
  "j < length (lc_closes s) \<Longrightarrow> lc_closes s ! j = CParked \<Longrightarrow> 0 < parked (lc_closes s)"
  "j < length (lc_closes s) \<Longrightarrow> closing (lc_closes s ! j) \<Longrightarrow> 0 < closers (lc_closes s)"
  using count_pos [of i "lc_starts s" in_loop] count_pos [of i "lc_starts s" "\<lambda>p. releasing (fst p)"]
    count_pos [of j "lc_closes s" "(=) CParked"] count_pos [of j "lc_closes s" closing]
  by (simp_all add: loops_def releasers_def parked_def closers_def)

text \<open>A move inside or outside the loop changes no count.\<close>

lemma set_start_inv:
  assumes "consumer_inv s" "i < length (lc_starts s)" "lc_starts s ! i = (pc, ctx)"
    and "in_loop (pc', ctx) = in_loop (pc, ctx)" "releasing pc' = releasing pc"
  shows "consumer_inv (set_start i pc' s)"
  using assms start_counts [OF assms(2,3), of pc' ctx] by (simp add: consumer_inv_def split: if_splits)

lemma release_counts: "parked (map release_parked cs) = 0" "closers (map release_parked cs) = closers cs"
proof -
  show "parked (map release_parked cs) = 0"
    by (auto simp: parked_def filter_empty_conv release_parked_def)
  show "closers (map release_parked cs) = closers cs" by (simp add: closers_def filter_map comp_def)
qed

lemma crash_inv [simp]: "consumer_inv (s\<lparr>lc_crash := True\<rparr>) = consumer_inv s"
  by (simp add: consumer_inv_def)

lemma leave_loop_inv:
  assumes "consumer_inv s" "i < length (lc_starts s)" "lc_starts s ! i = (pc, ctx)" "pc = SLoop \<or> pc = SConsuming"
  shows "consumer_inv (leave_loop i e s)"
proof -
  have pc: "in_loop (pc, ctx)" "\<not> releasing pc" using assms(4) by auto
  with counts_pos(1) [OF assms(2)] assms(3) have "0 < loops (lc_starts s)" by simp
  with assms(1) pc start_counts [OF assms(2,3), of "SReleasing e" ctx] start_counts [OF assms(2,3), of "SReturned e" ctx]
  show ?thesis using assms(3) by (auto simp: consumer_inv_def leave_loop_def wg_must_release_def Let_def)
qed

lemma consumer_step_inv: "consumer_step s t \<Longrightarrow> consumer_inv s \<Longrightarrow> consumer_inv t"
proof (induction rule: consumer_step.induct)
  case (start_check s i)
  then show ?case by (cases "lc_starts s ! i") (auto intro: set_start_inv)
next
  case (start_add s i)
  then show ?case
    using start_counts [of i s SChecked "snd (lc_starts s ! i)" SLoop "snd (lc_starts s ! i)"]
    by (cases "lc_starts s ! i")
      (auto simp: Start_add_def consumer_inv_def wg_must_release_def dest!: wg_Add_Some split: option.splits)
next
  case (start_select s i ctx)
  from Start_select_cases [of ctx] show ?case
  proof (elim disjE conjE exE)
    assume "Start_select ctx = SConsuming"
    with start_select set_start_inv [of s i SLoop ctx SConsuming] show ?thesis by simp
  next
    fix cause assume "Start_select ctx = SReturned cause"
    with start_select leave_loop_inv show ?thesis by auto
  qed
next
  case (start_consumed s i ctx err)
  from Start_after_consume_cases [of ctx err] show ?case
  proof (elim disjE conjE exE)
    assume "Start_after_consume ctx err = SLoop"
    with start_consumed set_start_inv [of s i SConsuming ctx SLoop] show ?thesis by simp
  next
    fix cause assume "Start_after_consume ctx err = SReturned cause"
    with start_consumed leave_loop_inv show ?thesis by auto
  qed
next
  case (start_release s i e)
  obtain ctx where p: "lc_starts s ! i = (SReleasing e, ctx)" using start_release by (cases "lc_starts s ! i") auto
  from start_release.prems have inv: "wg_count (lc_wg s) = loops (lc_starts s)"
    "releasers (lc_starts s) = (if wg_must_release (lc_wg s) then 1 else 0)"
    "closers (lc_closes s) + lc_client_closes s = (if lc_closed s then 1 else 0)" by (simp_all add: consumer_inv_def)
  have "0 < releasers (lc_starts s)" using counts_pos(2) [OF start_release.hyps(2)] p by simp
  with inv(2) have "releasers (lc_starts s) = 1" by (simp split: if_splits)
  with start_counts [OF start_release.hyps(2) p, of "SReturned e" ctx]
  have "loops ((lc_starts s)[i := (SReturned e, ctx)]) = loops (lc_starts s)" "releasers ((lc_starts s)[i := (SReturned e, ctx)]) = 0"
    by simp_all
  with inv(1,3) p show ?case
    by (simp add: consumer_inv_def Start_release_def wg_must_release_def release_counts split del: if_split)
next
  case (cancel s i pc cause)
  then show ?case
    using start_counts [of i s pc None pc "Some cause"] by (auto simp: consumer_inv_def in_loop_def split: if_splits)
next
  case (close_check s j)
  then show ?case
    using close_counts [of j s "Close_check (lc_closed s)"] by (auto simp: consumer_inv_def Close_check_def split: if_splits)
next
  case (close_wait s j)
  then show ?case
    using close_counts [of j s CClosing] close_counts [of j s CParked]
    by (auto simp: consumer_inv_def Close_wait_def wg_must_release_def split: if_splits)
next
  case (close_wake s j)
  then show ?case using close_counts [of j s CClosing] by (auto simp: consumer_inv_def Close_wake_def split: if_splits)
next
  case (close_client s j err)
  then show ?case
    using close_counts [of j s "Close_result err"] by (auto simp: consumer_inv_def Close_result_def split: if_splits)
qed

interpretation consumer_life: step_invariant consumer_initial consumer_step consumer_inv
proof unfold_locales
  fix s assume s: "consumer_initial s"
  then have "loops (lc_starts s) = 0" "releasers (lc_starts s) = 0" "closers (lc_closes s) = 0" "parked (lc_closes s) = 0"
    by (auto simp: consumer_initial_def filter_empty_conv in_loop_def loops_def releasers_def closers_def parked_def)
  with s show "consumer_inv s" by (simp add: consumer_inv_def consumer_initial_def wg_must_release_def)
qed (rule consumer_step_inv)

subsection \<open>The client is closed once\<close>

text \<open>
  In every interleaving of any number of \<open>Start\<close> and \<open>Close\<close> calls the client is
  closed at most once, only after the consumer was marked closed, and then no \<open>Close\<close> call is
  still on its way.
\<close>

theorem consumer_client_closed_once:
  assumes "reach consumer_initial consumer_step s"
  shows "lc_client_closes s \<le> 1 \<and>
    (lc_client_closes s = 1 \<longrightarrow> lc_closed s \<and> (\<forall>c \<in> set (lc_closes s). \<not> closing c))"
proof -
  from consumer_life.reach_inv [OF assms] have
    inv: "closers (lc_closes s) + lc_client_closes s = (if lc_closed s then 1 else 0)"
    by (simp add: consumer_inv_def)
  then have le: "lc_client_closes s \<le> 1" by (auto split: if_splits)
  moreover have "closers (lc_closes s) = 0" if "lc_client_closes s = 1"
    using inv that by (auto split: if_splits)
  ultimately show ?thesis
    using inv by (auto simp: closers_def filter_empty_conv split: if_splits)
qed

text \<open>Two goroutines, one of each kind, stepped by hand.\<close>

definition context_canceled :: go_error where
  "context_canceled = ErrValue ''context'' ''Canceled'' ''context canceled''"

definition life_at :: "bool \<Rightarrow> nat \<Rightarrow> nat \<Rightarrow> start_pc \<times> go_error option \<Rightarrow> close_pc \<Rightarrow> consumer_life" where
  "life_at cl wg n p c = \<lparr>lc_closed = cl, lc_wg = \<lparr>wg_count = wg, wg_waiters = parked [c]\<rparr>, lc_client_closes = n,
     lc_starts = [p], lc_closes = [c], lc_crash = False\<rparr>"

lemma parked_one [simp]: "parked [CParked] = 1" "c \<noteq> CParked \<Longrightarrow> parked [c] = 0"
  by (auto simp: parked_def)

lemmas life_at_defs = life_at_def life_defs wg_park_def

lemma life_at_init: "reach consumer_initial consumer_step (life_at False 0 0 (SInit, None) CInit)"
  by (rule reach_init) (simp add: consumer_initial_def life_at_def wg_zero_def)

lemma life_at_check: "consumer_step (life_at cl wg n (SInit, x) c) (life_at cl wg n (Start_check cl, x) c)"
  using consumer_step.start_check [of "life_at cl wg n (SInit, x) c" 0] by (simp add: life_at_defs)

lemma life_at_add:
  "0 < wg \<or> c \<noteq> CParked \<Longrightarrow> consumer_step (life_at cl wg n (SChecked, x) c) (life_at cl (Suc wg) n (SLoop, x) c)"
  using consumer_step.start_add [of "life_at cl wg n (SChecked, x) c" 0]
  by (auto simp: life_at_defs Start_add_def wg_Add_def wg_must_release_def)

lemma life_at_select: "consumer_step (life_at cl wg n (SLoop, None) c) (life_at cl wg n (SConsuming, None) c)"
  using consumer_step.start_select [of "life_at cl wg n (SLoop, None) c" 0]
  by (simp add: life_at_defs Start_select_def loop_to_def)

lemma life_at_close: "consumer_step (life_at False wg n p CInit) (life_at True wg n p CWaiting)"
  using consumer_step.close_check [of "life_at False wg n p CInit" 0]
  by (simp add: life_at_defs Close_check_def)

lemma life_at_wait: "consumer_step (life_at cl wg n p CWaiting) (life_at cl wg n p (if wg = 0 then CClosing else CParked))"
  using consumer_step.close_wait [of "life_at cl wg n p CWaiting" 0] by (cases "wg = 0") (simp_all add: life_at_defs Close_wait_def)

lemma life_at_closed: "consumer_step (life_at cl wg n p CClosing) (life_at cl wg (Suc n) p (CReturned None))"
  using consumer_step.close_client [of "life_at cl wg n p CClosing" 0 None]
  by (simp add: life_at_defs Close_result_def)

lemma life_at_cancel: "consumer_step (life_at cl wg n (pc, None) c) (life_at cl wg n (pc, Some e) c)"
  using consumer_step.cancel [of "life_at cl wg n (pc, None) c" 0] by (simp add: life_at_def)

lemma life_at_checked: "reach consumer_initial consumer_step (life_at False 0 0 (SChecked, None) CInit)"
  using reach_step [OF life_at_init life_at_check] by (simp add: Start_check_def)

lemma life_at_race: "reach consumer_initial consumer_step (life_at True 1 1 (SConsuming, None) (CReturned None))"
proof -
  note r = reach_step [where step = consumer_step]
  have "reach consumer_initial consumer_step (life_at True 0 0 (SChecked, None) CClosing)"
    using r [OF r [OF life_at_checked life_at_close] life_at_wait] by simp
  from r [OF r [OF r [OF this life_at_closed] life_at_add] life_at_select] show ?thesis by simp
qed

lemma life_at_blocked: "reach consumer_initial consumer_step (life_at True 1 0 (SConsuming, None) CParked)"
proof -
  note r = reach_step [where step = consumer_step]
  have "reach consumer_initial consumer_step (life_at False 1 0 (SLoop, None) CInit)"
    using r [OF life_at_checked life_at_add] by simp
  from r [OF r [OF r [OF this life_at_select] life_at_close] life_at_wait] show ?thesis by simp
qed

theorem consumer_client_closed_once_witness:
  "lc_client_closes (life_at True 1 1 (SConsuming, None) (CReturned None)) = 1 \<and>
   lc_closed (life_at True 1 1 (SConsuming, None) (CReturned None))"
  using consumer_client_closed_once [OF life_at_race] by (simp add: life_at_def)

subsection \<open>Close waits for the contexts\<close>

text \<open>A \<open>Close\<close> at or in \<open>wg.Wait\<close>; steps during which the context of \<open>Start\<close> number \<open>i\<close> stays live.\<close>

definition waits :: "close_pc \<Rightarrow> bool" where
  "waits c \<longleftrightarrow> c = CWaiting \<or> c = CParked"

definition live_step :: "nat \<Rightarrow> consumer_life \<Rightarrow> consumer_life \<Rightarrow> bool" where
  "live_step i s t \<longleftrightarrow> consumer_step s t \<and> snd (lc_starts t ! i) = None"

definition consuming_live :: "nat \<Rightarrow> consumer_life \<Rightarrow> bool" where
  "consuming_live i s \<longleftrightarrow> i < length (lc_starts s) \<and> in_loop (lc_starts s ! i) \<and> snd (lc_starts s ! i) = None"

lemma one_closer:
  assumes "consumer_inv s" "j < length (lc_closes s)" "k < length (lc_closes s)" "closing (lc_closes s ! j)" "closing (lc_closes s ! k)"
  shows "k = j"
proof (rule ccontr)
  assume "k \<noteq> j"
  let ?s = "set_close j CInit s"
  have "0 < closers (lc_closes ?s)" using counts_pos(4) [of k ?s] assms(3,5) \<open>k \<noteq> j\<close> by simp
  with close_counts(1) [OF assms(2), of CInit] assms(1,4) show False
    by (auto simp: consumer_inv_def split: if_splits)
qed

lemma leave_loop_fields [simp]:
  "lc_closes (leave_loop i e s) = lc_closes s" "lc_crash (leave_loop i e s) = lc_crash s"
  "k \<noteq> i \<Longrightarrow> lc_starts (leave_loop i e s) ! k = lc_starts s ! k" "length (lc_starts (leave_loop i e s)) = length (lc_starts s)"
  by (simp_all add: leave_loop_def Let_def)

lemma live_step_stays:
  assumes "live_step i s t" "consuming_live i s" "consumer_inv s" "j < length (lc_closes s)" "waits (lc_closes s ! j)"
  shows "consuming_live i t \<and> waits (lc_closes t ! j) \<and> length (lc_closes t) = length (lc_closes s) \<and> \<not> lc_crash t"
proof -
  from assms have i: "i < length (lc_starts s)" "in_loop (lc_starts s ! i)" "snd (lc_starts s ! i) = None"
    by (auto simp: consuming_live_def)
  from assms(3) counts_pos(1) [OF i(1,2)] have wg: "wg_count (lc_wg s) \<noteq> 0" by (simp add: consumer_inv_def)
  have only: "k = j" if "k < length (lc_closes s)" "closing (lc_closes s ! k)" for k
    using one_closer [OF assms(3,4) that(1) _ that(2)] assms(5) by (auto simp: waits_def)
  from assms(1) have "consumer_step s t" "snd (lc_starts t ! i) = None" by (auto simp: live_step_def)
  then show ?thesis
  proof (cases rule: consumer_step.cases)
    case (start_check k)
    with i assms(5) show ?thesis by (cases "k = i") (auto simp: consuming_live_def in_loop_def)
  next
    case (start_add k)
    with wg obtain w where "wg_Add (lc_wg s) = Some w" by (auto simp: wg_Add_def wg_must_release_def)
    with start_add i assms(5) show ?thesis by (cases "k = i") (auto simp: consuming_live_def in_loop_def Start_add_def)
  next
    case (start_select k ctx)
    with i assms(5) Start_select_cases [of ctx] show ?thesis by (cases "k = i") (auto simp: consuming_live_def)
  next
    case (start_consumed k ctx err)
    with i assms(5) Start_after_consume_cases [of ctx err] show ?thesis by (cases "k = i") (auto simp: consuming_live_def)
  next
    case (start_release k e)
    with counts_pos(2) [of k s] assms(3) have "wg_must_release (lc_wg s)"
      by (auto simp: consumer_inv_def split: if_splits)
    with wg show ?thesis by (simp add: wg_must_release_def)
  next
    case (cancel k pc cause)
    with i assms(5) \<open>snd (lc_starts t ! i) = None\<close> show ?thesis by (cases "k = i") (auto simp: consuming_live_def)
  next
    case (close_check k)
    with i assms(5) show ?thesis by (cases "k = j") (auto simp: consuming_live_def waits_def)
  next
    case (close_wait k)
    with wg i assms(4,5) show ?thesis by (cases "k = j") (auto simp: consuming_live_def waits_def Close_wait_def)
  next
    case (close_wake k)
    with only [of k] assms(5) show ?thesis by (simp add: waits_def)
  next
    case (close_client k err)
    with only [of k] assms(5) show ?thesis by (simp add: waits_def)
  qed
qed

text \<open>
  C24: a \<open>Close\<close> call that waits while some \<open>Start\<close> is in its loop with a live context keeps
  waiting, and that \<open>Start\<close> keeps running, for as long as the context is not cancelled,
  whatever everything else does: \<open>Close\<close> does not end a running \<open>Start\<close>. Nor does the process
  crash meanwhile.
\<close>

theorem consumer_Close_blocked_while_context_live:
  assumes "reach consumer_initial consumer_step s" and "consuming_live i s"
    and "j < length (lc_closes s)" and "waits (lc_closes s ! j)"
    and "(live_step i)\<^sup>*\<^sup>* s t"
  shows "consuming_live i t \<and> waits (lc_closes t ! j) \<and> (\<not> lc_crash s \<longrightarrow> \<not> lc_crash t)"
proof -
  have "consumer_inv t \<and> consuming_live i t \<and> j < length (lc_closes t) \<and> waits (lc_closes t ! j) \<and> (\<not> lc_crash s \<longrightarrow> \<not> lc_crash t)"
    using assms(5)
  proof (induction rule: rtranclp_induct)
    case base
    with assms show ?case by (simp add: consumer_life.reach_inv)
  next
    case (step y z)
    then have "consumer_inv z" by (auto simp: live_step_def intro: consumer_step_inv)
    with live_step_stays [OF step.hyps(2), of j] step.IH show ?case by auto
  qed
  then show ?thesis by simp
qed

theorem consumer_Close_blocked_while_context_live_witness:
  "consuming_live 0 (life_at True 1 0 (SConsuming, None) CParked) \<and>
   waits (lc_closes (life_at True 1 0 (SConsuming, None) CParked) ! 0)"
proof -
  let ?s = "life_at True 1 0 (SConsuming, None) CParked"
  have "consuming_live 0 ?s" "0 < length (lc_closes ?s)" "waits (lc_closes ?s ! 0)"
    by (simp_all add: consuming_live_def life_at_def waits_def)
  from consumer_Close_blocked_while_context_live [OF life_at_blocked this rtranclp.rtrancl_refl]
  show ?thesis by blast
qed

text \<open>
  \<open>Start\<close> checks the closed flag and joins the wait group in two separate steps, so
  there is an interleaving in which \<open>Close\<close> has closed the client and returned nil while a
  \<open>Start\<close> that passed its check before is inside its consume loop with a live context.
\<close>

theorem consumer_Start_can_outlive_Close:
  "\<exists>s. reach consumer_initial consumer_step s \<and> lc_client_closes s = 1 \<and>
     lc_closes s = [CReturned None] \<and> lc_starts s = [(SConsuming, None)]"
  using life_at_race by (intro exI) (auto simp: life_at_def)

subsection \<open>Cancelling every context ends everything\<close>

fun start_rank :: "start_pc \<Rightarrow> nat" where
  "start_rank SInit = 5" | "start_rank SChecked = 4" | "start_rank SConsuming = 3"
| "start_rank SLoop = 2" | "start_rank (SReleasing e) = 1" | "start_rank (SReturned e) = 0"

fun close_rank :: "close_pc \<Rightarrow> nat" where
  "close_rank CInit = 5" | "close_rank CWaiting = 4" | "close_rank CParked = 3" | "close_rank CReleased = 2"
| "close_rank CClosing = 1" | "close_rank (CReturned e) = 0"

definition consumer_rank :: "consumer_life \<Rightarrow> nat" where
  "consumer_rank s = sum_list (map (\<lambda>p. start_rank (fst p)) (lc_starts s)) + sum_list (map close_rank (lc_closes s)) +
     (if lc_crash s then 0 else 1)"

definition all_cancelled :: "consumer_life \<Rightarrow> bool" where
  "all_cancelled s \<longleftrightarrow> (\<forall>p \<in> set (lc_starts s). snd p \<noteq> None)"

definition all_returned :: "consumer_life \<Rightarrow> bool" where
  "all_returned s \<longleftrightarrow> (\<forall>p \<in> set (lc_starts s). returned (fst p)) \<and> (\<forall>c \<in> set (lc_closes s). \<exists>r. c = CReturned r)"

lemma all_cancelled_nth: "all_cancelled s \<Longrightarrow> i < length (lc_starts s) \<Longrightarrow> snd (lc_starts s ! i) \<noteq> None"
  by (simp add: all_cancelled_def)

lemma all_cancelled_update:
  "all_cancelled s \<Longrightarrow> i < length (lc_starts s) \<Longrightarrow> lc_starts t = (lc_starts s)[i := (pc, snd (lc_starts s ! i))] \<Longrightarrow> all_cancelled t"
  using set_update_subset_insert [of "lc_starts s" i "(pc, snd (lc_starts s ! i))"] by (auto simp: all_cancelled_def)

lemma rank_set_start:
  "i < length (lc_starts s) \<Longrightarrow> start_rank pc < start_rank (fst (lc_starts s ! i)) \<Longrightarrow> consumer_rank (set_start i pc s) < consumer_rank s"
  using sum_update_less [of i "lc_starts s" "\<lambda>p. start_rank (fst p)" "(pc, snd (lc_starts s ! i))"]
  by (simp add: consumer_rank_def)

lemma rank_set_close:
  "j < length (lc_closes s) \<Longrightarrow> close_rank pc < close_rank (lc_closes s ! j) \<Longrightarrow> consumer_rank (set_close j pc s) < consumer_rank s"
  using sum_update_less [of j "lc_closes s" close_rank pc] by (simp add: consumer_rank_def)

lemma rank_irrelevant [simp]:
  "consumer_rank (set_wg w s) = consumer_rank s" "consumer_rank (s\<lparr>lc_closed := b\<rparr>) = consumer_rank s"
  "consumer_rank (s\<lparr>lc_client_closes := n\<rparr>) = consumer_rank s"
  by (simp_all add: consumer_rank_def)

lemma rank_crash: "\<not> lc_crash s \<Longrightarrow> consumer_rank (s\<lparr>lc_crash := True\<rparr>) < consumer_rank s"
  by (simp add: consumer_rank_def)

lemma rank_released: "consumer_rank (s\<lparr>lc_closes := map release_parked (lc_closes s)\<rparr>) \<le> consumer_rank s"
proof -
  have "close_rank (release_parked c) \<le> close_rank c" for c by (simp add: release_parked_def)
  then have "sum_list (map close_rank (map release_parked cs)) \<le> sum_list (map close_rank cs)" for cs
    by (simp add: sum_list_mono)
  then show ?thesis by (simp add: consumer_rank_def)
qed

lemma consumer_rank_step:
  assumes "consumer_step s t" "all_cancelled s"
  shows "consumer_rank t < consumer_rank s"
  using assms(1)
proof (cases rule: consumer_step.cases)
  case (start_check i)
  then show ?thesis by (auto simp: Start_check_def intro: rank_set_start)
next
  case (start_add i)
  then show ?thesis by (auto simp: Start_add_def intro: rank_set_start rank_crash split: option.splits)
next
  case (start_select i ctx)
  with all_cancelled_nth [OF assms(2), of i] show ?thesis
    by (auto simp: Start_select_def leave_loop_def Let_def intro!: rank_set_start)
next
  case (start_consumed i ctx err)
  with Start_after_consume_cases [of ctx err] show ?thesis
    by (auto simp: leave_loop_def Let_def intro!: rank_set_start)
next
  case (start_release i e)
  then have "consumer_rank (set_start i (SReturned e) s) < consumer_rank s" by (intro rank_set_start) simp_all
  with rank_released [of "set_wg (wg_release (lc_wg s)) (set_start i (SReturned e) s)"] start_release show ?thesis
    by (simp add: Start_release_def)
next
  case (cancel i pc cause)
  with all_cancelled_nth [OF assms(2), of i] show ?thesis by simp
next
  case (close_check j)
  then show ?thesis by (auto simp: Close_check_def intro: rank_set_close)
next
  case (close_wait j)
  then show ?thesis by (auto simp: Close_wait_def intro: rank_set_close)
next
  case (close_wake j)
  then show ?thesis by (auto simp: Close_wake_def intro: rank_set_close rank_crash)
next
  case (close_client j err)
  then show ?thesis by (auto simp: Close_result_def intro: rank_set_close)
qed

lemma all_cancelled_step:
  assumes "consumer_step s t" "all_cancelled s"
  shows "all_cancelled t"
  using assms(1)
proof (cases rule: consumer_step.cases)
  case (start_check i)
  with assms(2) show ?thesis by (auto elim: all_cancelled_update)
next
  case (start_add i)
  show ?thesis
  proof (cases "wg_Add (lc_wg s)")
    case None
    with start_add assms(2) show ?thesis by (simp add: Start_add_def all_cancelled_def)
  next
    case (Some w)
    with start_add show ?thesis by (intro all_cancelled_update [OF assms(2), of i t SLoop]) (simp_all add: Start_add_def)
  qed
next
  case (start_select i ctx)
  with assms(2) Start_select_cases [of ctx] show ?thesis by (auto simp: leave_loop_def Let_def elim: all_cancelled_update)
next
  case (start_consumed i ctx err)
  with assms(2) Start_after_consume_cases [of ctx err] show ?thesis
    by (auto simp: leave_loop_def Let_def elim: all_cancelled_update)
next
  case (start_release i e)
  with assms(2) show ?thesis by (auto simp: Start_release_def elim: all_cancelled_update)
next
  case (cancel i pc cause)
  with all_cancelled_nth [OF assms(2), of i] show ?thesis by simp
qed (use assms(2) in \<open>auto simp: all_cancelled_def Close_wait_def Close_wake_def\<close>)

lemma start_can_step:
  assumes "\<not> lc_crash s" "i < length (lc_starts s)" "\<not> returned (fst (lc_starts s ! i))"
  shows "\<exists>t. consumer_step s t"
proof (cases "lc_starts s ! i")
  case (Pair pc ctx)
  with assms show ?thesis
    using consumer_step.start_check [of s i] consumer_step.start_add [of s i] consumer_step.start_select [of s i ctx]
      consumer_step.start_consumed [of s i ctx] consumer_step.start_release [of s i]
    by (cases pc) (simp; blast)+
qed

definition consumer_finished :: "consumer_life \<Rightarrow> bool" where
  "consumer_finished s \<longleftrightarrow> all_returned s \<or> lc_crash s"

lemma consumer_progress:
  assumes "consumer_inv s" "\<not> consumer_finished s"
  shows "\<exists>t. consumer_step s t"
proof (cases "\<forall>i < length (lc_starts s). returned (fst (lc_starts s ! i))")
  case False
  then show ?thesis using start_can_step assms(2) by (auto simp: consumer_finished_def)
next
  case True
  then have all: "\<forall>p \<in> set (lc_starts s). returned (fst p)" by (metis in_set_conv_nth)
  then have "\<forall>p \<in> set (lc_starts s). \<not> in_loop p \<and> \<not> releasing (fst p)" by (metis in_loop_def releasing.simps(1) returned.elims(2) returned.simps(4,5) releasing.simps(6))
  then have "loops (lc_starts s) = 0" "releasers (lc_starts s) = 0" by (simp_all add: loops_def releasers_def filter_empty_conv)
  with assms(1) have none: "parked (lc_closes s) = 0" by (auto simp: consumer_inv_def wg_must_release_def split: if_splits)
  from all assms(2) obtain j where j: "j < length (lc_closes s)" "\<forall>r. lc_closes s ! j \<noteq> CReturned r" "\<not> lc_crash s"
    by (auto simp: consumer_finished_def all_returned_def in_set_conv_nth)
  then show ?thesis
    using none counts_pos(3) [of j s] consumer_step.close_check consumer_step.close_wait consumer_step.close_wake
      consumer_step.close_client
    by (cases "lc_closes s ! j") (simp; blast)+
qed

interpretation consumer_end: shutdown consumer_initial consumer_step consumer_inv all_cancelled consumer_finished consumer_rank
  by unfold_locales (auto dest: consumer_rank_step all_cancelled_step consumer_progress)

text \<open>
  When the process cannot crash any more: the consumer is closed, no \<open>Start\<close> is between its check
  and \<open>wg.Add\<close>, and a \<open>Close\<close> that was released finds the group unused.
\<close>

definition settled :: "consumer_life \<Rightarrow> bool" where
  "settled s \<longleftrightarrow> \<not> lc_crash s \<and> lc_closed s \<and> (\<forall>i < length (lc_starts s). fst (lc_starts s ! i) \<noteq> SChecked) \<and>
     (\<forall>j < length (lc_closes s). lc_closes s ! j = CReleased \<longrightarrow> lc_wg s = wg_zero)"

lemma settled_loop:
  assumes "settled s" "consumer_inv s" "i < length (lc_starts s)" "in_loop (lc_starts s ! i)" "j < length (lc_closes s)"
  shows "lc_closes s ! j \<noteq> CReleased"
  using assms counts_pos(1) [OF assms(3,4)] by (auto simp: settled_def consumer_inv_def wg_eq_zero_iff)

lemma settled_moved: "settled s \<Longrightarrow> pc \<noteq> SChecked \<Longrightarrow> settled (set_start i pc s)"
  by (auto simp: settled_def) (metis fst_conv nth_list_update_eq nth_list_update_neq)

lemma settled_leave:
  "settled s \<Longrightarrow> \<forall>j < length (lc_closes s). lc_closes s ! j \<noteq> CReleased \<Longrightarrow> settled (leave_loop i e s)"
  using settled_moved [of s "if wg_must_release (wg_Done (lc_wg s)) then SReleasing e else SReturned e" i]
  by (auto simp: settled_def leave_loop_def Let_def)

lemma settled_step:
  assumes "consumer_step s t" "settled s" "consumer_inv s"
  shows "settled t"
proof -
  note set = assms(2) [unfolded settled_def]
  from assms(1) show ?thesis
  proof (cases rule: consumer_step.cases)
    case (start_check i)
    with set show ?thesis by (auto simp: settled_def Start_check_def nth_list_update)
  next
    case (start_add i)
    with set show ?thesis by auto
  next
    case (start_select i ctx)
    with settled_loop [OF assms(2,3), of i] have "\<forall>j < length (lc_closes s). lc_closes s ! j \<noteq> CReleased" by simp
    with start_select Start_select_cases [of ctx] assms(2) show ?thesis
      by (elim disjE exE conjE) (simp_all add: settled_moved settled_leave)
  next
    case (start_consumed i ctx err)
    with settled_loop [OF assms(2,3), of i] have "\<forall>j < length (lc_closes s). lc_closes s ! j \<noteq> CReleased" by simp
    with start_consumed Start_after_consume_cases [of ctx err] assms(2) show ?thesis
      by (elim disjE exE conjE) (simp_all add: settled_moved settled_leave)
  next
    case (start_release i e)
    with counts_pos(2) [of i s] assms(3) have "wg_must_release (lc_wg s)" by (auto simp: consumer_inv_def split: if_splits)
    with start_release set show ?thesis
      by (auto simp: settled_def Start_release_def nth_list_update wg_eq_zero_iff wg_must_release_def)
  next
    case (cancel i pc cause)
    with set show ?thesis by (auto simp: settled_def nth_list_update)
  next
    case (close_check j)
    with set show ?thesis by (auto simp: settled_def Close_check_def nth_list_update)
  next
    case (close_wait j)
    have none: "lc_closes s ! k \<noteq> CReleased" if k: "k < length (lc_closes s)" for k
    proof
      assume "lc_closes s ! k = CReleased"
      with one_closer [OF assms(3) _ k, of j] close_wait show False by auto
    qed
    have "settled (Close_wait j s)" unfolding settled_def
    proof (intro conjI allI impI)
      fix k assume "k < length (lc_closes (Close_wait j s))" "lc_closes (Close_wait j s) ! k = CReleased"
      with none [of k] show "lc_wg (Close_wait j s) = wg_zero"
        by (cases "k = j") (auto simp: Close_wait_def split: if_splits)
    qed (use set in \<open>auto simp: Close_wait_def split: if_splits\<close>)
    with close_wait show ?thesis by simp
  next
    case (close_wake j)
    with set show ?thesis by (auto simp: settled_def Close_wake_def nth_list_update)
  next
    case (close_client j err)
    with set show ?thesis by (auto simp: settled_def Close_result_def nth_list_update)
  qed
qed

lemma settled_steps: "consumer_step\<^sup>*\<^sup>* s t \<Longrightarrow> settled s \<Longrightarrow> consumer_inv s \<Longrightarrow> settled t \<and> consumer_inv t"
  by (induction rule: rtranclp_induct) (auto dest: settled_step consumer_step_inv)


text \<open>
  The crash that is possible: a \<open>Close\<close> that was parked on one \<open>Start\<close> and released by its
  return, when another \<open>Start\<close> that passed its check before joins the group before the released
  \<open>Close\<close> runs.
\<close>

definition life_two :: "bool \<Rightarrow> nat \<Rightarrow> nat \<Rightarrow> start_pc \<times> go_error option \<Rightarrow> start_pc \<times> go_error option \<Rightarrow> close_pc \<Rightarrow> bool \<Rightarrow> consumer_life" where
  "life_two cl n w p q c crash = \<lparr>lc_closed = cl, lc_wg = \<lparr>wg_count = n, wg_waiters = w\<rparr>, lc_client_closes = 0,
     lc_starts = [p, q], lc_closes = [c], lc_crash = crash\<rparr>"

lemmas life_two_defs = life_two_def life_defs wg_Add_def wg_must_release_def wg_Done_def wg_release_def wg_park_def wg_zero_def

lemma life_two_parked:
  "reach consumer_initial consumer_step (life_two True 1 1 (SConsuming, Some e) (SChecked, Some e) CParked False)"
proof -
  note r = reach_step [where step = consumer_step]
  have s0: "reach consumer_initial consumer_step (life_two False 0 0 (SInit, None) (SInit, None) CInit False)"
    by (rule reach_init) (simp add: consumer_initial_def life_two_defs)
  have s1: "consumer_step (life_two False 0 0 (SInit, None) (SInit, None) CInit False) (life_two False 0 0 (SChecked, None) (SInit, None) CInit False)"
    using consumer_step.start_check [of "life_two False 0 0 (SInit, None) (SInit, None) CInit False" 0]
    by (simp add: life_two_defs Start_check_def)
  have s2: "consumer_step (life_two False 0 0 (SChecked, None) (SInit, None) CInit False) (life_two False 1 0 (SLoop, None) (SInit, None) CInit False)"
    using consumer_step.start_add [of "life_two False 0 0 (SChecked, None) (SInit, None) CInit False" 0]
    by (simp add: life_two_defs Start_add_def)
  have s3: "consumer_step (life_two False 1 0 (SLoop, None) (SInit, None) CInit False) (life_two False 1 0 (SConsuming, None) (SInit, None) CInit False)"
    using consumer_step.start_select [of "life_two False 1 0 (SLoop, None) (SInit, None) CInit False" 0]
    by (simp add: life_two_defs Start_select_def loop_to_def)
  have s4: "consumer_step (life_two False 1 0 (SConsuming, None) (SInit, None) CInit False) (life_two False 1 0 (SConsuming, None) (SChecked, None) CInit False)"
    using consumer_step.start_check [of "life_two False 1 0 (SConsuming, None) (SInit, None) CInit False" 1]
    by (simp add: life_two_defs Start_check_def)
  have s5: "consumer_step (life_two False 1 0 (SConsuming, None) (SChecked, None) CInit False) (life_two True 1 0 (SConsuming, None) (SChecked, None) CWaiting False)"
    using consumer_step.close_check [of "life_two False 1 0 (SConsuming, None) (SChecked, None) CInit False" 0]
    by (simp add: life_two_defs Close_check_def)
  have s6: "consumer_step (life_two True 1 0 (SConsuming, None) (SChecked, None) CWaiting False) (life_two True 1 1 (SConsuming, None) (SChecked, None) CParked False)"
    using consumer_step.close_wait [of "life_two True 1 0 (SConsuming, None) (SChecked, None) CWaiting False" 0]
    by (simp add: life_two_defs Close_wait_def)
  have s7: "consumer_step (life_two True 1 1 (SConsuming, None) (SChecked, None) CParked False) (life_two True 1 1 (SConsuming, Some e) (SChecked, None) CParked False)"
    using consumer_step.cancel [of "life_two True 1 1 (SConsuming, None) (SChecked, None) CParked False" 0]
    by (simp add: life_two_defs)
  have s8: "consumer_step (life_two True 1 1 (SConsuming, Some e) (SChecked, None) CParked False) (life_two True 1 1 (SConsuming, Some e) (SChecked, Some e) CParked False)"
    using consumer_step.cancel [of "life_two True 1 1 (SConsuming, Some e) (SChecked, None) CParked False" 1]
    by (simp add: life_two_defs)
  from r [OF r [OF r [OF r [OF r [OF r [OF r [OF r [OF s0 s1] s2] s3] s4] s5] s6] s7] s8] show ?thesis .
qed

lemma life_two_crash:
  "consumer_step\<^sup>*\<^sup>* (life_two True 1 1 (SConsuming, Some e) (SChecked, Some e) CParked False)
     (life_two True 1 0 (SReturned e, Some e) (SLoop, Some e) CReleased True)"
proof -
  note r = rtranclp.rtrancl_into_rtrancl [where r = consumer_step]
  have s1: "consumer_step (life_two True 1 1 (SConsuming, Some e) (SChecked, Some e) CParked False) (life_two True 0 1 (SReleasing e, Some e) (SChecked, Some e) CParked False)"
    using consumer_step.start_consumed [of "life_two True 1 1 (SConsuming, Some e) (SChecked, Some e) CParked False" 0 "Some e" "Some e"]
    by (simp add: life_two_defs Start_after_consume_def leave_loop_def)
  have s2: "consumer_step (life_two True 0 1 (SReleasing e, Some e) (SChecked, Some e) CParked False) (life_two True 0 0 (SReturned e, Some e) (SChecked, Some e) CReleased False)"
    using consumer_step.start_release [of "life_two True 0 1 (SReleasing e, Some e) (SChecked, Some e) CParked False" 0 e]
    by (simp add: life_two_defs Start_release_def release_parked_def)
  have s3: "consumer_step (life_two True 0 0 (SReturned e, Some e) (SChecked, Some e) CReleased False) (life_two True 1 0 (SReturned e, Some e) (SLoop, Some e) CReleased False)"
    using consumer_step.start_add [of "life_two True 0 0 (SReturned e, Some e) (SChecked, Some e) CReleased False" 1]
    by (simp add: life_two_defs Start_add_def)
  have s4: "consumer_step (life_two True 1 0 (SReturned e, Some e) (SLoop, Some e) CReleased False) (life_two True 1 0 (SReturned e, Some e) (SLoop, Some e) CReleased True)"
    using consumer_step.close_wake [of "life_two True 1 0 (SReturned e, Some e) (SLoop, Some e) CReleased False" 0]
    by (simp add: life_two_defs Close_wake_def)
  from r [OF r [OF r [OF r [OF rtranclp.rtrancl_refl s1] s2] s3] s4] show ?thesis .
qed

text \<open>
  C21: once every context is cancelled the goroutines of a consumer come to an end: the last one
  can be reached from every state, no run is infinite, and a run that stops has either every
  \<open>Start\<close> and every \<open>Close\<close> returned or was ended by a panic of the wait group. In a settled
  state (the consumer is closed and no \<open>Start\<close> is left between its check and \<open>wg.Add\<close>) that panic
  is excluded, so that every call returns; elsewhere it does occur.
\<close>

theorem consumer_shutdown_after_cancel:
  assumes "reach consumer_initial consumer_step s" and "all_cancelled s"
  shows "(\<exists>t. consumer_step\<^sup>*\<^sup>* s t \<and> consumer_finished t) \<and>
    (\<forall>t. consumer_step\<^sup>*\<^sup>* s t \<and> \<not> (\<exists>u. consumer_step t u) \<longrightarrow> consumer_finished t) \<and>
    \<not> (\<exists>f. f (0::nat) = s \<and> (\<forall>n. consumer_step (f n) (f (Suc n)))) \<and>
    (settled s \<longrightarrow> (\<forall>t. consumer_step\<^sup>*\<^sup>* s t \<longrightarrow> \<not> lc_crash t \<and> (\<not> (\<exists>u. consumer_step t u) \<longrightarrow> all_returned t))) \<and>
    (\<exists>s' t. reach consumer_initial consumer_step s' \<and> all_cancelled s' \<and> \<not> lc_crash s' \<and> consumer_step\<^sup>*\<^sup>* s' t \<and> lc_crash t)"
proof -
  note ends = consumer_end.orderly_end [OF assms]
  have safe: "\<not> lc_crash t" if "settled s" "consumer_step\<^sup>*\<^sup>* s t" for t
    using settled_steps [OF that(2,1) consumer_life.reach_inv [OF assms(1)]] by (simp add: settled_def)
  have crash: "\<exists>s' t. reach consumer_initial consumer_step s' \<and> all_cancelled s' \<and> \<not> lc_crash s' \<and> consumer_step\<^sup>*\<^sup>* s' t \<and> lc_crash t"
    using life_two_parked [of context_canceled] life_two_crash [of context_canceled]
    by (intro exI conjI) (assumption | simp add: all_cancelled_def life_two_def)+
  from ends safe crash show ?thesis by (auto simp: consumer_finished_def)
qed

theorem consumer_shutdown_after_cancel_witness:
  "\<exists>t. consumer_step\<^sup>*\<^sup>* (life_at True 1 0 (SConsuming, Some context_canceled) CParked) t \<and> all_returned t"
proof -
  let ?s = "life_at True 1 0 (SConsuming, Some context_canceled) CParked"
  have "reach consumer_initial consumer_step ?s" using reach_step [OF life_at_blocked life_at_cancel] .
  moreover have "all_cancelled ?s" "settled ?s" by (simp_all add: all_cancelled_def settled_def life_at_def)
  ultimately show ?thesis using consumer_shutdown_after_cancel [of ?s] unfolding consumer_finished_def by blast
qed

end
