(* ===== verification/GroupHealth.thy ===== *)
theory GroupHealth
  imports ConsumerConfig "HOL-Library.List_Lexorder" "HOL-Library.Char_ord"
begin

section \<open>The consumer group health checker (consumer/group\_health.go)\<close>

text \<open>
  A check describes the group, counts the assigned partitions, computes the lag of every
  partition of the configured topics and decides between healthy, degraded and unhealthy. The
  Kafka client and admin are the interfaces \<open>healthClient\<close> and \<open>healthAdmin\<close> of the code:
  records of functions. Their data (group descriptions, offset responses) keep the fields the
  code reads; \<open>None\<close> is a nil pointer, and an error field \<open>None\<close> is \<open>ErrNoError\<close>. Offsets
  and lags are 64-bit words. The visiting order of each Go map is a parameter.
\<close>

subsection \<open>Interfaces and data\<close>

record 'm group_description =
  gd_Err :: "go_error option"
  gd_State :: string
  gd_Members :: "(string, 'm) gomap"

record offset_block =
  ob_Offset :: int64
  ob_Err :: "go_error option"

record offset_response =
  or_Err :: "go_error option"
  or_GetBlock :: "string \<Rightarrow> int32 \<Rightarrow> offset_block option"

record 'm health_admin =
  ha_DescribeConsumerGroups :: "string list \<Rightarrow> go_error + 'm group_description option list"
  ha_ListConsumerGroupOffsets :: "string \<Rightarrow> (string, int32 list) gomap \<Rightarrow> go_error + offset_response"
  ha_Close :: "go_error option"

record health_client =
  hc_Partitions :: "string \<Rightarrow> go_error + int32 list"
  hc_GetOffset :: "string \<Rightarrow> int32 \<Rightarrow> int64 \<Rightarrow> go_error + int64"
  hc_Close :: "go_error option"

type_synonym assignment = "(string, int32 list) gomap"

record 'sc group_health_config =
  ghc_Name :: string
  ghc_Brokers :: "string list"
  ghc_GroupID :: string
  ghc_Topics :: "string list"
  ghc_Required :: bool
  ghc_MaxLag :: int64
  ghc_SaramaConfig :: "'sc option"

text \<open>
  \<open>decodeAssignment\<close> returns a pointer and an error; \<open>Inr None\<close> is a nil pointer without an
  error.
\<close>

record 'm health_checker =
  chk_name :: string
  chk_groupID :: string
  chk_topics :: "string list"
  chk_required :: bool
  chk_maxLag :: int64
  chk_client :: "health_client option"
  chk_admin :: "'m health_admin option"
  chk_decodeAssignment :: "'m \<Rightarrow> go_error + assignment option"

record lag_summary =
  ls_totalLag :: int64
  ls_maxPartitionLag :: int64
  ls_byPartition :: "(string, int64) gomap"

text \<open>The result constructors and the details of the health package, as the code calls them.\<close>

datatype detail = DString string | DInt int | DInt64 int64 | DStrings "string list" | DLags "(string, int64) gomap"

datatype health_status = Healthy | Degraded string | Unhealthy go_error

record health_result =
  hr_status :: health_status
  hr_details :: "(string \<times> detail) list"

definition NewHealthyResult :: health_result where
  "NewHealthyResult = \<lparr>hr_status = Healthy, hr_details = []\<rparr>"

definition NewDegradedResult :: "string \<Rightarrow> health_result" where
  "NewDegradedResult m = \<lparr>hr_status = Degraded m, hr_details = []\<rparr>"

definition NewUnhealthyResult :: "go_error \<Rightarrow> health_result" where
  "NewUnhealthyResult e = \<lparr>hr_status = Unhealthy e, hr_details = []\<rparr>"

definition WithDetails :: "(string \<times> detail) list \<Rightarrow> health_result \<Rightarrow> health_result" where
  "WithDetails d r = r\<lparr>hr_details := d\<rparr>"

subsection \<open>Construction and closing\<close>

text \<open>
  The constructor returns, beside its result, the clients it has closed again: a client whose
  admin could not be made is released.
\<close>

definition NewGroupHealthChecker ::
  "(string list \<Rightarrow> 'a sarama_consumer_config_scheme \<Rightarrow> go_error + health_client) \<Rightarrow>
   (health_client \<Rightarrow> go_error + 'm health_admin) \<Rightarrow> ('m \<Rightarrow> go_error + assignment option) \<Rightarrow>
   'a sarama_consumer_config_scheme \<Rightarrow> int \<Rightarrow> int \<Rightarrow>
   'a sarama_consumer_config_scheme group_health_config option \<Rightarrow>
   health_client list \<times> (go_error + 'm health_checker)" where
  "NewGroupHealthChecker NewClient NewClusterAdminFromClient GetMemberAssignment NewConfig OffsetNewest OffsetOldest cfgp =
     (case cfgp of
        None \<Rightarrow> ([], Inl consumer_ErrConfigRequired)
      | Some cfg \<Rightarrow>
          if ghc_Brokers cfg = [] then ([], Inl consumer_ErrNoBrokers)
          else if ghc_GroupID cfg = [] then ([], Inl consumer_ErrNoGroupID)
          else if ghc_Topics cfg = [] then ([], Inl consumer_ErrNoTopics)
          else (let saramaCfg = (case ghc_SaramaConfig cfg of 
                 None \<Rightarrow> consumer_toSaramaConfig NewConfig OffsetNewest OffsetOldest consumer_DefaultConfig
               | Some sc \<Rightarrow> sc) in
            case NewClient (ghc_Brokers cfg) saramaCfg of
              Inl err \<Rightarrow> ([], Inl (errorf_ctx ''creating kafka client'' err))
            | Inr client \<Rightarrow>
               (case NewClusterAdminFromClient client of
                  Inl err \<Rightarrow> ([client], Inl (errorf_ctx ''creating kafka admin client'' err))
                | Inr admin \<Rightarrow> ([], Inr
                    \<lparr>chk_name = (if ghc_Name cfg = [] then ghc_GroupID cfg else ghc_Name cfg),
                     chk_groupID = ghc_GroupID cfg, chk_topics = ghc_Topics cfg,
                     chk_required = ghc_Required cfg, chk_maxLag = ghc_MaxLag cfg,
                     chk_client = Some client, chk_admin = Some admin,
                     chk_decodeAssignment = GetMemberAssignment\<rparr>))))"

definition checker_Name :: "'m health_checker \<Rightarrow> string" where
  "checker_Name c = chk_name c"

definition checker_Required :: "'m health_checker \<Rightarrow> bool" where
  "checker_Required c = chk_required c"

datatype close_call = CloseAdmin | CloseClient

text \<open>\<open>Close\<close>: the calls made, in order, and the joined error.\<close>

definition checker_Close :: "'m health_checker option \<Rightarrow> close_call list \<times> go_error option" where
  "checker_Close cp = (case cp of
     None \<Rightarrow> ([], None)
   | Some c \<Rightarrow>
      (let (calls1, adminErr) = (case chk_admin c of
             None \<Rightarrow> ([], None)
           | Some a \<Rightarrow> ([CloseAdmin], map_option (errorf_ctx ''closing kafka admin client'') (ha_Close a)));
           (calls2, clientErr) = (case chk_client c of
             None \<Rightarrow> ([], None)
           | Some k \<Rightarrow> ([CloseClient], map_option (errorf_ctx ''closing kafka client'') (hc_Close k)))
       in (calls1 @ calls2, errors_join [adminErr, clientErr])))"

subsection \<open>Describing the group and counting assignments\<close>

definition describeGroup :: "'m health_admin \<Rightarrow> 'm health_checker \<Rightarrow> 'm group_description go_result" where
  "describeGroup admin c = (case ha_DescribeConsumerGroups admin [chk_groupID c] of
     Inl err \<Rightarrow> Fail (errorf_ctx (''describing consumer group '' @ chk_groupID c) err)
   | Inr [] \<Rightarrow> Fail (errorf_ctx (chk_groupID c) consumer_ErrGroupNotFound)
   | Inr (None # _) \<Rightarrow> Fail (errorf_ctx (chk_groupID c) consumer_ErrGroupNotFound)
   | Inr (Some g # _) \<Rightarrow>
      (case gd_Err g of
         Some err \<Rightarrow> Fail (errorf_ctx (''describing consumer group '' @ chk_groupID c) err)
       | None \<Rightarrow> Val g))"

fun count_topics :: "(string \<times> int32 list) list \<Rightarrow> int \<Rightarrow> int" where
  "count_topics [] tot = tot"
| "count_topics ((t, partitions) # rest) tot = count_topics rest (tot + int (length partitions))"

text \<open>Reading \<open>Topics\<close> of a nil assignment is a nil pointer dereference.\<close>

definition nil_dereference :: string where
  "nil_dereference = ''invalid memory address or nil pointer dereference''"

fun count_members ::
  "('m \<Rightarrow> go_error + assignment option) \<Rightarrow>
   ((string \<times> int32 list) list \<Rightarrow> (string \<times> int32 list) list) \<Rightarrow> (string \<times> 'm) list \<Rightarrow> int \<Rightarrow> int go_result" where
  "count_members decode ordT [] tot = Val tot"
| "count_members decode ordT ((name, member) # rest) tot = (case decode member of
     Inl err \<Rightarrow> Fail (errorf_ctx ''decoding member assignment'' err)
   | Inr None \<Rightarrow> Panic nil_dereference
   | Inr (Some topics) \<Rightarrow> count_members decode ordT rest (count_topics (ordT topics) tot))"

definition countAssignedPartitions ::
  "((string \<times> 'm) list \<Rightarrow> (string \<times> 'm) list) \<Rightarrow>
   ((string \<times> int32 list) list \<Rightarrow> (string \<times> int32 list) list) \<Rightarrow>
   'm health_checker \<Rightarrow> 'm group_description \<Rightarrow> int go_result" where
  "countAssignedPartitions ordM ordT c g =
     count_members (chk_decodeAssignment c) ordT (ordM (gd_Members g)) 0"

subsection \<open>Lag\<close>

fun list_partitions ::
  "health_client \<Rightarrow> string list \<Rightarrow> (string, int32 list) gomap \<Rightarrow> (string, int32 list) gomap go_result" where
  "list_partitions client [] m = Val m"
| "list_partitions client (topic # topics) m = (case hc_Partitions client topic of
     Inl err \<Rightarrow> Fail (errorf_ctx (''listing partitions for topic '' @ topic) err)
   | Inr partitions \<Rightarrow> list_partitions client topics (gomap_store topic partitions m))"

definition lag_key :: "string \<Rightarrow> int32 \<Rightarrow> string" where
  "lag_key topic part = topic @ ''['' @ itoa (sint part) @ '']''"

definition partition_lag :: "int64 \<Rightarrow> int64 \<Rightarrow> int64" where
  "partition_lag latestOffset committed =
     (let lag = (if 0 \<le> sint committed then latestOffset - committed else latestOffset) in
      if sint lag < 0 then 0 else lag)"

definition add_lag :: "string \<Rightarrow> int64 \<Rightarrow> lag_summary \<Rightarrow> lag_summary" where
  "add_lag key lag s =
     \<lparr>ls_totalLag = ls_totalLag s + lag,
      ls_maxPartitionLag = (if sint (ls_maxPartitionLag s) < sint lag then lag else ls_maxPartitionLag s),
      ls_byPartition = gomap_store key lag (ls_byPartition s)\<rparr>"

definition one_lag ::
  "int64 \<Rightarrow> health_client \<Rightarrow> offset_response \<Rightarrow> string \<Rightarrow> int32 \<Rightarrow> int64 go_result" where
  "one_lag OffsetNewest client offsets topic part =
     (case hc_GetOffset client topic part OffsetNewest of
        Inl err \<Rightarrow> Fail (errorf_ctx (''getting latest offset for '' @ lag_key topic part) err)
      | Inr latestOffset \<Rightarrow>
         (case or_GetBlock offsets topic part of
            None \<Rightarrow> Fail (errorf_ctx (lag_key topic part) consumer_ErrMissingCommittedOffset)
          | Some block \<Rightarrow>
             (case ob_Err block of
                Some err \<Rightarrow> Fail (errorf_ctx (''getting committed offset for '' @ lag_key topic part) err)
              | None \<Rightarrow> Val (partition_lag latestOffset (ob_Offset block)))))"

fun lag_partitions ::
  "int64 \<Rightarrow> health_client \<Rightarrow> offset_response \<Rightarrow> string \<Rightarrow> int32 list \<Rightarrow> lag_summary \<Rightarrow> lag_summary go_result" where
  "lag_partitions newest client offsets topic [] s = Val s"
| "lag_partitions newest client offsets topic (p # ps) s = (case one_lag newest client offsets topic p of
     Fail err \<Rightarrow> Fail err
   | Panic r \<Rightarrow> Panic r
   | Val lag \<Rightarrow> lag_partitions newest client offsets topic ps (add_lag (lag_key topic p) lag s))"

fun lag_topics ::
  "int64 \<Rightarrow> health_client \<Rightarrow> offset_response \<Rightarrow> (string \<times> int32 list) list \<Rightarrow> lag_summary \<Rightarrow> lag_summary go_result" where
  "lag_topics newest client offsets [] s = Val s"
| "lag_topics newest client offsets ((topic, partitions) # rest) s =
     (case lag_partitions newest client offsets topic partitions s of
        Fail err \<Rightarrow> Fail err
      | Panic r \<Rightarrow> Panic r
      | Val s' \<Rightarrow> lag_topics newest client offsets rest s')"

definition empty_summary :: lag_summary where
  "empty_summary = \<lparr>ls_totalLag = 0, ls_maxPartitionLag = 0, ls_byPartition = gomap_empty\<rparr>"

definition calculateLag ::
  "int64 \<Rightarrow> ((string \<times> int32 list) list \<Rightarrow> (string \<times> int32 list) list) \<Rightarrow>
   health_client \<Rightarrow> 'm health_admin \<Rightarrow> 'm health_checker \<Rightarrow> lag_summary go_result" where
  "calculateLag OffsetNewest ord client admin c =
     (case list_partitions client (chk_topics c) gomap_empty of
        Fail err \<Rightarrow> Fail err
      | Panic r \<Rightarrow> Panic r
      | Val topicPartitions \<Rightarrow>
         (case ha_ListConsumerGroupOffsets admin (chk_groupID c) topicPartitions of
            Inl err \<Rightarrow> Fail (errorf_ctx ''listing consumer group offsets'' err)
          | Inr offsets \<Rightarrow>
             (case or_Err offsets of
                Some err \<Rightarrow> Fail (errorf_ctx ''listing consumer group offsets'' err)
              | None \<Rightarrow> lag_topics OffsetNewest client offsets (ord topicPartitions) empty_summary)))"

definition sortedTopics :: "'m health_checker \<Rightarrow> string list" where
  "sortedTopics c = sort (chk_topics c)"

subsection \<open>The check\<close>

definition meta_details :: "'m health_checker \<Rightarrow> 'm group_description \<Rightarrow> int \<Rightarrow> (string \<times> detail) list" where
  "meta_details c g n =
     [(''group_id'', DString (chk_groupID c)), (''group_state'', DString (gd_State g)),
      (''members'', DInt (int (length (gd_Members g)))), (''assigned_partitions'', DInt n),
      (''topics'', DStrings (sortedTopics c))]"

definition lag_details :: "lag_summary \<Rightarrow> (string \<times> detail) list" where
  "lag_details s =
     [(''total_lag'', DInt64 (ls_totalLag s)), (''max_partition_lag'', DInt64 (ls_maxPartitionLag s)),
      (''lag_by_partition'', DLags (ls_byPartition s))]"

text \<open>
  \<open>ctxErr k\<close> is what the \<open>k\<close>-th call of \<open>ctx.Err\<close> within the check returns: a context may
  be cancelled between any two of them.
\<close>

definition evaluateHealth ::
  "int64 \<Rightarrow> ((string \<times> int32 list) list \<Rightarrow> (string \<times> int32 list) list) \<Rightarrow> (nat \<Rightarrow> go_error option) \<Rightarrow>
   health_client \<Rightarrow> 'm health_admin \<Rightarrow> 'm health_checker \<Rightarrow> 'm group_description \<Rightarrow> int \<Rightarrow> health_result go_result" where
  "evaluateHealth newest ord ctxErr client admin c g assigned =
     (if gd_Members g = [] \<or> assigned = 0
      then Val (WithDetails (meta_details c g assigned) (NewUnhealthyResult consumer_ErrNoPartitionAssignments))
      else if gd_State g \<noteq> ''Stable''
      then Val (WithDetails (meta_details c g assigned) (NewDegradedResult (''consumer group state is '' @ gd_State g)))
      else (case calculateLag newest ord client admin c of
          Panic r \<Rightarrow> Panic r
        | Fail err \<Rightarrow> Val (NewUnhealthyResult err)
        | Val s \<Rightarrow>
           (case ctxErr 3 of
              Some err \<Rightarrow> Val (NewUnhealthyResult err)
            | None \<Rightarrow>
               if 0 < sint (chk_maxLag c) \<and> sint (chk_maxLag c) < sint (ls_totalLag s)
               then Val (WithDetails (meta_details c g assigned @ lag_details s)
                 (NewDegradedResult (''consumer group lag '' @ itoa (sint (ls_totalLag s)) @
                    '' exceeds threshold '' @ itoa (sint (chk_maxLag c)))))
               else Val (WithDetails (meta_details c g assigned @ lag_details s) NewHealthyResult))))"

definition checker_Check ::
  "int64 \<Rightarrow> ((string \<times> 'm) list \<Rightarrow> (string \<times> 'm) list) \<Rightarrow>
   ((string \<times> int32 list) list \<Rightarrow> (string \<times> int32 list) list) \<Rightarrow>
   ((string \<times> int32 list) list \<Rightarrow> (string \<times> int32 list) list) \<Rightarrow>
   (nat \<Rightarrow> go_error option) option \<Rightarrow> 'm health_checker option \<Rightarrow> health_result go_result" where
  "checker_Check newest ordM ordT ord ctx cp =
     (case (cp, ctx) of
        (Some c, Some ctxErr) \<Rightarrow>
          (case (chk_client c, chk_admin c) of
             (Some client, Some admin) \<Rightarrow>
               (case ctxErr 0 of
                  Some err \<Rightarrow> Val (NewUnhealthyResult err)
                | None \<Rightarrow>
                 (case describeGroup admin c of
                    Panic r \<Rightarrow> Panic r
                  | Fail err \<Rightarrow> Val (NewUnhealthyResult err)
                  | Val g \<Rightarrow>
                   (case ctxErr 1 of
                      Some err \<Rightarrow> Val (NewUnhealthyResult err)
                    | None \<Rightarrow>
                     (case countAssignedPartitions ordM ordT c g of
                        Panic r \<Rightarrow> Panic r
                      | Fail err \<Rightarrow> Val (NewUnhealthyResult err)
                      | Val assigned \<Rightarrow>
                       (case ctxErr 2 of
                          Some err \<Rightarrow> Val (NewUnhealthyResult err)
                        | None \<Rightarrow> evaluateHealth newest ord ctxErr client admin c g assigned)))))
           | _ \<Rightarrow> Val (NewUnhealthyResult consumer_ErrCheckerNotInitialized))
      | _ \<Rightarrow> Val (NewUnhealthyResult consumer_ErrCheckerNotInitialized))"

subsection \<open>Lemmas: keys and single lags\<close>

text \<open>
  A key ends in \<open>[n]\<close> with \<open>n\<close> a decimal, so the last opening bracket separates the topic
  from the partition, whatever the topic's name is.
\<close>

lemma bracket_free_suffix:
  assumes "xs @ CHR ''['' # us = ys @ CHR ''['' # vs" "CHR ''['' \<notin> set us" "CHR ''['' \<notin> set vs"
  shows "xs = ys \<and> us = vs"
  using assms
proof (induction xs arbitrary: ys)
  case Nil
  then show ?case by (cases ys) auto
next
  case (Cons x xs)
  then show ?case by (cases ys) auto
qed

lemma lag_key_inject [simp]: "lag_key t p = lag_key u q \<longleftrightarrow> t = u \<and> p = q"
proof
  assume "lag_key t p = lag_key u q"
  then have eq: "t @ CHR ''['' # (itoa (sint p) @ '']'') = u @ CHR ''['' # (itoa (sint q) @ '']'')"
    by (simp add: lag_key_def)
  have nb: "CHR ''['' \<notin> set (itoa i @ '']'')" for i
    using itoa_chars [of i] by (auto simp: is_itoa_char_def is_digit_def list_all_iff)
  from bracket_free_suffix [OF eq nb nb] have "t = u" "itoa (sint p) @ '']'' = itoa (sint q) @ '']''" by simp_all
  then show "t = u \<and> p = q" by (simp add: sint_inject)
qed simp

lemma partition_lag_nonneg [simp]: "0 \<le> sint (partition_lag l c)"
  by (simp add: partition_lag_def Let_def)

lemma partition_lag_exact:
  assumes "0 \<le> sint l"
  shows "sint (partition_lag l c) = (if 0 \<le> sint c then max 0 (sint l - sint c) else sint l)"
  using assms int64_range [of l] int64_range [of c]
  by (auto simp: partition_lag_def Let_def sint_diff_exact)

subsection \<open>Lemmas: the lag loop\<close>

text \<open>The two nested loops visit the pairs of topic and partition in the order of \<open>lag_pairs\<close>.\<close>

definition topic_pairs :: "(string \<times> int32 list) list \<Rightarrow> (string \<times> int32) list" where
  "topic_pairs m = concat (map (\<lambda>(t, ps). map (Pair t) ps) m)"

definition add_pair :: "(string \<Rightarrow> int32 \<Rightarrow> int64) \<Rightarrow> string \<times> int32 \<Rightarrow> lag_summary \<Rightarrow> lag_summary" where
  "add_pair L x s = (case x of (t, p) \<Rightarrow> add_lag (lag_key t p) (L t p) s)"

text \<open>The lag that one partition has when every call for it succeeds.\<close>

definition the_lag :: "int64 \<Rightarrow> health_client \<Rightarrow> offset_response \<Rightarrow> string \<Rightarrow> int32 \<Rightarrow> int64" where
  "the_lag newest client offsets t p =
     (case one_lag newest client offsets t p of Val l \<Rightarrow> l | _ \<Rightarrow> 0)"

definition lag_known :: "int64 \<Rightarrow> health_client \<Rightarrow> offset_response \<Rightarrow> string \<times> int32 \<Rightarrow> bool" where
  "lag_known newest client offsets x =
     (case one_lag newest client offsets (fst x) (snd x) of Val l \<Rightarrow> True | _ \<Rightarrow> False)"

lemma lag_partitions_Val:
  "lag_partitions n k offs t ps s = Val s' \<longleftrightarrow>
    (\<forall>p\<in>set ps. lag_known n k offs (t, p)) \<and> s' = fold (add_pair (the_lag n k offs)) (map (Pair t) ps) s"
proof (induction ps arbitrary: s)
  case (Cons p ps)
  show ?case
    by (cases "one_lag n k offs t p") (auto simp: Cons.IH lag_known_def the_lag_def add_pair_def)
qed auto

lemma lag_topics_Val:
  "lag_topics n k offs m s = Val s' \<longleftrightarrow>
    (\<forall>x\<in>set (topic_pairs m). lag_known n k offs x) \<and> s' = fold (add_pair (the_lag n k offs)) (topic_pairs m) s"
proof (induction m arbitrary: s)
  case Nil
  then show ?case by (auto simp: topic_pairs_def)
next
  case (Cons a m)
  obtain t ps where a: "a = (t, ps)" by (cases a)
  have pairs: "topic_pairs (a # m) = map (Pair t) ps @ topic_pairs m"
    by (simp add: topic_pairs_def a)
  show ?case
  proof (cases "\<forall>p\<in>set ps. lag_known n k offs (t, p)")
    case True
    then have "lag_partitions n k offs t ps s = Val (fold (add_pair (the_lag n k offs)) (map (Pair t) ps) s)"
      by (simp add: lag_partitions_Val)
    with True show ?thesis unfolding pairs by (auto simp: a Cons.IH)
  next
    case False
    then have "\<forall>s'. lag_partitions n k offs t ps s \<noteq> Val s'" by (simp add: lag_partitions_Val)
    then have "\<forall>s'. lag_topics n k offs (a # m) s \<noteq> Val s'"
      by (auto simp: a split: go_result.splits)
    with False show ?thesis unfolding pairs by auto
  qed
qed

lemma one_lag_no_panic: "one_lag n k offs t p \<noteq> Panic r"
  by (simp add: one_lag_def split: sum.splits option.splits)

lemma lag_partitions_no_panic: "lag_partitions n k offs t ps s \<noteq> Panic r"
  by (induction ps arbitrary: s) (auto simp: one_lag_no_panic split: go_result.splits)

lemma lag_topics_no_panic: "lag_topics n k offs m s \<noteq> Panic r"
  by (induction m arbitrary: s) (auto simp: lag_partitions_no_panic split: go_result.splits)

lemma topic_pairs_mset: "mset m = mset m' \<Longrightarrow> mset (topic_pairs m) = mset (topic_pairs m')"
proof -
  have "mset (topic_pairs m) = sum_mset (image_mset (\<lambda>(t, ps). mset (map (Pair t) ps)) (mset m))" for m
    by (induction m) (auto simp: topic_pairs_def)
  then show "mset m = mset m' \<Longrightarrow> mset (topic_pairs m) = mset (topic_pairs m')" by simp
qed

lemma fold_total: "ls_totalLag (fold (add_pair L) xs s) = ls_totalLag s + sum_list (map (case_prod L) xs)"
  by (induction xs arbitrary: s) (auto simp: add_pair_def add_lag_def algebra_simps)

lemma fold_max:
  "sint (ls_maxPartitionLag (fold (add_pair L) xs s)) =
    fold max (map (\<lambda>x. sint (case_prod L x)) xs) (sint (ls_maxPartitionLag s))"
  by (induction xs arbitrary: s) (auto simp: add_pair_def add_lag_def max_def)

lemma fold_lookup_out:
  "\<forall>x\<in>set xs. key \<noteq> lag_key (fst x) (snd x) \<Longrightarrow>
   gomap_lookup (ls_byPartition (fold (add_pair L) xs s)) key = gomap_lookup (ls_byPartition s) key"
  by (induction xs arbitrary: s) (auto simp: add_pair_def add_lag_def gomap.lookup_store)

lemma fold_lookup_in:
  "(t, p) \<in> set xs \<Longrightarrow>
   gomap_lookup (ls_byPartition (fold (add_pair L) xs s)) (lag_key t p) = Some (L t p)"
proof (induction xs arbitrary: s)
  case (Cons a xs)
  show ?case
  proof (cases "(t, p) \<in> set xs")
    case False
    with Cons.prems have "a = (t, p)" by simp
    moreover from False have "\<forall>x\<in>set xs. lag_key t p \<noteq> lag_key (fst x) (snd x)" by auto
    ultimately show ?thesis
      by (simp add: fold_lookup_out del: lag_key_inject)
        (simp add: add_pair_def add_lag_def gomap.lookup_store)
  qed (use Cons.IH in simp)
qed simp

lemma fold_lookup_mset:
  assumes "mset xs = mset ys"
  shows "gomap_lookup (ls_byPartition (fold (add_pair L) xs s)) =
    gomap_lookup (ls_byPartition (fold (add_pair L) ys s))"
proof
  fix key
  have sets: "set xs = set ys" using assms mset_eq_setD by blast
  show "gomap_lookup (ls_byPartition (fold (add_pair L) xs s)) key =
      gomap_lookup (ls_byPartition (fold (add_pair L) ys s)) key"
  proof (cases "\<exists>x\<in>set xs. key = lag_key (fst x) (snd x)")
    case True
    then obtain t p where "(t, p) \<in> set xs" "key = lag_key t p" by auto
    with sets show ?thesis by (simp add: fold_lookup_in)
  next
    case False
    with sets show ?thesis by (simp add: fold_lookup_out)
  qed
qed

lemma fold_max_Max:
  fixes a :: int
  shows "fold max xs a = Max (insert a (set xs))"
proof (induction xs arbitrary: a)
  case (Cons x xs)
  then show ?case by (cases "xs = []") (auto simp: max.assoc max.commute max.left_commute insert_commute)
qed simp

lemma fold_max_mset:
  fixes a :: int
  shows "mset xs = mset ys \<Longrightarrow> fold max xs a = fold max ys a"
  using mset_eq_setD by (metis fold_max_Max)

lemma fold_summary_mset:
  assumes "mset xs = mset ys"
  shows "ls_totalLag (fold (add_pair L) xs s) = ls_totalLag (fold (add_pair L) ys s)"
    and "ls_maxPartitionLag (fold (add_pair L) xs s) = ls_maxPartitionLag (fold (add_pair L) ys s)"
proof -
  show "ls_totalLag (fold (add_pair L) xs s) = ls_totalLag (fold (add_pair L) ys s)"
    using assms by (metis fold_total mset_map sum_mset_sum_list)
  have "sint (ls_maxPartitionLag (fold (add_pair L) xs s)) = sint (ls_maxPartitionLag (fold (add_pair L) ys s))"
    unfolding fold_max by (rule fold_max_mset) (simp add: assms)
  then show "ls_maxPartitionLag (fold (add_pair L) xs s) = ls_maxPartitionLag (fold (add_pair L) ys s)"
    by (simp add: sint_inject)
qed

lemma list_partitions_Val:
  "list_partitions k ts m = Val m' \<Longrightarrow>
    gomap_lookup m' = (\<lambda>t. if t \<in> set ts then (case hc_Partitions k t of Inr ps \<Rightarrow> Some ps | Inl e \<Rightarrow> None)
                           else gomap_lookup m t)
    \<and> (\<forall>t\<in>set ts. \<exists>ps. hc_Partitions k t = Inr ps) \<and> (gomap_wf m \<longrightarrow> gomap_wf m')"
proof (induction ts arbitrary: m)
  case (Cons t ts)
  then obtain ps where ps: "hc_Partitions k t = Inr ps" "list_partitions k ts (gomap_store t ps m) = Val m'"
    by (auto split: sum.splits)
  from Cons.IH [OF this(2)] ps(1) show ?case
    by (auto simp: gomap.lookup_store gomap.wf_store fun_eq_iff)
qed auto

lemma topic_pairs_set: "gomap_wf m \<Longrightarrow>
  (t, p) \<in> set (topic_pairs m) \<longleftrightarrow> (\<exists>ps. gomap_lookup m t = Some ps \<and> p \<in> set ps)"
  by (auto simp: topic_pairs_def gomap_lookup_def gomap_wf_def)

lemma calculateLag_Val:
  "calculateLag newest ord k a c = Val s \<longleftrightarrow>
    (\<exists>m offs. list_partitions k (chk_topics c) gomap_empty = Val m \<and>
       ha_ListConsumerGroupOffsets a (chk_groupID c) m = Inr offs \<and> or_Err offs = None \<and>
       (\<forall>x\<in>set (topic_pairs (ord m)). lag_known newest k offs x) \<and>
       s = fold (add_pair (the_lag newest k offs)) (topic_pairs (ord m)) empty_summary)"
  by (auto simp: calculateLag_def lag_topics_Val split: go_result.splits sum.splits option.splits)

lemma list_partitions_start:
  assumes "list_partitions k ts gomap_empty = Val m"
  shows "gomap_wf m" "gomap_lookup m t = Some ps \<longleftrightarrow> t \<in> set ts \<and> hc_Partitions k t = Inr ps"
    "t \<in> set ts \<Longrightarrow> \<exists>ps. hc_Partitions k t = Inr ps"
  using list_partitions_Val [OF assms]
  by (auto simp: gomap.wf_empty gomap.lookup_empty split: sum.splits)

lemma lag_known_iff:
  "lag_known newest k offs (t, p) \<longleftrightarrow> (\<exists>latest block. hc_GetOffset k t p newest = Inr latest \<and>
     or_GetBlock offs t p = Some block \<and> ob_Err block = None \<and>
     the_lag newest k offs t p = partition_lag latest (ob_Offset block))"
  by (auto simp: lag_known_def the_lag_def one_lag_def split: sum.splits option.splits)

lemma the_lag_nonneg: "0 \<le> sint (the_lag newest k offs t p)"
  by (auto simp: the_lag_def one_lag_def split: go_result.splits sum.splits option.splits)

lemma ordered_pairs_set:
  assumes "iteration_order ord"
  shows "set (topic_pairs (ord m)) = set (topic_pairs m)"
  using topic_pairs_mset [OF iteration_order_mset [OF assms]] mset_eq_setD by blast

lemma fold_byPartition:
  assumes "distinct xs" "\<forall>x\<in>set xs. lag_key (fst x) (snd x) \<notin> fst ` set (ls_byPartition s)"
  shows "ls_byPartition (fold (add_pair L) xs s) =
    ls_byPartition s @ map (\<lambda>x. (lag_key (fst x) (snd x), case_prod L x)) xs"
  using assms
proof (induction xs arbitrary: s)
  case (Cons x xs)
  obtain t p where x: "x = (t, p)" by (cases x)
  have snoc: "AList.update key v m = m @ [(key, v)]" if "key \<notin> fst ` set m" for key v m
    using that by (induction m) auto
  have "ls_byPartition (add_pair L x s) = ls_byPartition s @ [(lag_key t p, L t p)]"
    using Cons.prems x by (simp add: add_pair_def add_lag_def gomap_store_def snoc)
  moreover from this have "\<forall>y\<in>set xs. lag_key (fst y) (snd y) \<notin> fst ` set (ls_byPartition (add_pair L x s))"
  proof (intro ballI)
    fix y assume y: "y \<in> set xs"
    with Cons.prems x have "y \<noteq> (t, p)" "lag_key (fst y) (snd y) \<notin> fst ` set (ls_byPartition s)" by auto
    with calculation show "lag_key (fst y) (snd y) \<notin> fst ` set (ls_byPartition (add_pair L x s))"
      by (simp add: prod_eq_iff)
  qed
  ultimately show ?case using Cons by (simp add: x)
qed simp

lemma topic_pairs_distinct:
  "distinct (map fst m) \<Longrightarrow> \<forall>x\<in>set m. distinct (snd x) \<Longrightarrow> distinct (topic_pairs m)"
proof (induction m)
  case (Cons x m)
  obtain t ps where x: "x = (t, ps)" by (cases x)
  have "t \<notin> fst ` set m" using Cons.prems x by simp
  then have "\<forall>y\<in>set (topic_pairs m). fst y \<noteq> t" by (force simp: topic_pairs_def)
  moreover have "topic_pairs (x # m) = map (Pair t) ps @ topic_pairs m" by (simp add: topic_pairs_def x)
  ultimately show ?case using Cons x by (auto simp: distinct_map inj_on_def)
qed (simp add: topic_pairs_def)

lemma sum_list_no_overflow:
  fixes xs :: "int64 list"
  assumes "\<forall>x\<in>set xs. 0 \<le> sint x" "sum_list (map sint xs) < 2 ^ 63"
  shows "sint (sum_list xs) = sum_list (map sint xs)"
  using assms
proof (induction xs)
  case (Cons x xs)
  have nonneg: "0 \<le> sum_list (map sint xs)"
    using Cons.prems by (intro sum_list_nonneg) auto
  have "0 \<le> sint x" using Cons.prems(1) by simp
  with Cons nonneg have "sint (sum_list xs) = sum_list (map sint xs)" by simp
  with Cons.prems nonneg \<open>0 \<le> sint x\<close> show ?case by (simp add: sint_add_exact)
qed simp

subsection \<open>Lemmas: counting\<close>

definition assigned_of :: "assignment \<Rightarrow> int" where
  "assigned_of a = int (length (topic_pairs a))"

lemma count_topics_sum: "count_topics ts n = n + assigned_of ts"
  by (induction ts arbitrary: n) (auto simp: assigned_of_def topic_pairs_def)

lemma assigned_of_order: "iteration_order ord \<Longrightarrow> assigned_of (ord a) = assigned_of a"
  using topic_pairs_mset [OF iteration_order_mset, of ord a] by (metis assigned_of_def size_mset)

lemma count_members_Val:
  assumes "iteration_order ordT"
  shows "count_members dec ordT ms n = Val t \<longleftrightarrow>
    (\<forall>x\<in>set ms. \<exists>a. dec (snd x) = Inr (Some a)) \<and>
    t = n + sum_list (map (\<lambda>x. assigned_of (the (projr (dec (snd x))))) ms)"
proof (induction ms arbitrary: n)
  case (Cons x ms)
  obtain nm mb where x: "x = (nm, mb)" by (cases x)
  show ?case
    by (cases "dec mb") (auto simp: x Cons.IH count_topics_sum assigned_of_order [OF assms] split: option.splits)
qed auto

lemma count_members_Panic:
  "count_members dec ordT ms n = Panic r \<longleftrightarrow> r = nil_dereference \<and>
    (\<exists>pre nm mb post. ms = pre @ (nm, mb) # post \<and> dec mb = Inr None \<and>
       (\<forall>x\<in>set pre. \<exists>a. dec (snd x) = Inr (Some a)))"
proof (induction ms arbitrary: n)
  case (Cons x ms)
  obtain nm mb where x: "x = (nm, mb)" by (cases x)
  have split: "(\<exists>pre nm' mb' post. (nm, mb) # ms = pre @ (nm', mb') # post \<and> dec mb' = Inr None \<and>
        (\<forall>x\<in>set pre. \<exists>a. dec (snd x) = Inr (Some a))) \<longleftrightarrow>
      dec mb = Inr None \<or> (\<exists>a. dec mb = Inr (Some a)) \<and>
        (\<exists>pre nm' mb' post. ms = pre @ (nm', mb') # post \<and> dec mb' = Inr None \<and>
        (\<forall>x\<in>set pre. \<exists>a. dec (snd x) = Inr (Some a)))" (is "?L \<longleftrightarrow> ?R")
  proof
    assume ?L
    then obtain pre nm' mb' post where
      *: "(nm, mb) # ms = pre @ (nm', mb') # post" "dec mb' = Inr None"
         "\<forall>x\<in>set pre. \<exists>a. dec (snd x) = Inr (Some a)" by blast
    show ?R
    proof (cases pre)
      case (Cons y pre')
      with * have "dec mb = Inr None \<or> (\<exists>a. dec mb = Inr (Some a))" "ms = pre' @ (nm', mb') # post"
        "\<forall>x\<in>set pre'. \<exists>a. dec (snd x) = Inr (Some a)" by auto
      with *(2) show ?thesis by blast
    qed (use * in simp)
  next
    assume ?R
    then show ?L
    proof
      assume "dec mb = Inr None"
      then show ?L by (intro exI [of _ "[]"] exI [of _ nm] exI [of _ mb] exI [of _ ms]) simp
    next
      assume R: "(\<exists>a. dec mb = Inr (Some a)) \<and> (\<exists>pre nm' mb' post. ms = pre @ (nm', mb') # post \<and>
        dec mb' = Inr None \<and> (\<forall>x\<in>set pre. \<exists>a. dec (snd x) = Inr (Some a)))"
      then obtain pre nm' mb' post where "ms = pre @ (nm', mb') # post" "dec mb' = Inr None"
        "\<forall>x\<in>set pre. \<exists>a. dec (snd x) = Inr (Some a)" by blast
      with R show ?L
        by (intro exI [of _ "(nm, mb) # pre"] exI [of _ nm'] exI [of _ mb'] exI [of _ post]) simp
    qed
  qed
  show ?case
    unfolding x split by (cases "dec mb") (auto simp: Cons.IH split: option.splits)
qed auto

subsection \<open>Properties\<close>

text \<open>
  A group with one member and two partitions, committed up to 7 of 10 and up to 5 of 5; the
  witnesses evaluate the checker on it.
\<close>

definition sample_client :: health_client where
  "sample_client = \<lparr>hc_Partitions = (\<lambda>t. Inr [0, 1]),
     hc_GetOffset = (\<lambda>t p time. Inr (if p = 0 then 10 else 5)), hc_Close = None\<rparr>"

definition sample_offsets :: offset_response where
  "sample_offsets = \<lparr>or_Err = None,
     or_GetBlock = (\<lambda>t p. Some \<lparr>ob_Offset = (if p = 0 then 7 else 5), ob_Err = None\<rparr>)\<rparr>"

definition sample_admin :: "nat health_admin" where
  "sample_admin = \<lparr>ha_DescribeConsumerGroups = (\<lambda>gs. Inr [Some \<lparr>gd_Err = None, gd_State = ''Stable'',
       gd_Members = [(''m1'', 0)]\<rparr>]),
     ha_ListConsumerGroupOffsets = (\<lambda>g m. Inr sample_offsets), ha_Close = None\<rparr>"

definition sample_checker :: "nat health_checker" where
  "sample_checker = \<lparr>chk_name = ''g'', chk_groupID = ''g'', chk_topics = [''rides''], chk_required = True,
     chk_maxLag = 100, chk_client = Some sample_client, chk_admin = Some sample_admin,
     chk_decodeAssignment = (\<lambda>m. Inr (Some [(''rides'', [0, 1])]))\<rparr>"

lemmas sample_defs = sample_client_def sample_offsets_def sample_admin_def sample_checker_def

lemma sample_lag:
  "calculateLag (- 1) (\<lambda>xs. xs) sample_client sample_admin sample_checker =
    Val \<lparr>ls_totalLag = 3, ls_maxPartitionLag = 3, ls_byPartition = [(''rides[0]'', 3), (''rides[1]'', 0)]\<rparr>"
  by (simp add: calculateLag_def sample_defs empty_summary_def gomap_empty_def gomap_store_def
      one_lag_def partition_lag_def add_lag_def lag_key_def itoa_def Let_def nat_digits.simps)
    (simp add: digit_char_def char_of_def bit_Suc_0_iff)

text \<open>
  C30: A check answers healthy exactly when the checker is fully constructed, the context is
  alive at each of the four points where it is tested, the group exists and is stable, it has
  members that hold at least one partition, the lag can be computed, and the total lag does not
  exceed a positive threshold. In every other case the answer is not healthy.
\<close>

theorem Check_healthy_iff:
  "(\<exists>r. checker_Check newest ordM ordT ord (Some ctxErr) (Some c) = Val r \<and> hr_status r = Healthy) \<longleftrightarrow>
   (\<exists>k a g n s. chk_client c = Some k \<and> chk_admin c = Some a \<and>
      describeGroup a c = Val g \<and> gd_State g = ''Stable'' \<and> gd_Members g \<noteq> [] \<and>
      countAssignedPartitions ordM ordT c g = Val n \<and> n \<noteq> 0 \<and>
      calculateLag newest ord k a c = Val s \<and>
      (sint (chk_maxLag c) \<le> 0 \<or> sint (ls_totalLag s) \<le> sint (chk_maxLag c)) \<and>
      ctxErr 0 = None \<and> ctxErr 1 = None \<and> ctxErr 2 = None \<and> ctxErr 3 = None)"
  by (auto simp: checker_Check_def evaluateHealth_def NewUnhealthyResult_def NewDegradedResult_def
      NewHealthyResult_def WithDetails_def split: option.splits go_result.splits)

text \<open>
  C31: When the lag computation succeeds, every configured topic was listed, the committed
  offsets of the checker's group were fetched for exactly the partitions listed, without an
  error, and for each partition the summary holds, under the key \<open>topic[partition]\<close>, its newest
  offset minus the offset committed for this very partition, never negative, and the newest
  offset itself when nothing was committed (a negative committed offset). The map has no other keys.
\<close>

theorem calculateLag_by_partition:
  assumes "iteration_order ord" "calculateLag newest ord k a c = Val s"
  shows "\<exists>m offs.
    (\<forall>t ps. gomap_lookup m t = Some ps \<longleftrightarrow> t \<in> set (chk_topics c) \<and> hc_Partitions k t = Inr ps) \<and>
    ha_ListConsumerGroupOffsets a (chk_groupID c) m = Inr offs \<and> or_Err offs = None \<and>
    (\<forall>t\<in>set (chk_topics c). \<exists>ps. hc_Partitions k t = Inr ps \<and>
       (\<forall>p\<in>set ps. \<exists>latest block. hc_GetOffset k t p newest = Inr latest \<and>
          or_GetBlock offs t p = Some block \<and> ob_Err block = None \<and>
          gomap_lookup (ls_byPartition s) (lag_key t p) = Some (partition_lag latest (ob_Offset block)) \<and>
          (0 \<le> sint latest \<longrightarrow> sint (partition_lag latest (ob_Offset block)) =
             (if 0 \<le> sint (ob_Offset block) then max 0 (sint latest - sint (ob_Offset block)) else sint latest)))) \<and>
    (\<forall>key. gomap_lookup (ls_byPartition s) key \<noteq> None \<longrightarrow>
       (\<exists>t p ps. key = lag_key t p \<and> t \<in> set (chk_topics c) \<and> hc_Partitions k t = Inr ps \<and> p \<in> set ps))"
proof -
  from assms(2) obtain m offs where m: "list_partitions k (chk_topics c) gomap_empty = Val m"
    and offs: "ha_ListConsumerGroupOffsets a (chk_groupID c) m = Inr offs" "or_Err offs = None"
    and known: "\<forall>x\<in>set (topic_pairs (ord m)). lag_known newest k offs x"
    and s: "s = fold (add_pair (the_lag newest k offs)) (topic_pairs (ord m)) empty_summary"
    unfolding calculateLag_Val by blast
  note sp = list_partitions_start [OF m]
  have pairs: "(t, p) \<in> set (topic_pairs (ord m)) \<longleftrightarrow>
      t \<in> set (chk_topics c) \<and> (\<exists>ps. hc_Partitions k t = Inr ps \<and> p \<in> set ps)" for t p
    using sp(1) by (auto simp: ordered_pairs_set [OF assms(1)] topic_pairs_set sp(2))
  have listed: "\<exists>ps. hc_Partitions k t = Inr ps \<and>
      (\<forall>p\<in>set ps. \<exists>latest block. hc_GetOffset k t p newest = Inr latest \<and>
         or_GetBlock offs t p = Some block \<and> ob_Err block = None \<and>
         gomap_lookup (ls_byPartition s) (lag_key t p) = Some (partition_lag latest (ob_Offset block)))"
    if t: "t \<in> set (chk_topics c)" for t
  proof -
    from t obtain ps where ps: "hc_Partitions k t = Inr ps" using sp(3) by blast
    have "\<exists>latest block. hc_GetOffset k t p newest = Inr latest \<and> or_GetBlock offs t p = Some block \<and>
        ob_Err block = None \<and>
        gomap_lookup (ls_byPartition s) (lag_key t p) = Some (partition_lag latest (ob_Offset block))"
      if "p \<in> set ps" for p
    proof -
      from t ps that have mem: "(t, p) \<in> set (topic_pairs (ord m))" by (simp add: pairs)
      with known have "lag_known newest k offs (t, p)" by blast
      with mem show ?thesis by (auto simp: lag_known_iff s fold_lookup_in)
    qed
    with ps show ?thesis by blast
  qed
  have keys: "\<exists>t p ps. key = lag_key t p \<and> t \<in> set (chk_topics c) \<and> hc_Partitions k t = Inr ps \<and> p \<in> set ps"
    if key: "gomap_lookup (ls_byPartition s) key \<noteq> None" for key
  proof -
    have "gomap_lookup (ls_byPartition empty_summary) key = None"
      by (simp add: empty_summary_def gomap.lookup_empty)
    with key obtain x where "x \<in> set (topic_pairs (ord m))" "key = lag_key (fst x) (snd x)"
      unfolding s using fold_lookup_out [of "topic_pairs (ord m)" key "the_lag newest k offs" empty_summary]
      by metis
    with pairs [of "fst x" "snd x"] show ?thesis by auto
  qed
  from sp(2) offs listed keys partition_lag_exact show ?thesis
    by (intro exI [of _ m] exI [of _ offs]) meson
qed

theorem calculateLag_by_partition_witness:
  "\<exists>m offs block. ha_ListConsumerGroupOffsets sample_admin (chk_groupID sample_checker) m = Inr offs \<and>
     or_GetBlock offs ''rides'' 1 = Some block \<and> ob_Err block = None \<and>
     gomap_lookup [(''rides[0]'', 3), (''rides[1]'', 0)] (lag_key ''rides'' 1) = Some (partition_lag 5 (ob_Offset block))"
proof -
  have ps: "hc_Partitions sample_client ''rides'' = Inr [0, 1]" "hc_GetOffset sample_client ''rides'' 1 (- 1) = Inr 5"
    by (simp_all add: sample_client_def)
  have rides: "''rides'' \<in> set (chk_topics sample_checker)" by (simp add: sample_checker_def)
  from calculateLag_by_partition [OF iteration_order_id sample_lag] obtain m offs where
    offs: "ha_ListConsumerGroupOffsets sample_admin (chk_groupID sample_checker) m = Inr offs" and
    all: "\<forall>t\<in>set (chk_topics sample_checker). \<exists>ps. hc_Partitions sample_client t = Inr ps \<and>
       (\<forall>p\<in>set ps. \<exists>latest block. hc_GetOffset sample_client t p (- 1) = Inr latest \<and>
          or_GetBlock offs t p = Some block \<and> ob_Err block = None \<and>
          gomap_lookup [(''rides[0]'', 3), (''rides[1]'', 0)] (lag_key t p) = Some (partition_lag latest (ob_Offset block)))"
    by fastforce
  from bspec [OF all rides] ps obtain block where "or_GetBlock offs ''rides'' 1 = Some block" "ob_Err block = None"
    "gomap_lookup [(''rides[0]'', 3), (''rides[1]'', 0)] (lag_key ''rides'' 1) = Some (partition_lag 5 (ob_Offset block))"
    by auto
  with offs show ?thesis by blast
qed

text \<open>
  C33: The outcome of the lag computation does not depend on the order in which the Go map of
  topics is visited: if it succeeds in one order it succeeds in all of them, with the same
  total, the same maximum and the same lag for every partition.
\<close>

theorem calculateLag_order_independent:
  assumes "iteration_order ord" "iteration_order ord'" "calculateLag newest ord k a c = Val s"
  shows "\<exists>s'. calculateLag newest ord' k a c = Val s' \<and> ls_totalLag s' = ls_totalLag s \<and>
    ls_maxPartitionLag s' = ls_maxPartitionLag s \<and>
    gomap_lookup (ls_byPartition s') = gomap_lookup (ls_byPartition s)"
proof -
  from assms(3) obtain m offs where m: "list_partitions k (chk_topics c) gomap_empty = Val m"
    "ha_ListConsumerGroupOffsets a (chk_groupID c) m = Inr offs" "or_Err offs = None"
    and known: "\<forall>x\<in>set (topic_pairs (ord m)). lag_known newest k offs x"
    and s: "s = fold (add_pair (the_lag newest k offs)) (topic_pairs (ord m)) empty_summary"
    unfolding calculateLag_Val by blast
  have eq: "mset (topic_pairs (ord' m)) = mset (topic_pairs (ord m))"
    by (rule topic_pairs_mset) (simp add: iteration_order_mset assms(1,2))
  with known have "\<forall>x\<in>set (topic_pairs (ord' m)). lag_known newest k offs x"
    by (metis mset_eq_setD)
  with m have "calculateLag newest ord' k a c =
      Val (fold (add_pair (the_lag newest k offs)) (topic_pairs (ord' m)) empty_summary)"
    unfolding calculateLag_Val by blast
  then show ?thesis
    using fold_summary_mset [OF eq] fold_lookup_mset [OF eq] s by blast
qed

theorem calculateLag_order_independent_witness:
  "\<exists>s'. calculateLag (- 1) rev sample_client sample_admin sample_checker = Val s' \<and> ls_totalLag s' = 3"
  using calculateLag_order_independent [OF iteration_order_id iteration_order_rev sample_lag] by auto

text \<open>
  C32: With no partition listed twice, the summary agrees with itself: the maximum is the largest
  lag of the map (0 if it is empty), and, as long as the exact sum fits in 63 bits, the total is
  that sum and is at least the maximum.
\<close>

theorem lag_summary_consistent:
  assumes "iteration_order ord" "calculateLag newest ord k a c = Val s"
    and "\<forall>t ps. hc_Partitions k t = Inr ps \<longrightarrow> distinct ps"
    and "sum_list (map (\<lambda>x. sint (snd x)) (ls_byPartition s)) < 2 ^ 63"
  shows "sint (ls_totalLag s) = sum_list (map (\<lambda>x. sint (snd x)) (ls_byPartition s)) \<and>
    sint (ls_maxPartitionLag s) = Max (insert 0 ((\<lambda>x. sint (snd x)) ` set (ls_byPartition s))) \<and>
    sint (ls_maxPartitionLag s) \<le> sint (ls_totalLag s)"
proof -
  from assms(2) obtain m offs where m: "list_partitions k (chk_topics c) gomap_empty = Val m"
    and s: "s = fold (add_pair (the_lag newest k offs)) (topic_pairs (ord m)) empty_summary"
    unfolding calculateLag_Val by blast
  let ?xs = "topic_pairs (ord m)" and ?L = "the_lag newest k offs"
  let ?lags = "map (case_prod ?L) ?xs"
  note sp = list_partitions_start [OF m]
  have "distinct (topic_pairs m)"
    using sp(1,2) assms(3) by (intro topic_pairs_distinct) (auto simp: gomap_wf_def gomap_lookup_def)
  then have "distinct ?xs"
    using topic_pairs_mset [OF iteration_order_mset [OF assms(1)]] by (metis mset_eq_imp_distinct_iff)
  then have by_p: "ls_byPartition s = map (\<lambda>x. (lag_key (fst x) (snd x), case_prod ?L x)) ?xs"
    by (simp add: s fold_byPartition empty_summary_def gomap_empty_def)
  then have snds: "map (\<lambda>x. sint (snd x)) (ls_byPartition s) = map sint ?lags" by simp
  have nonneg: "\<forall>x\<in>set ?lags. 0 \<le> sint x" using the_lag_nonneg by auto
  have tot: "ls_totalLag s = sum_list ?lags"
    by (simp add: s fold_total empty_summary_def)
  have 1: "sint (ls_totalLag s) = sum_list (map sint ?lags)"
    unfolding tot using sum_list_no_overflow nonneg assms(4) snds by metis
  have 2: "sint (ls_maxPartitionLag s) = Max (insert 0 (set (map sint ?lags)))"
    by (simp add: s fold_max fold_max_Max empty_summary_def image_image case_prod_unfold)
  have "\<forall>x\<in>set (map sint ?lags). x \<le> sum_list (map sint ?lags)"
    using nonneg by (intro ballI member_le_sum_list) auto
  then have "Max (insert 0 (set (map sint ?lags))) \<le> sum_list (map sint ?lags)"
    using nonneg by (subst Max_le_iff) (auto intro!: sum_list_nonneg)
  with 1 2 snds show ?thesis by (metis set_map)
qed

theorem lag_summary_consistent_witness:
  "\<exists>s. calculateLag (- 1) (\<lambda>xs. xs) sample_client sample_admin sample_checker = Val s \<and>
     sint (ls_totalLag s) = 3 \<and> sint (ls_maxPartitionLag s) \<le> sint (ls_totalLag s)"
  using lag_summary_consistent [OF iteration_order_id sample_lag]
  by (simp add: sample_client_def sample_lag [unfolded sample_client_def])

text \<open>
  C34: The number of assigned partitions is the sum over the members, in whatever order the
  members and the topics are visited, provided every assignment decodes; the checker panics
  exactly when a member whose assignment decodes to nil without an error is reached, before any
  decoding error.
\<close>

theorem assigned_partitions_counted:
  assumes "iteration_order ordM" "iteration_order ordT"
  shows "((\<exists>n. countAssignedPartitions ordM ordT c g = Val n) \<longleftrightarrow>
      (\<forall>x\<in>set (gd_Members g). \<exists>a. chk_decodeAssignment c (snd x) = Inr (Some a))) \<and>
    (\<forall>n. countAssignedPartitions ordM ordT c g = Val n \<longrightarrow>
      n = (\<Sum>x\<leftarrow>gd_Members g. case chk_decodeAssignment c (snd x) of
             Inr (Some a) \<Rightarrow> int (length (concat (map snd a))) | _ \<Rightarrow> 0)) \<and>
    ((\<exists>r. countAssignedPartitions ordM ordT c g = Panic r) \<longleftrightarrow>
      (\<exists>pre x post. ordM (gd_Members g) = pre @ x # post \<and> chk_decodeAssignment c (snd x) = Inr None \<and>
         (\<forall>y\<in>set pre. \<exists>a. chk_decodeAssignment c (snd y) = Inr (Some a))))"
proof (intro conjI allI impI)
  show "(\<exists>n. countAssignedPartitions ordM ordT c g = Val n) \<longleftrightarrow>
      (\<forall>x\<in>set (gd_Members g). \<exists>a. chk_decodeAssignment c (snd x) = Inr (Some a))"
    by (simp add: countAssignedPartitions_def count_members_Val [OF assms(2)] iteration_order_set [OF assms(1)])
  show "(\<exists>r. countAssignedPartitions ordM ordT c g = Panic r) \<longleftrightarrow>
      (\<exists>pre x post. ordM (gd_Members g) = pre @ x # post \<and> chk_decodeAssignment c (snd x) = Inr None \<and>
         (\<forall>y\<in>set pre. \<exists>a. chk_decodeAssignment c (snd y) = Inr (Some a)))"
    by (simp add: countAssignedPartitions_def count_members_Panic)
next
  fix n assume "countAssignedPartitions ordM ordT c g = Val n"
  then have ok: "\<forall>x\<in>set (gd_Members g). \<exists>a. chk_decodeAssignment c (snd x) = Inr (Some a)"
    and n: "n = (\<Sum>x\<leftarrow>ordM (gd_Members g). assigned_of (the (projr (chk_decodeAssignment c (snd x)))))"
    by (simp_all add: countAssignedPartitions_def count_members_Val [OF assms(2)] iteration_order_set [OF assms(1)])
  have len: "assigned_of a = int (length (concat (map snd a)))" for a
    by (induction a) (auto simp: assigned_of_def topic_pairs_def)
  have "n = (\<Sum>x\<leftarrow>gd_Members g. assigned_of (the (projr (chk_decodeAssignment c (snd x)))))"
    unfolding n by (rule sum_list_order [OF assms(1)])
  also have "\<dots> = (\<Sum>x\<leftarrow>gd_Members g. case chk_decodeAssignment c (snd x) of
             Inr (Some a) \<Rightarrow> int (length (concat (map snd a))) | _ \<Rightarrow> 0)"
    using ok by (intro arg_cong [of _ _ sum_list] map_cong) (auto simp: len)
  finally show "n = (\<Sum>x\<leftarrow>gd_Members g. case chk_decodeAssignment c (snd x) of
             Inr (Some a) \<Rightarrow> int (length (concat (map snd a))) | _ \<Rightarrow> 0)" .
qed

theorem assigned_partitions_counted_witness:
  "\<exists>n. countAssignedPartitions rev rev sample_checker
     \<lparr>gd_Err = None, gd_State = ''Stable'', gd_Members = [(''m1'', 0), (''m2'', 1)]\<rparr> = Val n"
proof -
  have "chk_decodeAssignment sample_checker m = Inr (Some [(''rides'', [0, 1])])" for m
    by (simp add: sample_checker_def)
  then show ?thesis
    by (subst conjunct1 [OF assigned_partitions_counted [OF iteration_order_rev iteration_order_rev]]) blast
qed

text \<open>The client that construction opens, if it gets that far.\<close>

definition opened_client ::
  "(string list \<Rightarrow> 'sc \<Rightarrow> go_error + health_client) \<Rightarrow> 'sc \<Rightarrow> 'sc group_health_config option \<Rightarrow> health_client option" where
  "opened_client NewClient dflt cfgp = (case cfgp of
     None \<Rightarrow> None
   | Some cfg \<Rightarrow>
      if ghc_Brokers cfg = [] \<or> ghc_GroupID cfg = [] \<or> ghc_Topics cfg = [] then None
      else (case NewClient (ghc_Brokers cfg) (case ghc_SaramaConfig cfg of None \<Rightarrow> dflt | Some sc \<Rightarrow> sc) of
              Inl _ \<Rightarrow> None | Inr client \<Rightarrow> Some client))"

lemma NewGroupHealthChecker_cases:
  fixes NewC newest oldest
  defines "dflt \<equiv> consumer_toSaramaConfig NewC newest oldest consumer_DefaultConfig"
  shows "fst (NewGroupHealthChecker NewClient NewAdmin dec NewC newest oldest cfgp) =
     (case (opened_client NewClient dflt cfgp, snd (NewGroupHealthChecker NewClient NewAdmin dec NewC newest oldest cfgp)) of
        (Some client, Inl _) \<Rightarrow> [client] | _ \<Rightarrow> [])"
  "snd (NewGroupHealthChecker NewClient NewAdmin dec NewC newest oldest cfgp) = Inr c \<Longrightarrow>
     chk_client c = opened_client NewClient dflt cfgp \<and> chk_client c \<noteq> None \<and> chk_admin c \<noteq> None"
proof -
  let ?sc = "\<lambda>cfg. case ghc_SaramaConfig cfg of None \<Rightarrow> dflt | Some sc \<Rightarrow> sc"
  show "fst (NewGroupHealthChecker NewClient NewAdmin dec NewC newest oldest cfgp) =
     (case (opened_client NewClient dflt cfgp, snd (NewGroupHealthChecker NewClient NewAdmin dec NewC newest oldest cfgp)) of
        (Some client, Inl _) \<Rightarrow> [client] | _ \<Rightarrow> [])"
    unfolding NewGroupHealthChecker_def opened_client_def Let_def dflt_def [symmetric]
    by (cases cfgp; simp; cases "NewClient (ghc_Brokers (the cfgp)) (?sc (the cfgp))";
        simp; cases "NewAdmin (projr (NewClient (ghc_Brokers (the cfgp)) (?sc (the cfgp))))"; simp)
  show "snd (NewGroupHealthChecker NewClient NewAdmin dec NewC newest oldest cfgp) = Inr c \<Longrightarrow>
     chk_client c = opened_client NewClient dflt cfgp \<and> chk_client c \<noteq> None \<and> chk_admin c \<noteq> None"
    unfolding NewGroupHealthChecker_def opened_client_def Let_def dflt_def [symmetric]
    by (cases cfgp; simp split: if_splits; cases "NewClient (ghc_Brokers (the cfgp)) (?sc (the cfgp))";
        simp; cases "NewAdmin (projr (NewClient (ghc_Brokers (the cfgp)) (?sc (the cfgp))))"; auto)
qed

lemma checker_Close_both:
  "chk_client c = Some client \<Longrightarrow> chk_admin c = Some admin \<Longrightarrow>
    fst (checker_Close (Some c)) = [CloseAdmin, CloseClient] \<and>
    (snd (checker_Close (Some c)) = None \<longleftrightarrow> ha_Close admin = None \<and> hc_Close client = None) \<and>
    (\<forall>e err. snd (checker_Close (Some c)) = Some e \<and> (ha_Close admin = Some err \<or> hc_Close client = Some err)
       \<longrightarrow> errors_is e err)"
  by (cases "ha_Close admin"; cases "hc_Close client")
    (simp_all add: checker_Close_def errors_join_def List.map_filter_def)

text \<open>
  No Kafka connection is leaked: a constructor that fails has closed again the client it
  opened (and nothing else), and a checker that was constructed closes both its admin and its
  client, the client even when closing the admin fails, and reports every failure.
\<close>

theorem checker_releases_connections:
  fixes NewClient :: "string list \<Rightarrow> 'a sarama_consumer_config_scheme \<Rightarrow> go_error + health_client"
  shows "let opened = opened_client NewClient (consumer_toSaramaConfig NewC newest oldest consumer_DefaultConfig) cfgp in
   case NewGroupHealthChecker NewClient NewAdmin dec NewC newest oldest cfgp of
     (released, Inl e) \<Rightarrow> released = (case opened of None \<Rightarrow> [] | Some k \<Rightarrow> [k])
   | (released, Inr c) \<Rightarrow> released = [] \<and> chk_client c = opened \<and>
       (\<exists>client admin. chk_client c = Some client \<and> chk_admin c = Some admin \<and>
          fst (checker_Close (Some c)) = [CloseAdmin, CloseClient] \<and>
          (snd (checker_Close (Some c)) = None \<longleftrightarrow> ha_Close admin = None \<and> hc_Close client = None) \<and>
          (\<forall>e err. snd (checker_Close (Some c)) = Some e \<and> (ha_Close admin = Some err \<or> hc_Close client = Some err)
             \<longrightarrow> errors_is e err))"
proof (cases "NewGroupHealthChecker NewClient NewAdmin dec NewC newest oldest cfgp")
  case (Pair released r)
  note cs = NewGroupHealthChecker_cases [where NewClient = NewClient and NewAdmin = NewAdmin and dec = dec and NewC = NewC
      and newest = newest and oldest = oldest and cfgp = cfgp, unfolded Pair fst_conv snd_conv]
  let ?opened = "opened_client NewClient (consumer_toSaramaConfig NewC newest oldest consumer_DefaultConfig) cfgp"
  show ?thesis
  proof (cases r)
    case (Inl e)
    with Pair cs(1) show ?thesis by (simp add: Let_def split: option.splits)
  next
    case (Inr c)
    with cs(2) obtain client admin where k: "chk_client c = Some client" "chk_admin c = Some admin"
        "chk_client c = ?opened"
      by blast
    from cs(1) Inr have "released = []" by (simp split: option.splits)
    with k checker_Close_both [OF k(1,2)] Pair Inr show ?thesis by (simp add: Let_def)
  qed
qed

definition sample_group_config :: "sarama_consumer_config" where
  "sample_group_config = \<lparr>sc_Session_Timeout = 10, sc_Heartbeat_Interval = 3, sc_MaxProcessingTime = 1,
     sc_Offsets_Initial = -1, sc_AutoCommit_Enable = True, sc_Return_Errors = False\<rparr>"

definition sample_health_config :: "sarama_consumer_config group_health_config" where
  "sample_health_config = \<lparr>ghc_Name = [], ghc_Brokers = [''b''], ghc_GroupID = ''g'',
     ghc_Topics = [''t''], ghc_Required = True, ghc_MaxLag = 0, ghc_SaramaConfig = None\<rparr>"

theorem checker_releases_connections_witness:
  "fst (NewGroupHealthChecker (\<lambda>b sc. Inr sample_client) (\<lambda>k. Inl (ErrValue ''kafka'' ''ErrX'' ''x''))
      (\<lambda>m :: nat. Inr None) sample_group_config (-1) (-2) (Some sample_health_config)) = [sample_client]"
  using checker_releases_connections [where NewClient = "\<lambda>b sc. Inr sample_client"
      and NewAdmin = "\<lambda>k. Inl (ErrValue ''kafka'' ''ErrX'' ''x'')"
      and dec = "\<lambda>m :: nat. Inr None" and NewC = sample_group_config and newest = "-1" and oldest = "-2"
      and cfgp = "Some sample_health_config"]
  by (simp add: NewGroupHealthChecker_def sample_health_config_def opened_client_def)

end
