(* ===== verification/Producer.thy ===== *)
theory Producer
  imports Topics Envelope
begin

section \<open>The producer (producer/errors.go, producer/config.go, producer/producer.go)\<close>

text \<open>
  The synchronous Kafka producer is an interface of the code: a record of functions over the
  client's own state \<open>'k\<close>. The producer records, in order, what it does to the outside: the
  messages it hands to the client with their outcome, the closing of the client and its log
  lines. The values of the Kafka client's enumerations (acknowledgment level, compression,
  protocol version) are of types \<open>'a\<close>, \<open>'c\<close>, \<open>'v\<close>, the marshaller of an envelope is an argument.
\<close>

subsection \<open>Errors\<close>

definition producer_ErrNoBrokers :: go_error where
  [go_err]: "producer_ErrNoBrokers = ErrValue ''producer'' ''ErrNoBrokers'' ''no brokers configured''"

definition producer_ErrNoClientID :: go_error where
  [go_err]: "producer_ErrNoClientID = ErrValue ''producer'' ''ErrNoClientID'' ''client ID is required''"

definition producer_ErrIdempotentRequiresWaitForAll :: go_error where
  [go_err]: "producer_ErrIdempotentRequiresWaitForAll = ErrValue ''producer'' ''ErrIdempotentRequiresWaitForAll''
     ''idempotent producer requires RequiredAcks = WaitForAll''"

definition producer_ErrProducerClosed :: go_error where
  [go_err]: "producer_ErrProducerClosed = ErrValue ''producer'' ''ErrProducerClosed'' ''producer is closed''"

definition producer_ErrNilEnvelope :: go_error where
  [go_err]: "producer_ErrNilEnvelope = ErrValue ''producer'' ''ErrNilEnvelope'' ''envelope cannot be nil''"

definition producer_ErrInvalidEnvelope :: go_error where
  [go_err]: "producer_ErrInvalidEnvelope = ErrValue ''producer'' ''ErrInvalidEnvelope'' ''invalid envelope''"

definition producer_ErrNoTopicForEventType :: go_error where
  [go_err]: "producer_ErrNoTopicForEventType =
     ErrValue ''producer'' ''ErrNoTopicForEventType'' ''no topic for event type''"

definition producer_ErrBatchLengthMismatch :: go_error where
  [go_err]: "producer_ErrBatchLengthMismatch = ErrValue ''producer'' ''ErrBatchLengthMismatch''
     ''envelopes and partition keys must have the same length''"

subsection \<open>Configuration\<close>

definition go_millisecond :: int where "go_millisecond = 1000000"

record ('a, 'c, 'v) producer_config =
  pc_Brokers :: "string list"
  pc_ClientID :: string
  pc_RequiredAcks :: 'a
  pc_MaxRetries :: int
  pc_RetryBackoff :: int
  pc_BatchSize :: int
  pc_Linger :: int
  pc_Compression :: 'c
  pc_Idempotent :: bool
  pc_Timeout :: int
  pc_Version :: 'v

text \<open>The Kafka client's constants that the code names.\<close>

record ('a, 'c, 'v) sarama_consts =
  WaitForAll :: 'a
  CompressionSnappy :: 'c
  V0_11_0_0 :: 'v

definition producer_DefaultConfig :: "('a, 'c, 'v) sarama_consts \<Rightarrow> ('a, 'c, 'v) producer_config" where
  "producer_DefaultConfig k =
     \<lparr>pc_Brokers = [], pc_ClientID = [], pc_RequiredAcks = WaitForAll k, pc_MaxRetries = 3,
      pc_RetryBackoff = 100 * go_millisecond, pc_BatchSize = 16 * 1024, pc_Linger = 5 * go_millisecond,
      pc_Compression = CompressionSnappy k, pc_Idempotent = True, pc_Timeout = 10000 * go_millisecond,
      pc_Version = V0_11_0_0 k\<rparr>"

definition producer_Config_Validate ::
  "('a, 'c, 'v) sarama_consts \<Rightarrow> ('a, 'c, 'v) producer_config \<Rightarrow> go_error option" where
  "producer_Config_Validate k c =
     (if pc_Brokers c = [] then Some producer_ErrNoBrokers
      else if pc_ClientID c = [] then Some producer_ErrNoClientID
      else if pc_Idempotent c \<and> pc_RequiredAcks c \<noteq> WaitForAll k then Some producer_ErrIdempotentRequiresWaitForAll
      else None)"

text \<open>
  The fields of the client's configuration that the code sets; its other fields are the
  extension, its fresh value and its own validation are parameters.
\<close>

record ('a, 'c, 'v) sarama_producer_config =
  sp_ClientID :: string
  sp_Version :: 'v
  sp_RequiredAcks :: 'a
  sp_Retry_Max :: int
  sp_Retry_Backoff :: int
  sp_Flush_Bytes :: int
  sp_Flush_Frequency :: int
  sp_Compression :: 'c
  sp_Idempotent :: bool
  sp_Timeout :: int
  sp_Return_Successes :: bool
  sp_Return_Errors :: bool
  sp_Net_MaxOpenRequests :: int

definition producer_toSaramaConfig ::
  "('a, 'c, 'v, 'x) sarama_producer_config_scheme \<Rightarrow>
   (('a, 'c, 'v, 'x) sarama_producer_config_scheme \<Rightarrow> go_error option) \<Rightarrow>
   ('a, 'c, 'v) producer_config \<Rightarrow> go_error + ('a, 'c, 'v, 'x) sarama_producer_config_scheme" where
  "producer_toSaramaConfig NewConfig sarama_Validate c =
     (let cfg = NewConfig\<lparr>sp_ClientID := pc_ClientID c, sp_Version := pc_Version c,
            sp_RequiredAcks := pc_RequiredAcks c, sp_Retry_Max := pc_MaxRetries c,
            sp_Retry_Backoff := pc_RetryBackoff c, sp_Flush_Bytes := pc_BatchSize c,
            sp_Flush_Frequency := pc_Linger c, sp_Compression := pc_Compression c,
            sp_Idempotent := pc_Idempotent c, sp_Timeout := pc_Timeout c,
            sp_Return_Successes := True, sp_Return_Errors := True\<rparr>;
          cfg = (if pc_Idempotent c then cfg\<lparr>sp_Net_MaxOpenRequests := 1\<rparr> else cfg)
      in case sarama_Validate cfg of
           Some err \<Rightarrow> Inl (errorf_ctx ''invalid sarama config'' err)
         | None \<Rightarrow> Inr cfg)"

subsection \<open>State\<close>

record producer_message =
  pm_Topic :: string
  pm_Key :: string
  pm_Value :: bytes
  pm_Headers :: "(string \<times> string) list"

record 'k sync_producer =
  SendMessage :: "producer_message \<Rightarrow> 'k \<Rightarrow> (go_error + int32 \<times> int64) \<times> 'k"
  client_Close :: "'k \<Rightarrow> go_error option \<times> 'k"

datatype producer_action =
    PSend producer_message "go_error option"
  | PClose
  | PLog log_level string "(string \<times> string) list"

record ('k, 'a, 'c, 'v) producer =
  prod_sync :: "'k sync_producer"
  prod_client :: 'k
  prod_config :: "('a, 'c, 'v) producer_config"
  prod_closed :: bool
  prod_trace :: "producer_action list"

definition pemit :: "producer_action \<Rightarrow> ('k, 'a, 'c, 'v) producer \<Rightarrow> ('k, 'a, 'c, 'v) producer" where
  "pemit a p = p\<lparr>prod_trace := prod_trace p @ [a]\<rparr>"

definition producer_New ::
  "(string list \<Rightarrow> ('a, 'c, 'v, 'x) sarama_producer_config_scheme \<Rightarrow> go_error + 'k sync_producer \<times> 'k) \<Rightarrow>
   ('a, 'c, 'v, 'x) sarama_producer_config_scheme \<Rightarrow>
   (('a, 'c, 'v, 'x) sarama_producer_config_scheme \<Rightarrow> go_error option) \<Rightarrow>
   ('a, 'c, 'v) sarama_consts \<Rightarrow> ('a, 'c, 'v) producer_config option \<Rightarrow>
   go_error + ('k, 'a, 'c, 'v) producer" where
  "producer_New NewSyncProducer NewConfig sarama_Validate k cfgp =
     (let cfg = (case cfgp of None \<Rightarrow> producer_DefaultConfig k | Some c \<Rightarrow> c) in
      case producer_Config_Validate k cfg of
        Some err \<Rightarrow> Inl (errorf_ctx ''invalid config'' err)
      | None \<Rightarrow>
         (case producer_toSaramaConfig NewConfig sarama_Validate cfg of
            Inl err \<Rightarrow> Inl (errorf_ctx ''invalid config'' err)
          | Inr saramaCfg \<Rightarrow>
             (case NewSyncProducer (pc_Brokers cfg) saramaCfg of
                Inl err \<Rightarrow> Inl (errorf_ctx ''failed to create sync producer'' err)
              | Inr (sync, k0) \<Rightarrow>
                 Inr \<lparr>prod_sync = sync, prod_client = k0, prod_config = cfg, prod_closed = False,
                      prod_trace = []\<rparr>)))"

subsection \<open>Publishing and closing\<close>

definition envelope_message :: "topic \<Rightarrow> 'uid envelope \<Rightarrow> string \<Rightarrow> bytes \<Rightarrow> producer_message" where
  "envelope_message topic env partitionKey data =
     \<lparr>pm_Topic = Topic_String topic, pm_Key = partitionKey, pm_Value = data,
      pm_Headers = [(''event_type'', env_Type env), (''event_id'', env_ID env),
                    (''correlation_id'', env_CorrelationID env)]\<rparr>"

definition PublishToTopic ::
  "('uid envelope \<Rightarrow> go_error + bytes) \<Rightarrow> topic \<Rightarrow> 'uid envelope option \<Rightarrow> string \<Rightarrow>
   ('k, 'a, 'c, 'v) producer \<Rightarrow> ('k, 'a, 'c, 'v) producer \<times> go_error option" where
  "PublishToTopic marshal topic envp partitionKey p =
     (if prod_closed p then (p, Some producer_ErrProducerClosed)
      else case envp of
        None \<Rightarrow> (p, Some producer_ErrNilEnvelope)
      | Some env \<Rightarrow>
         (case envelope_Validate env of
            Some err \<Rightarrow> (p, Some (errorf_detail producer_ErrInvalidEnvelope (error_text err)))
          | None \<Rightarrow>
             (case marshal env of
                Inl err \<Rightarrow> (p, Some (errorf_ctx ''failed to marshal envelope'' err))
              | Inr data \<Rightarrow>
                 (let msg = envelope_message topic env partitionKey data in
                  case SendMessage (prod_sync p) msg (prod_client p) of
                    (Inl err, k') \<Rightarrow>
                      (pemit (PLog LError ''failed to publish message''
                          [(''topic'', Topic_String topic), (''event_type'', env_Type env), (''event_id'', env_ID env),
                           (''correlation_id'', env_CorrelationID env), (''error'', error_text err)])
                         (pemit (PSend msg (Some err)) (p\<lparr>prod_client := k'\<rparr>)),
                       Some (errorf_ctx ''failed to publish message'' err))
                  | (Inr (part, offset), k') \<Rightarrow>
                      (pemit (PLog LDebug ''published message''
                          [(''topic'', Topic_String topic), (''partition'', itoa (sint part)), (''offset'', itoa (sint offset)),
                           (''event_type'', env_Type env), (''event_id'', env_ID env),
                           (''correlation_id'', env_CorrelationID env)])
                         (pemit (PSend msg None) (p\<lparr>prod_client := k'\<rparr>)), None)))))"

definition Publish ::
  "('uid envelope \<Rightarrow> go_error + bytes) \<Rightarrow> 'uid envelope option \<Rightarrow> string \<Rightarrow>
   ('k, 'a, 'c, 'v) producer \<Rightarrow> ('k, 'a, 'c, 'v) producer \<times> go_error option" where
  "Publish marshal envp partitionKey p =
     (case envp of
        None \<Rightarrow> (p, Some producer_ErrNilEnvelope)
      | Some env \<Rightarrow>
         (let topic = ForEventType (env_Type env) in
          if topic = [] then (p, Some (errorf_detail producer_ErrNoTopicForEventType (env_Type env)))
          else PublishToTopic marshal topic (Some env) partitionKey p))"

text \<open>The loop of \<open>PublishBatch\<close> from index \<open>i\<close>; \<open>PublishBatch\<close> has checked the lengths.\<close>

fun publish_batch_from ::
  "('uid envelope \<Rightarrow> go_error + bytes) \<Rightarrow> nat \<Rightarrow> 'uid envelope option list \<Rightarrow> string list \<Rightarrow>
   ('k, 'a, 'c, 'v) producer \<Rightarrow> ('k, 'a, 'c, 'v) producer \<times> go_error option" where
  "publish_batch_from marshal i [] partitionKeys p = (p, None)"
| "publish_batch_from marshal i (env # envs) partitionKeys p =
     (case Publish marshal env (partitionKeys ! i) p of
        (p', Some err) \<Rightarrow> (p', Some (errorf_ctx (''failed to publish envelope '' @ itoa (int i)) err))
      | (p', None) \<Rightarrow> publish_batch_from marshal (Suc i) envs partitionKeys p')"

definition PublishBatch ::
  "('uid envelope \<Rightarrow> go_error + bytes) \<Rightarrow> 'uid envelope option list \<Rightarrow> string list \<Rightarrow>
   ('k, 'a, 'c, 'v) producer \<Rightarrow> ('k, 'a, 'c, 'v) producer \<times> go_error option" where
  "PublishBatch marshal envs partitionKeys p =
     (if length envs \<noteq> length partitionKeys then (p, Some producer_ErrBatchLengthMismatch)
      else publish_batch_from marshal 0 envs partitionKeys p)"

definition producer_Close ::
  "('k, 'a, 'c, 'v) producer \<Rightarrow> ('k, 'a, 'c, 'v) producer \<times> go_error option" where
  "producer_Close p =
     (if prod_closed p then (p, None)
      else (let p1 = p\<lparr>prod_closed := True\<rparr> in
        case client_Close (prod_sync p1) (prod_client p1) of
          (err, k') \<Rightarrow> (pemit PClose (p1\<lparr>prod_client := k'\<rparr>),
             map_option (errorf_ctx ''failed to close producer'') err)))"

subsection \<open>Lemmas: one publication\<close>

fun sends :: "producer_action list \<Rightarrow> (producer_message \<times> go_error option) list" where
  "sends [] = []"
| "sends (PSend m r # as) = (m, r) # sends as"
| "sends (_ # as) = sends as"

fun closes :: "producer_action list \<Rightarrow> nat" where
  "closes [] = 0"
| "closes (PClose # as) = Suc (closes as)"
| "closes (_ # as) = closes as"

lemma sends_append [simp]: "sends (xs @ ys) = sends xs @ sends ys"
  by (induction xs rule: sends.induct) auto

lemma closes_append [simp]: "closes (xs @ ys) = closes xs + closes ys"
  by (induction xs rule: closes.induct) auto

lemma pemit_simps [simp]:
  "prod_trace (pemit a p) = prod_trace p @ [a]" "prod_closed (pemit a p) = prod_closed p"
  "prod_client (pemit a p) = prod_client p" "prod_sync (pemit a p) = prod_sync p"
  "prod_config (pemit a p) = prod_config p"
  by (simp_all add: pemit_def)

text \<open>What the producer will accept for a topic, and what it then hands to the client.\<close>

definition deliverable ::
  "('uid envelope \<Rightarrow> go_error + bytes) \<Rightarrow> 'uid envelope option \<Rightarrow> ('k, 'a, 'c, 'v) producer \<Rightarrow> bool" where
  "deliverable marshal envp p \<longleftrightarrow> \<not> prod_closed p \<and>
     (\<exists>env data. envp = Some env \<and> envelope_ok env \<and> marshal env = Inr data)"

definition message_for ::
  "('uid envelope \<Rightarrow> go_error + bytes) \<Rightarrow> topic \<Rightarrow> 'uid envelope \<Rightarrow> string \<Rightarrow> producer_message" where
  "message_for marshal topic env key = envelope_message topic env key (projr (marshal env))"

text \<open>The error of one call of the client, and the part of the producer it leaves alone.\<close>

definition send_error :: "('k, 'a, 'c, 'v) producer \<Rightarrow> producer_message \<Rightarrow> go_error option" where
  "send_error p m = (case fst (SendMessage (prod_sync p) m (prod_client p)) of Inl e \<Rightarrow> Some e | Inr _ \<Rightarrow> None)"

lemma PublishToTopic_undeliverable:
  "\<not> deliverable marshal envp p \<Longrightarrow> \<exists>e. PublishToTopic marshal topic envp key p = (p, Some e)"
  by (cases envp; cases "envelope_Validate (the envp)"; cases "marshal (the envp)")
    (auto simp: PublishToTopic_def deliverable_def simp flip: envelope_Validate_None_iff)

lemma PublishToTopic_deliverable:
  assumes "deliverable marshal (Some env) p" "PublishToTopic marshal topic (Some env) key p = (p', r)"
  shows "sends (prod_trace p') = sends (prod_trace p) @
      [(message_for marshal topic env key, send_error p (message_for marshal topic env key))]"
    and "r = map_option (errorf_ctx ''failed to publish message'') (send_error p (message_for marshal topic env key))"
    and "closes (prod_trace p') = closes (prod_trace p)" "prod_closed p' = prod_closed p"
    and "prod_sync p' = prod_sync p" "prod_config p' = prod_config p"
    and "\<exists>as. prod_trace p' = prod_trace p @ as \<and> PClose \<notin> set as"
proof -
  from assms(1) obtain data where d: "marshal env = Inr data" "\<not> prod_closed p" "envelope_Validate env = None"
    by (auto simp: deliverable_def envelope_Validate_None_iff)
  obtain res k' where "SendMessage (prod_sync p) (envelope_message topic env key data) (prod_client p) = (res, k')"
    by (cases "SendMessage (prod_sync p) (envelope_message topic env key data) (prod_client p)")
  with assms(2) d show "sends (prod_trace p') = sends (prod_trace p) @
      [(message_for marshal topic env key, send_error p (message_for marshal topic env key))]"
    "r = map_option (errorf_ctx ''failed to publish message'') (send_error p (message_for marshal topic env key))"
    "closes (prod_trace p') = closes (prod_trace p)" "prod_closed p' = prod_closed p"
    "prod_sync p' = prod_sync p" "prod_config p' = prod_config p"
    "\<exists>as. prod_trace p' = prod_trace p @ as \<and> PClose \<notin> set as"
    by (cases res; auto simp: PublishToTopic_def message_for_def send_error_def Let_def split: prod.splits)+
qed

lemma PublishToTopic_closed: "prod_closed p \<Longrightarrow> PublishToTopic marshal topic envp key p = (p, Some producer_ErrProducerClosed)"
  by (simp add: PublishToTopic_def)

lemma Publish_Some:
  "Publish marshal (Some env) key p =
    (if ForEventType (env_Type env) = [] then (p, Some (errorf_detail producer_ErrNoTopicForEventType (env_Type env)))
     else PublishToTopic marshal (ForEventType (env_Type env)) (Some env) key p)"
  by (simp add: Publish_def Let_def)

lemma Publish_None [simp]: "Publish marshal None key p = (p, Some producer_ErrNilEnvelope)"
  by (simp add: Publish_def)

lemma PublishToTopic_keeps:
  assumes "PublishToTopic marshal topic envp key p = (p', r)"
  shows "prod_closed p' = prod_closed p \<and> (\<exists>as. prod_trace p' = prod_trace p @ as \<and> PClose \<notin> set as)"
proof (cases "deliverable marshal envp p")
  case True
  then obtain env where "envp = Some env" by (auto simp: deliverable_def)
  with True assms PublishToTopic_deliverable(4,7) show ?thesis by blast
next
  case False
  with assms PublishToTopic_undeliverable have "p' = p" by (metis prod.inject)
  then show ?thesis by simp
qed

lemma Publish_keeps:
  assumes "Publish marshal envp key p = (p', r)"
  shows "prod_closed p' = prod_closed p \<and> (\<exists>as. prod_trace p' = prod_trace p @ as \<and> PClose \<notin> set as)"
proof (cases envp)
  case (Some env)
  show ?thesis
  proof (cases "ForEventType (env_Type env) = []")
    case False
    with assms Some have "PublishToTopic marshal (ForEventType (env_Type env)) (Some env) key p = (p', r)"
      by (simp add: Publish_Some)
    then show ?thesis by (rule PublishToTopic_keeps)
  qed (use assms Some in \<open>simp add: Publish_Some\<close>)
qed (use assms in simp)

lemma Publish_closed: "prod_closed p \<Longrightarrow> \<exists>e. Publish marshal envp key p = (p, Some e)"
  by (cases envp) (auto simp: Publish_Some PublishToTopic_closed)

subsection \<open>Lemmas: batches\<close>

text \<open>Publishing one after the other, as long as all succeed.\<close>

inductive publish_all ::
  "('uid envelope \<Rightarrow> go_error + bytes) \<Rightarrow> ('uid envelope option \<times> string) list \<Rightarrow>
   ('k, 'a, 'c, 'v) producer \<Rightarrow> ('k, 'a, 'c, 'v) producer \<Rightarrow> bool" for marshal where
  publish_none: "publish_all marshal [] p p"
| publish_next: "Publish marshal env key p = (p1, None) \<Longrightarrow> publish_all marshal rest p1 p2 \<Longrightarrow>
    publish_all marshal ((env, key) # rest) p p2"

inductive_cases publish_all_NilE: "publish_all marshal [] p p'"
inductive_cases publish_all_ConsE: "publish_all marshal (x # xs) p p'"

lemma publish_batch_from_spec:
  assumes "publish_batch_from marshal i envs keys p = (p', r)" "i + length envs = length keys"
  shows "(r = None \<and> publish_all marshal (zip envs (drop i keys)) p p') \<or>
    (\<exists>j err p1. j < length envs \<and> publish_all marshal (zip (take j envs) (drop i keys)) p p1 \<and>
       Publish marshal (envs ! j) (keys ! (i + j)) p1 = (p', Some err) \<and>
       r = Some (errorf_ctx (''failed to publish envelope '' @ itoa (int (i + j))) err))"
  using assms
proof (induction envs arbitrary: i p)
  case Nil
  then show ?case by (auto intro: publish_none)
next
  case (Cons env envs)
  have dropi: "drop i keys = keys ! i # drop (Suc i) keys"
    using Cons.prems(2) by (simp add: Cons_nth_drop_Suc)
  obtain p1 r1 where pub: "Publish marshal env (keys ! i) p = (p1, r1)"
    by (cases "Publish marshal env (keys ! i) p")
  show ?case
  proof (cases r1)
    case (Some err)
    with pub Cons.prems have r: "r = Some (errorf_ctx (''failed to publish envelope '' @ itoa (int (i + 0))) err)"
      and p': "p' = p1" by auto
    have "publish_all marshal (zip (take 0 (env # envs)) (drop i keys)) p p" by (simp add: publish_none)
    moreover have "Publish marshal ((env # envs) ! 0) (keys ! (i + 0)) p = (p', Some err)"
      using pub Some p' by simp
    ultimately show ?thesis using r by (intro disjI2) (metis length_greater_0_conv list.distinct(1))
  next
    case None
    with pub Cons.prems have rest: "publish_batch_from marshal (Suc i) envs keys p1 = (p', r)"
      "Suc i + length envs = length keys" by auto
    from Cons.IH [OF this] show ?thesis
    proof
      assume "r = None \<and> publish_all marshal (zip envs (drop (Suc i) keys)) p1 p'"
      with pub None show ?thesis unfolding dropi by (auto intro: publish_next)
    next
      assume "\<exists>j err p2. j < length envs \<and> publish_all marshal (zip (take j envs) (drop (Suc i) keys)) p1 p2 \<and>
        Publish marshal (envs ! j) (keys ! (Suc i + j)) p2 = (p', Some err) \<and>
        r = Some (errorf_ctx (''failed to publish envelope '' @ itoa (int (Suc i + j))) err)"
      then obtain j err p2 where j: "j < length envs" "publish_all marshal (zip (take j envs) (drop (Suc i) keys)) p1 p2"
        "Publish marshal (envs ! j) (keys ! (Suc i + j)) p2 = (p', Some err)"
        "r = Some (errorf_ctx (''failed to publish envelope '' @ itoa (int (Suc i + j))) err)" by blast
      with pub None have "publish_all marshal (zip (take (Suc j) (env # envs)) (drop i keys)) p p2"
        unfolding dropi by (auto intro: publish_next)
      with j show ?thesis by (intro disjI2 exI [of _ "Suc j"] exI [of _ err] exI [of _ p2]) simp
    qed
  qed
qed

text \<open>What a run of successful publications has sent.\<close>

lemma Publish_ok:
  assumes "Publish marshal envp key p = (p', None)"
  shows "\<exists>env. envp = Some env \<and> ForEventType (env_Type env) \<noteq> [] \<and> deliverable marshal envp p \<and>
    sends (prod_trace p') = sends (prod_trace p) @
      [(message_for marshal (ForEventType (env_Type env)) env key, None)]"
proof (cases envp)
  case (Some env)
  with assms have t: "ForEventType (env_Type env) \<noteq> []"
    and pub: "PublishToTopic marshal (ForEventType (env_Type env)) (Some env) key p = (p', None)"
    by (auto simp: Publish_Some split: if_splits)
  have d: "deliverable marshal (Some env) p"
    using pub PublishToTopic_undeliverable by (metis option.distinct(1) prod.inject)
  from PublishToTopic_deliverable(1,2) [OF d pub] t d Some show ?thesis by simp
qed (use assms in simp)

lemma publish_all_sends:
  "publish_all marshal xs p p' \<Longrightarrow> (\<forall>x\<in>set xs. fst x \<noteq> None) \<and>
    sends (prod_trace p') = sends (prod_trace p) @
      map (\<lambda>(e, k). (message_for marshal (ForEventType (env_Type (the e))) (the e) k, None)) xs"
  by (induction rule: publish_all.induct) (auto dest!: Publish_ok)

subsection \<open>Closing\<close>

interpretation producer_closing: close_once prod_closed producer_Close "\<lambda>p. closes (prod_trace p)"
  by unfold_locales (auto simp: producer_Close_def Let_def split: prod.splits)

text \<open>A client program of the producer: any sequence of its operations.\<close>

datatype 'uid producer_op =
    OpPublish "'uid envelope option" string
  | OpPublishToTopic topic "'uid envelope option" string
  | OpPublishBatch "'uid envelope option list" "string list"
  | OpClose

fun producer_run ::
  "('uid envelope \<Rightarrow> go_error + bytes) \<Rightarrow> 'uid producer_op list \<Rightarrow> ('k, 'a, 'c, 'v) producer \<Rightarrow>
   ('k, 'a, 'c, 'v) producer" where
  "producer_run marshal [] p = p"
| "producer_run marshal (OpPublish env key # ops) p = producer_run marshal ops (fst (Publish marshal env key p))"
| "producer_run marshal (OpPublishToTopic t env key # ops) p =
     producer_run marshal ops (fst (PublishToTopic marshal t env key p))"
| "producer_run marshal (OpPublishBatch envs keys # ops) p =
     producer_run marshal ops (fst (PublishBatch marshal envs keys p))"
| "producer_run marshal (OpClose # ops) p = producer_run marshal ops (fst (producer_Close p))"

text \<open>The producer is open and has never closed its client, or its last action was to close it.\<close>

definition producer_inv :: "('k, 'a, 'c, 'v) producer \<Rightarrow> bool" where
  "producer_inv p \<longleftrightarrow>
     (if prod_closed p then \<exists>as. prod_trace p = as @ [PClose] \<and> PClose \<notin> set as else PClose \<notin> set (prod_trace p))"

lemma producer_inv_append:
  assumes "producer_inv p" "prod_closed p' = prod_closed p" "\<not> prod_closed p"
    "\<exists>as. prod_trace p' = prod_trace p @ as \<and> PClose \<notin> set as"
  shows "producer_inv p'"
  using assms by (auto simp: producer_inv_def)

lemma producer_inv_PublishToTopic: "producer_inv p \<Longrightarrow> producer_inv (fst (PublishToTopic marshal t e k p))"
  by (cases "PublishToTopic marshal t e k p"; cases "prod_closed p")
    (auto dest: PublishToTopic_keeps intro: producer_inv_append simp: PublishToTopic_closed)

lemma producer_inv_Publish: "producer_inv p \<Longrightarrow> producer_inv (fst (Publish marshal e k p))"
  by (cases e) (auto simp: Publish_Some producer_inv_PublishToTopic)

lemma producer_inv_batch_from: "producer_inv p \<Longrightarrow> producer_inv (fst (publish_batch_from marshal i envs keys p))"
proof (induction envs arbitrary: i p)
  case (Cons env envs)
  from producer_inv_Publish [OF Cons.prems, of marshal env "keys ! i"] Cons.IH show ?case
    by (auto split: prod.splits option.splits)
qed simp

lemma producer_inv_Close: "producer_inv p \<Longrightarrow> producer_inv (fst (producer_Close p))"
  by (auto simp: producer_inv_def producer_Close_def Let_def split: prod.splits)

lemma producer_inv_run: "producer_inv p \<Longrightarrow> producer_inv (producer_run marshal ops p)"
  by (induction marshal ops p rule: producer_run.induct)
    (simp_all add: producer_inv_Publish producer_inv_PublishToTopic PublishBatch_def producer_inv_batch_from
      producer_inv_Close)

lemma producer_New_Inr:
  "producer_New NewP NewC V k cfgp = Inr p \<Longrightarrow> \<not> prod_closed p \<and> prod_trace p = [] \<and>
    producer_Config_Validate k (prod_config p) = None \<and>
    (\<exists>cfg. producer_toSaramaConfig NewC V (prod_config p) = Inr cfg \<and>
       NewP (pc_Brokers (prod_config p)) cfg = Inr (prod_sync p, prod_client p))"
  by (auto simp: producer_New_def Let_def split: option.splits sum.splits prod.splits)

subsection \<open>Properties\<close>

text \<open>A client that accepts its first two messages and refuses the third.\<close>

definition sample_sync :: "nat sync_producer" where
  "sample_sync = \<lparr>SendMessage = (\<lambda>m n. (if n < 2 then Inr (0, of_nat n) else Inl (ErrValue ''kafka'' ''ErrOut'' ''out''), Suc n)),
     client_Close = (\<lambda>n. (None, n))\<rparr>"

definition sample_consts :: "(int, nat, nat) sarama_consts" where
  "sample_consts = \<lparr>WaitForAll = -1, CompressionSnappy = 2, V0_11_0_0 = 11\<rparr>"

definition sample_producer :: "(nat, int, nat, nat) producer" where
  "sample_producer = \<lparr>prod_sync = sample_sync, prod_client = 0,
     prod_config = (producer_DefaultConfig sample_consts)\<lparr>pc_Brokers := [''b''], pc_ClientID := ''c''\<rparr>,
     prod_closed = False, prod_trace = []\<rparr>"

definition sample_marshal :: "nat envelope \<Rightarrow> go_error + bytes" where
  "sample_marshal e = Inr (env_ID e)"

lemma sample_deliverable: "deliverable sample_marshal (Some sample_envelope) sample_producer"
  using sample_envelope_ok by (simp add: deliverable_def sample_producer_def sample_marshal_def)

text \<open>
  C4: Publishing hands exactly one message to the Kafka client when the producer is open, the
  envelope is complete, can be marshalled and its type has a topic: the message goes to a known
  topic, under the given key, with the marshalled envelope as value and three headers none of
  which is empty; the result is nil exactly if the client accepted it, and else an error that
  wraps the client's. In every other case nothing is sent, the producer is unchanged and an
  error is returned.
\<close>

theorem publish_sends_once:
  "case Publish marshal envp key p of (p', r) \<Rightarrow>
     (if \<exists>env. envp = Some env \<and> ForEventType (env_Type env) \<noteq> [] \<and> deliverable marshal envp p
      then \<exists>m res. sends (prod_trace p') = sends (prod_trace p) @ [(m, res)] \<and>
          res = send_error p m \<and> r = map_option (errorf_ctx ''failed to publish message'') res \<and>
          Topic_Valid (pm_Topic m) \<and> pm_Topic m = ForEventType (env_Type (the envp)) \<and> pm_Key m = key \<and>
          marshal (the envp) = Inr (pm_Value m) \<and>
          map fst (pm_Headers m) = [''event_type'', ''event_id'', ''correlation_id''] \<and>
          list_all (\<lambda>h. snd h \<noteq> []) (pm_Headers m)
      else p' = p \<and> r \<noteq> None)"
proof (cases "\<exists>env. envp = Some env \<and> ForEventType (env_Type env) \<noteq> [] \<and> deliverable marshal envp p")
  case True
  then obtain env data where e: "envp = Some env" "ForEventType (env_Type env) \<noteq> []" "deliverable marshal (Some env) p"
    and d: "marshal env = Inr data" "envelope_ok env"
    by (auto simp: deliverable_def)
  obtain p' r where pub: "Publish marshal envp key p = (p', r)" by (cases "Publish marshal envp key p")
  with e have "PublishToTopic marshal (ForEventType (env_Type env)) (Some env) key p = (p', r)"
    by (simp add: Publish_Some)
  from PublishToTopic_deliverable(1,2) [OF e(3) this] e(2) True show ?thesis
    unfolding pub using d e(1) ForEventType_Topic_Valid_iff [of "env_Type env"]
    by (simp add: message_for_def envelope_message_def Topic_String_def envelope_ok_def)
next
  case False
  obtain p' r where pub: "Publish marshal envp key p = (p', r)" by (cases "Publish marshal envp key p")
  have "p' = p \<and> r \<noteq> None"
  proof (cases envp)
    case (Some env)
    with False have "ForEventType (env_Type env) = [] \<or> \<not> deliverable marshal (Some env) p" by simp
    then show ?thesis
      using pub Some PublishToTopic_undeliverable [of marshal "Some env" p "ForEventType (env_Type env)" key]
      by (auto simp: Publish_Some split: if_splits)
  qed (use pub in \<open>simp, blast\<close>)
  with False pub show ?thesis by auto
qed

theorem publish_sends_once_witness:
  "\<exists>m. sends (prod_trace (fst (Publish sample_marshal (Some sample_envelope) ''k'' sample_producer))) = [(m, None)] \<and>
     pm_Topic m = Rides \<and> pm_Value m = ''evt-1''"
proof -
  have t: "ForEventType (env_Type sample_envelope) = Rides" "Rides \<noteq> []"
    by (simp_all add: sample_envelope_def ForEventType_def EventType_Domain_takeWhile Rides_def)
  have s: "prod_trace sample_producer = []" "send_error sample_producer m = None" for m
    by (simp_all add: sample_producer_def send_error_def sample_sync_def)
  obtain p' r where pub: "Publish sample_marshal (Some sample_envelope) ''k'' sample_producer = (p', r)"
    by fastforce
  show ?thesis
    using publish_sends_once [where marshal = sample_marshal and envp = "Some sample_envelope" and key = "''k''"
        and p = sample_producer] t sample_deliverable
    by (simp add: pub s sample_marshal_def) (auto simp: sample_envelope_def)
qed

text \<open>
  C26: A batch is published in order and stops at its first failure. Lists of different lengths
  are rejected before anything is sent. A nil result means that every envelope was handed over,
  in order, each with its own key, and accepted; a failure names the index of the envelope that
  failed, wraps its error, and everything before it (and nothing after it) was published.
\<close>

theorem publish_batch_prefix:
  "case PublishBatch marshal envs keys p of (p', r) \<Rightarrow>
     (if length envs \<noteq> length keys then p' = p \<and> r = Some producer_ErrBatchLengthMismatch
      else (case r of
          None \<Rightarrow> publish_all marshal (zip envs keys) p p' \<and>
            sends (prod_trace p') = sends (prod_trace p) @ map (\<lambda>(e, k).
              (message_for marshal (ForEventType (env_Type (the e))) (the e) k, None)) (zip envs keys)
        | Some e \<Rightarrow> \<exists>j err p1. j < length envs \<and> publish_all marshal (zip (take j envs) (take j keys)) p p1 \<and>
            Publish marshal (envs ! j) (keys ! j) p1 = (p', Some err) \<and>
            e = errorf_ctx (''failed to publish envelope '' @ itoa (int j)) err))"
proof (cases "length envs = length keys")
  case True
  obtain p' r where b: "PublishBatch marshal envs keys p = (p', r)" by (cases "PublishBatch marshal envs keys p")
  with True have "publish_batch_from marshal 0 envs keys p = (p', r)" by (simp add: PublishBatch_def)
  from publish_batch_from_spec [OF this] True have
    "(r = None \<and> publish_all marshal (zip envs keys) p p') \<or>
     (\<exists>j err p1. j < length envs \<and> publish_all marshal (zip (take j envs) keys) p p1 \<and>
       Publish marshal (envs ! j) (keys ! j) p1 = (p', Some err) \<and>
       r = Some (errorf_ctx (''failed to publish envelope '' @ itoa (int j)) err))" by simp
  moreover have zt: "zip (take j envs) keys = zip (take j envs) (take j keys)" for j
    by (rule nth_equalityI) auto
  ultimately show ?thesis
  proof (elim disjE conjE exE)
    assume "r = None" "publish_all marshal (zip envs keys) p p'"
    with publish_all_sends [OF this(2)] show ?thesis by (simp add: b True)
  next
    fix j err p1
    assume "j < length envs" "publish_all marshal (zip (take j envs) keys) p p1"
      "Publish marshal (envs ! j) (keys ! j) p1 = (p', Some err)"
      "r = Some (errorf_ctx (''failed to publish envelope '' @ itoa (int j)) err)"
    then show ?thesis unfolding b zt using True by simp blast
  qed
qed (simp add: PublishBatch_def)

text \<open>
  C25: Whatever sequence of operations a program performs on a new producer, the client is
  closed at most once, that is the producer's last contact with it (nothing is sent or logged
  after it), and once the producer is closed every operation but another \<open>Close\<close> fails while
  \<open>Close\<close> returns nil and changes nothing.
\<close>

theorem producer_session_safe:
  assumes "producer_New NewP NewC V k cfgp = Inr p0"
  shows "(let p = producer_run marshal ops p0 in
    closes (prod_trace p) = (if prod_closed p then 1 else 0) \<and>
    (prod_closed p \<longrightarrow> (\<exists>as. prod_trace p = as @ [PClose]) \<and> producer_Close p = (p, None) \<and>
      (\<forall>env key. \<exists>e. Publish marshal env key p = (p, Some e)) \<and>
      (\<forall>t env key. PublishToTopic marshal t env key p = (p, Some producer_ErrProducerClosed))))"
proof -
  let ?p = "producer_run marshal ops p0"
  have "producer_inv p0" using producer_New_Inr [OF assms] by (simp add: producer_inv_def)
  then have inv: "producer_inv ?p" by (rule producer_inv_run)
  have no: "PClose \<notin> set as \<Longrightarrow> closes as = 0" for as
    by (induction as rule: closes.induct) auto
  from inv no show ?thesis
    by (auto simp: Let_def producer_inv_def PublishToTopic_closed Publish_closed
        producer_closing.close_again split: if_splits)
qed

theorem producer_session_safe_witness:
  "let p = producer_run sample_marshal [OpPublish (Some sample_envelope) ''k'', OpClose, OpPublish (Some sample_envelope) ''k'', OpClose]
      sample_producer
   in prod_closed p \<and> closes (prod_trace p) = 1"
proof -
  let ?NewP = "\<lambda>b c :: (int, nat, nat) sarama_producer_config. Inr (sample_sync, 0 :: nat) :: go_error + nat sync_producer \<times> nat"
  let ?cfg = "(producer_DefaultConfig sample_consts)\<lparr>pc_Brokers := [''b''], pc_ClientID := ''c''\<rparr>"
  have new: "producer_New ?NewP C (\<lambda>c. None) sample_consts (Some ?cfg) = Inr sample_producer" for C
    by (simp add: producer_New_def producer_Config_Validate_def producer_DefaultConfig_def sample_consts_def
        producer_toSaramaConfig_def sample_producer_def Let_def)
  have "prod_closed (fst (producer_Close p))" for p :: "(nat, int, nat, nat) producer"
    by (rule producer_closing.close_closes)
  then show ?thesis
    using producer_session_safe [OF new, where marshal = sample_marshal and ops = "[OpPublish (Some sample_envelope) ''k'', OpClose,
        OpPublish (Some sample_envelope) ''k'', OpClose]"]
    by (simp add: Let_def)
qed

text \<open>
  The settings a producer runs with are those of its configuration, made safe: the client
  reports successes and errors (so that a synchronous send returns), and an idempotent producer
  waits for all replicas and keeps one request in flight. A nil configuration is never
  accepted, because the defaults name no broker.
\<close>

theorem producer_New_settings:
  "(\<forall>p. producer_New NewP NewC V k cfgp = Inr p \<longrightarrow>
      (\<exists>cfg. cfgp = Some (prod_config p) \<and> NewP (pc_Brokers (prod_config p)) cfg = Inr (prod_sync p, prod_client p) \<and>
        V cfg = None \<and> pc_Brokers (prod_config p) \<noteq> [] \<and> sp_ClientID cfg \<noteq> [] \<and>
        sp_Return_Successes cfg \<and> sp_Return_Errors cfg \<and> sp_Retry_Max cfg = pc_MaxRetries (prod_config p) \<and>
        sp_Idempotent cfg = pc_Idempotent (prod_config p) \<and>
        (sp_Idempotent cfg \<longrightarrow> sp_RequiredAcks cfg = WaitForAll k \<and> sp_Net_MaxOpenRequests cfg = 1) \<and>
        (\<not> sp_Idempotent cfg \<longrightarrow> sp_Net_MaxOpenRequests cfg = sp_Net_MaxOpenRequests NewC))) \<and>
   (cfgp = None \<longrightarrow> producer_New NewP NewC V k cfgp = Inl (errorf_ctx ''invalid config'' producer_ErrNoBrokers))"
proof (intro conjI allI impI)
  fix p assume new: "producer_New NewP NewC V k cfgp = Inr p"
  obtain c where c: "cfgp = Some c"
    using new by (cases cfgp) (auto simp: producer_New_def producer_Config_Validate_def producer_DefaultConfig_def)
  with new have pc: "prod_config p = c"
    by (auto simp: producer_New_def Let_def split: option.splits sum.splits prod.splits)
  from producer_New_Inr [OF new] obtain cfg where v: "producer_Config_Validate k c = None"
    and t: "producer_toSaramaConfig NewC V c = Inr cfg"
    and n: "NewP (pc_Brokers c) cfg = Inr (prod_sync p, prod_client p)" unfolding pc by blast
  from v have ok: "pc_Brokers c \<noteq> []" "pc_ClientID c \<noteq> []" "pc_Idempotent c \<Longrightarrow> pc_RequiredAcks c = WaitForAll k"
    by (auto simp: producer_Config_Validate_def split: if_splits)
  from t have "V cfg = None" "sp_ClientID cfg = pc_ClientID c" "sp_Return_Successes cfg" "sp_Return_Errors cfg"
    "sp_Retry_Max cfg = pc_MaxRetries c" "sp_Idempotent cfg = pc_Idempotent c" "sp_RequiredAcks cfg = pc_RequiredAcks c"
    "sp_Net_MaxOpenRequests cfg = (if pc_Idempotent c then 1 else sp_Net_MaxOpenRequests NewC)"
    by (auto simp: producer_toSaramaConfig_def Let_def split: option.splits if_splits)
  with ok n c show "\<exists>cfg. cfgp = Some (prod_config p) \<and>
        NewP (pc_Brokers (prod_config p)) cfg = Inr (prod_sync p, prod_client p) \<and>
        V cfg = None \<and> pc_Brokers (prod_config p) \<noteq> [] \<and> sp_ClientID cfg \<noteq> [] \<and>
        sp_Return_Successes cfg \<and> sp_Return_Errors cfg \<and> sp_Retry_Max cfg = pc_MaxRetries (prod_config p) \<and>
        sp_Idempotent cfg = pc_Idempotent (prod_config p) \<and>
        (sp_Idempotent cfg \<longrightarrow> sp_RequiredAcks cfg = WaitForAll k \<and> sp_Net_MaxOpenRequests cfg = 1) \<and>
        (\<not> sp_Idempotent cfg \<longrightarrow> sp_Net_MaxOpenRequests cfg = sp_Net_MaxOpenRequests NewC)"
    unfolding pc by (intro exI [of _ cfg]) simp
qed (simp add: producer_New_def producer_Config_Validate_def producer_DefaultConfig_def)

definition sample_sarama :: "(int, nat, nat) sarama_producer_config" where
  "sample_sarama = \<lparr>sp_ClientID = ''sarama'', sp_Version = 10, sp_RequiredAcks = 1, sp_Retry_Max = 3,
     sp_Retry_Backoff = 100, sp_Flush_Bytes = 0, sp_Flush_Frequency = 0, sp_Compression = 0, sp_Idempotent = False,
     sp_Timeout = 10, sp_Return_Successes = False, sp_Return_Errors = True, sp_Net_MaxOpenRequests = 5\<rparr>"

theorem producer_New_settings_witness:
  "\<exists>cfg. producer_toSaramaConfig sample_sarama (\<lambda>c. None) (prod_config sample_producer) = Inr cfg \<and>
     sp_Idempotent cfg \<and> sp_RequiredAcks cfg = -1 \<and> sp_Net_MaxOpenRequests cfg = 1"
proof -
  let ?NewP = "\<lambda>b c. if producer_toSaramaConfig sample_sarama (\<lambda>c. None) (prod_config sample_producer) = Inr c
    then Inr (sample_sync, 0 :: nat) else Inl producer_ErrNoBrokers"
  have new: "producer_New ?NewP sample_sarama (\<lambda>c. None) sample_consts (Some (prod_config sample_producer)) = Inr sample_producer"
    by (simp add: producer_New_def producer_Config_Validate_def producer_DefaultConfig_def sample_consts_def
        producer_toSaramaConfig_def sample_producer_def Let_def)
  from producer_New_settings [where NewP = ?NewP and NewC = sample_sarama and V = "\<lambda>c. None" and k = sample_consts
      and cfgp = "Some (prod_config sample_producer)"] new obtain cfg where
    c: "?NewP (pc_Brokers (prod_config sample_producer)) cfg = Inr (prod_sync sample_producer, prod_client sample_producer)"
      "sp_Idempotent cfg = pc_Idempotent (prod_config sample_producer)"
      "sp_Idempotent cfg \<longrightarrow> sp_RequiredAcks cfg = WaitForAll sample_consts \<and> sp_Net_MaxOpenRequests cfg = 1"
    by blast
  have "producer_toSaramaConfig sample_sarama (\<lambda>c. None) (prod_config sample_producer) = Inr cfg"
    using c(1) by (auto split: if_splits)
  moreover have "pc_Idempotent (prod_config sample_producer)" "WaitForAll sample_consts = -1"
    by (simp_all add: sample_producer_def producer_DefaultConfig_def sample_consts_def)
  ultimately show ?thesis using c(2,3) by auto
qed

end
