(* ===== verification/ProducerLifecycle.thy ===== *)
theory ProducerLifecycle
  imports Producer
begin

section \<open>Concurrent publishing and closing (producer/producer.go)\<close>

text \<open>
  \<open>PublishToTopic\<close> reads the closed flag under the read lock and releases the lock before it
  calls the Kafka client; \<open>Close\<close> holds the write lock while it sets the flag and closes the
  client. Any number of goroutines publish and close; a step is one goroutine passing one lock
  section or one call of the client. A read section contains nothing but the test of the flag,
  so it is one step, possible only while no writer holds the lock.
\<close>

datatype publish_pc =
    PubInit
  | PubChecked
  | PubSent bool
  | PubFailed "go_error option"

text \<open>
  \<open>PubSent b\<close>: \<open>SendMessage\<close> was called, \<open>b\<close> telling whether the client had been closed
  before; \<open>PubFailed\<close>: returned an error without calling the client (\<open>Some\<close> the error of the
  closed check, \<open>None\<close> any error of the checks on the envelope).
\<close>

datatype pclose_pc = PCInit | PCLocked | PCClosing | PCReturned "go_error option"

record producer_life =
  pl_closed :: bool
  pl_writer :: bool
  pl_client_closes :: nat
  pl_pubs :: "publish_pc list"
  pl_closers :: "pclose_pc list"

definition Publish_check :: "bool \<Rightarrow> publish_pc" where
  "Publish_check closed = (if closed then PubFailed (Some producer_ErrProducerClosed) else PubChecked)"

definition Close_locked :: "bool \<Rightarrow> pclose_pc" where
  "Close_locked closed = (if closed then PCReturned None else PCClosing)"

definition Close_done :: "go_error option \<Rightarrow> pclose_pc" where
  "Close_done err = PCReturned (map_option (errorf_ctx ''failed to close producer'') err)"

definition set_pub :: "nat \<Rightarrow> publish_pc \<Rightarrow> producer_life \<Rightarrow> producer_life" where
  "set_pub i pc s = s\<lparr>pl_pubs := (pl_pubs s)[i := pc]\<rparr>"

definition set_closer :: "nat \<Rightarrow> pclose_pc \<Rightarrow> producer_life \<Rightarrow> producer_life" where
  "set_closer j pc s = s\<lparr>pl_closers := (pl_closers s)[j := pc]\<rparr>"

definition producer_initial :: "producer_life \<Rightarrow> bool" where
  "producer_initial s \<longleftrightarrow> \<not> pl_closed s \<and> \<not> pl_writer s \<and> pl_client_closes s = 0 \<and>
     list_all (\<lambda>p. p = PubInit) (pl_pubs s) \<and> list_all (\<lambda>c. c = PCInit) (pl_closers s)"

inductive producer_step :: "producer_life \<Rightarrow> producer_life \<Rightarrow> bool" where
  pub_check: "i < length (pl_pubs s) \<Longrightarrow> pl_pubs s ! i = PubInit \<Longrightarrow> \<not> pl_writer s \<Longrightarrow>
     producer_step s (set_pub i (Publish_check (pl_closed s)) s)"
| pub_reject: "i < length (pl_pubs s) \<Longrightarrow> pl_pubs s ! i = PubChecked \<Longrightarrow>
     producer_step s (set_pub i (PubFailed None) s)"
| pub_send: "i < length (pl_pubs s) \<Longrightarrow> pl_pubs s ! i = PubChecked \<Longrightarrow>
     producer_step s (set_pub i (PubSent (pl_client_closes s \<noteq> 0)) s)"
| close_lock: "j < length (pl_closers s) \<Longrightarrow> pl_closers s ! j = PCInit \<Longrightarrow> \<not> pl_writer s \<Longrightarrow>
     producer_step s ((set_closer j PCLocked s)\<lparr>pl_writer := True\<rparr>)"
| close_again: "j < length (pl_closers s) \<Longrightarrow> pl_closers s ! j = PCLocked \<Longrightarrow> pl_closed s \<Longrightarrow>
     producer_step s ((set_closer j (Close_locked True) s)\<lparr>pl_writer := False\<rparr>)"
| close_set: "j < length (pl_closers s) \<Longrightarrow> pl_closers s ! j = PCLocked \<Longrightarrow> \<not> pl_closed s \<Longrightarrow>
     producer_step s ((set_closer j (Close_locked False) s)\<lparr>pl_closed := True\<rparr>)"
| close_client: "j < length (pl_closers s) \<Longrightarrow> pl_closers s ! j = PCClosing \<Longrightarrow>
     producer_step s ((set_closer j (Close_done err) s)
       \<lparr>pl_writer := False, pl_client_closes := Suc (pl_client_closes s)\<rparr>)"

subsection \<open>The invariant\<close>

definition holding :: "pclose_pc \<Rightarrow> bool" where
  "holding c \<longleftrightarrow> c = PCLocked \<or> c = PCClosing"

text \<open>
  One writer at most; the client was closed exactly if the flag is set and no \<open>Close\<close> is on
  its way to it.
\<close>

definition producer_life_inv :: "producer_life \<Rightarrow> bool" where
  "producer_life_inv s \<longleftrightarrow>
     length (filter holding (pl_closers s)) = (if pl_writer s then 1 else 0) \<and>
     length (filter (\<lambda>c. c = PCClosing) (pl_closers s)) + pl_client_closes s = (if pl_closed s then 1 else 0)"

lemmas plife_defs = set_pub_def set_closer_def

lemma holding_simps [simp]: "holding PCLocked" "holding PCClosing" "\<not> holding PCInit" "\<not> holding (PCReturned e)"
  by (simp_all add: holding_def)

lemma producer_step_inv: "producer_step s t \<Longrightarrow> producer_life_inv s \<Longrightarrow> producer_life_inv t"
proof (induction rule: producer_step.induct)
  case (close_lock j s)
  then show ?case by (simp add: producer_life_inv_def plife_defs count_update_same count_update_enter)
next
  case (close_again j s)
  from count_update_leave [where P = holding and y = "Close_locked True", OF close_again.hyps(1)] close_again
  show ?case
    by (auto simp: producer_life_inv_def plife_defs Close_locked_def count_update_same split: if_splits)
next
  case (close_set j s)
  then show ?case
    by (auto simp: producer_life_inv_def plife_defs Close_locked_def count_update_same count_update_enter
        split: if_splits)
next
  case (close_client j s err)
  from count_update_leave [where P = holding and y = "Close_done err", OF close_client.hyps(1)]
    count_update_leave [where P = "\<lambda>c. c = PCClosing" and y = "Close_done err", OF close_client.hyps(1)]
    close_client
  show ?case by (auto simp: producer_life_inv_def plife_defs Close_done_def split: if_splits)
qed (simp_all add: producer_life_inv_def plife_defs)

interpretation producer_life: step_invariant producer_initial producer_step producer_life_inv
proof unfold_locales
  fix s assume "producer_initial s"
  then show "producer_life_inv s"
    by (auto simp: producer_initial_def producer_life_inv_def holding_def filter_empty_conv list_all_iff)
qed (rule producer_step_inv)

text \<open>The closed flag is never reset; a publisher that has not been checked when it is set is turned away.\<close>

definition late :: "nat \<Rightarrow> producer_life \<Rightarrow> bool" where
  "late i s \<longleftrightarrow> pl_closed s \<and> i < length (pl_pubs s) \<and>
     (pl_pubs s ! i = PubInit \<or> pl_pubs s ! i = PubFailed (Some producer_ErrProducerClosed))"

lemma late_step: "producer_step s t \<Longrightarrow> late i s \<Longrightarrow> late i t"
  by (induction rule: producer_step.induct)
    (auto simp: late_def plife_defs Publish_check_def nth_list_update)

lemma late_steps: "producer_step\<^sup>*\<^sup>* s t \<Longrightarrow> late i s \<Longrightarrow> late i t"
  by (induction rule: rtranclp_induct) (auto intro: late_step)

lemma client_closed_flag: "producer_life_inv s \<Longrightarrow> pl_client_closes s \<noteq> 0 \<Longrightarrow> pl_closed s"
  by (auto simp: producer_life_inv_def split: if_splits)

subsection \<open>Every call returns\<close>

fun publish_rank :: "publish_pc \<Rightarrow> nat" where
  "publish_rank PubInit = 2" | "publish_rank PubChecked = 1" | "publish_rank _ = 0"

fun pclose_rank :: "pclose_pc \<Rightarrow> nat" where
  "pclose_rank PCInit = 3" | "pclose_rank PCLocked = 2" | "pclose_rank PCClosing = 1" | "pclose_rank (PCReturned e) = 0"

definition producer_rank :: "producer_life \<Rightarrow> nat" where
  "producer_rank s = sum_list (map publish_rank (pl_pubs s)) + sum_list (map pclose_rank (pl_closers s))"

definition producer_all_returned :: "producer_life \<Rightarrow> bool" where
  "producer_all_returned s \<longleftrightarrow> list_all (\<lambda>p. p \<noteq> PubInit \<and> p \<noteq> PubChecked) (pl_pubs s) \<and>
     list_all (\<lambda>c. pclose_rank c = 0) (pl_closers s)"

lemma producer_rank_step: "producer_step s t \<Longrightarrow> producer_rank t < producer_rank s"
proof (induction rule: producer_step.induct)
  case (pub_check i s)
  then show ?case using sum_update_less [of i "pl_pubs s" publish_rank "Publish_check (pl_closed s)"]
    by (simp add: producer_rank_def plife_defs Publish_check_def split: if_splits)
next
  case (pub_reject i s)
  then show ?case using sum_update_less [of i "pl_pubs s" publish_rank "PubFailed None"]
    by (simp add: producer_rank_def plife_defs)
next
  case (pub_send i s)
  then show ?case using sum_update_less [of i "pl_pubs s" publish_rank "PubSent (pl_client_closes s \<noteq> 0)"]
    by (simp add: producer_rank_def plife_defs)
next
  case (close_lock j s)
  then show ?case using sum_update_less [of j "pl_closers s" pclose_rank PCLocked]
    by (simp add: producer_rank_def plife_defs)
next
  case (close_again j s)
  then show ?case using sum_update_less [of j "pl_closers s" pclose_rank "Close_locked True"]
    by (simp add: producer_rank_def plife_defs Close_locked_def)
next
  case (close_set j s)
  then show ?case using sum_update_less [of j "pl_closers s" pclose_rank "Close_locked False"]
    by (simp add: producer_rank_def plife_defs Close_locked_def)
next
  case (close_client j s err)
  then show ?case using sum_update_less [of j "pl_closers s" pclose_rank "Close_done err"]
    by (simp add: producer_rank_def plife_defs Close_done_def)
qed

lemma producer_progress:
  assumes inv: "producer_life_inv s" and "\<not> producer_all_returned s"
  shows "\<exists>t. producer_step s t"
proof (cases "pl_writer s")
  case True
  with inv have "length (filter holding (pl_closers s)) \<noteq> 0" by (simp add: producer_life_inv_def)
  then obtain j where "j < length (pl_closers s)" "holding (pl_closers s ! j)"
    by (auto simp: filter_empty_conv in_set_conv_nth)
  then show ?thesis
    using producer_step.close_again producer_step.close_set producer_step.close_client
    unfolding holding_def by blast
next
  case False
  from assms(2) consider i where "i < length (pl_pubs s)" "pl_pubs s ! i = PubInit \<or> pl_pubs s ! i = PubChecked"
    | j where "j < length (pl_closers s)" "pclose_rank (pl_closers s ! j) \<noteq> 0"
    by (auto simp: producer_all_returned_def list_all_length)
  then show ?thesis
  proof cases
    case 1
    with False show ?thesis using producer_step.pub_check producer_step.pub_reject by blast
  next
    case (2 j)
    then show ?thesis
      using False producer_step.close_lock producer_step.close_again producer_step.close_set producer_step.close_client
      by (cases "pl_closers s ! j") (blast | simp)+
  qed
qed

interpretation producer_end: shutdown producer_initial producer_step producer_life_inv "\<lambda>s. True"
  producer_all_returned producer_rank
  by unfold_locales (auto dest: producer_rank_step producer_progress)

subsection \<open>Properties\<close>

definition plife_at :: "bool \<Rightarrow> bool \<Rightarrow> nat \<Rightarrow> publish_pc \<Rightarrow> pclose_pc \<Rightarrow> producer_life" where
  "plife_at cl w n p c = \<lparr>pl_closed = cl, pl_writer = w, pl_client_closes = n, pl_pubs = [p], pl_closers = [c]\<rparr>"

lemma plife_at_initial: "producer_initial (plife_at False False 0 PubInit PCInit)"
  by (simp add: producer_initial_def plife_at_def)

text \<open>One \<open>Close\<close> running from start to end around a publisher that stands still.\<close>

lemma plife_at_close:
  "producer_step\<^sup>*\<^sup>* (plife_at False False 0 p PCInit) (plife_at True False 1 p (PCReturned None))"
proof -
  have "producer_step (plife_at False False 0 p PCInit) (plife_at False True 0 p PCLocked)"
    using close_lock [of 0 "plife_at False False 0 p PCInit"] by (simp add: plife_at_def plife_defs)
  moreover have "producer_step (plife_at False True 0 p PCLocked) (plife_at True True 0 p PCClosing)"
    using close_set [of 0 "plife_at False True 0 p PCLocked"] by (simp add: plife_at_def plife_defs Close_locked_def)
  moreover have "producer_step (plife_at True True 0 p PCClosing) (plife_at True False 1 p (PCReturned None))"
    using close_client [of 0 "plife_at True True 0 p PCClosing" None]
    by (simp add: plife_at_def plife_defs Close_done_def)
  ultimately show ?thesis
    by (intro rtranclp.rtrancl_into_rtrancl [OF rtranclp.rtrancl_into_rtrancl [OF r_into_rtranclp]])
qed

lemma plife_at_check: "producer_step (plife_at cl False n PubInit c) (plife_at cl False n (Publish_check cl) c)"
  using pub_check [of 0 "plife_at cl False n PubInit c"] by (simp add: plife_at_def plife_defs)

lemma plife_at_send: "producer_step (plife_at cl w n PubChecked c) (plife_at cl w n (PubSent (n \<noteq> 0)) c)"
  using pub_send [of 0 "plife_at cl w n PubChecked c"] by (simp add: plife_at_def plife_defs)

lemma plife_at_reach: "reach producer_initial producer_step (plife_at False False 0 PubInit PCInit)"
  by (rule reach_init) (rule plife_at_initial)

lemma plife_at_checked: "reach producer_initial producer_step (plife_at False False 0 PubChecked PCInit)"
  using reach_step [where step = producer_step, OF plife_at_reach plife_at_check] by (simp add: Publish_check_def)

lemma plife_at_closed: "reach producer_initial producer_step (plife_at True False 1 PubInit (PCReturned None))"
  by (rule reach_rtranclp [OF plife_at_close plife_at_reach])

text \<open>
  C28: The closed check of a publication and its call of the client are not one atomic step:
  there is an interleaving in which \<open>Close\<close> has returned and the client is closed, and a
  publisher that was past its check then sends on the closed client.
\<close>

theorem producer_send_on_closed_client:
  "\<exists>s t. reach producer_initial producer_step s \<and> producer_step s t \<and>
     pl_closers s = [PCReturned None] \<and> pl_client_closes s = 1 \<and>
     pl_pubs s = [PubChecked] \<and> pl_pubs t = [PubSent True]"
proof -
  from reach_rtranclp [OF plife_at_close plife_at_checked]
  have "reach producer_initial producer_step (plife_at True False 1 PubChecked (PCReturned None))" .
  with plife_at_send [of True False 1 "PCReturned None"] show ?thesis
    by (intro exI [of _ "plife_at True False 1 PubChecked (PCReturned None)"]
        exI [of _ "plife_at True False 1 (PubSent True) (PCReturned None)"]) (simp add: plife_at_def)
qed

text \<open>
  C27: Outside that window closing is sound: in every interleaving the client is closed at most
  once, and a publisher that makes its check after the client was closed never reaches the
  client but gets the error that the producer is closed.
\<close>

theorem producer_close_rejects_late_publishers:
  assumes "reach producer_initial producer_step s"
  shows "pl_client_closes s \<le> 1 \<and>
    (\<forall>i t. pl_client_closes s = 1 \<and> i < length (pl_pubs s) \<and> pl_pubs s ! i = PubInit \<and> producer_step\<^sup>*\<^sup>* s t \<longrightarrow>
       pl_pubs t ! i = PubInit \<or> pl_pubs t ! i = PubFailed (Some producer_ErrProducerClosed))"
proof (intro conjI allI impI)
  have inv: "producer_life_inv s" by (rule producer_life.reach_inv [OF assms])
  then show "pl_client_closes s \<le> 1" by (auto simp: producer_life_inv_def split: if_splits)
  fix i t
  assume a: "pl_client_closes s = 1 \<and> i < length (pl_pubs s) \<and> pl_pubs s ! i = PubInit \<and> producer_step\<^sup>*\<^sup>* s t"
  with client_closed_flag [OF inv] have "late i s" by (simp add: late_def)
  with a late_steps have "late i t" by blast
  then show "pl_pubs t ! i = PubInit \<or> pl_pubs t ! i = PubFailed (Some producer_ErrProducerClosed)"
    by (simp add: late_def)
qed

theorem producer_close_rejects_late_publishers_witness:
  "pl_client_closes (plife_at True False 1 PubInit (PCReturned None)) = 1 \<and>
   pl_pubs (plife_at True False 1 (Publish_check True) (PCReturned None)) ! 0 = PubFailed (Some producer_ErrProducerClosed)"
proof -
  let ?s = "plife_at True False 1 PubInit (PCReturned None)"
  let ?t = "plife_at True False 1 (Publish_check True) (PCReturned None)"
  have "producer_step\<^sup>*\<^sup>* ?s ?t" by (rule r_into_rtranclp) (rule plife_at_check)
  moreover have "pl_client_closes ?s = 1" "0 < length (pl_pubs ?s)" "pl_pubs ?s ! 0 = PubInit"
    by (simp_all add: plife_at_def)
  ultimately have "pl_pubs ?t ! 0 = PubInit \<or> pl_pubs ?t ! 0 = PubFailed (Some producer_ErrProducerClosed)"
    using producer_close_rejects_late_publishers [OF plife_at_closed] by blast
  moreover have "pl_pubs ?t ! 0 \<noteq> PubInit" by (simp add: plife_at_def Publish_check_def)
  ultimately show ?thesis by (simp add: plife_at_def)
qed

text \<open>
  C29: Publishing and closing never deadlock and always end: no interleaving is infinite, each
  can be continued until every call has returned, and one that cannot be continued has got there.
\<close>

theorem producer_calls_return:
  assumes "reach producer_initial producer_step s"
  shows "(\<exists>t. producer_step\<^sup>*\<^sup>* s t \<and> producer_all_returned t) \<and>
    (\<forall>t. producer_step\<^sup>*\<^sup>* s t \<and> \<not> (\<exists>u. producer_step t u) \<longrightarrow> producer_all_returned t) \<and>
    \<not> (\<exists>f. f (0::nat) = s \<and> (\<forall>n. producer_step (f n) (f (Suc n))))"
  by (rule producer_end.orderly_end [OF assms TrueI])

theorem producer_calls_return_witness:
  "\<exists>t. producer_step\<^sup>*\<^sup>* (plife_at True False 1 PubInit (PCReturned None)) t \<and> producer_all_returned t"
  using producer_calls_return [OF plife_at_closed] by blast

end
