(* ===== verification/GoCalendar.thy ===== *)
theory GoCalendar
  imports GoTime
begin

section \<open>Dates\<close>

text \<open>
  The proleptic Gregorian calendar behind \<open>time.Date\<close> and the formatting of times: days are
  counted from January 1 of year 1. Taking a day apart into year, month and day and counting it
  again gives the same day.
\<close>

definition leap_year :: "int \<Rightarrow> bool" where
  "leap_year y \<longleftrightarrow> 4 dvd y \<and> (\<not> 100 dvd y \<or> 400 dvd y)"

text \<open>Days from January 1 of year 1 to January 1 of year \<open>y\<close>.\<close>

definition days_before_year :: "int \<Rightarrow> int" where
  "days_before_year y = 365 * (y - 1) + (y - 1) div 4 - (y - 1) div 100 + (y - 1) div 400"

definition month_lengths :: "bool \<Rightarrow> int list" where
  "month_lengths leap = [31, if leap then 29 else 28, 31, 30, 31, 30, 31, 31, 30, 31, 30, 31]"

definition days_in :: "int \<Rightarrow> nat \<Rightarrow> int" where
  "days_in y m = (if 1 \<le> m \<and> m \<le> 12 then month_lengths (leap_year y) ! (m - 1) else 0)"

definition civil_days :: "int \<Rightarrow> nat \<Rightarrow> int \<Rightarrow> int" where
  "civil_days y m d = days_before_year y + sum_list (take (m - 1) (month_lengths (leap_year y))) + (d - 1)"

text \<open>The month and day of a day of the year (from 0).\<close>

fun month_of :: "int list \<Rightarrow> nat \<Rightarrow> int \<Rightarrow> nat \<times> int" where
  "month_of [] m n = (m, n + 1)"
| "month_of (l # ls) m n = (if n < l then (m, n + 1) else month_of ls (Suc m) (n - l))"

text \<open>The year by cycles of 400, 100, 4 and 1 years.\<close>

definition civil_year :: "int \<Rightarrow> int \<times> int" where
  "civil_year n =
     (let a = n div 146097; r = n mod 146097;
          b = min (r div 36524) 3; r2 = r - 36524 * b;
          c = r2 div 1461; r3 = r2 mod 1461;
          e = min (r3 div 365) 3
      in (400 * a + 100 * b + 4 * c + e + 1, r3 - 365 * e))"

definition civil_date :: "int \<Rightarrow> int \<times> nat \<times> int" where
  "civil_date n = (case civil_year n of (y, yday) \<Rightarrow>
     case month_of (month_lengths (leap_year y)) 1 yday of (m, d) \<Rightarrow> (y, m, d))"

lemma month_of_sum:
  assumes "month_of ls m n = (m', d)" "0 \<le> n" "n < sum_list ls"
  shows "m \<le> m' \<and> m' < m + length ls \<and> sum_list (take (m' - m) ls) + (d - 1) = n \<and> 1 \<le> d \<and> d \<le> ls ! (m' - m)"
  using assms
proof (induction ls m n rule: month_of.induct)
  case (2 l ls m n)
  show ?case
  proof (cases "n < l")
    case False
    with 2 have ih: "Suc m \<le> m' \<and> m' < Suc m + length ls \<and> sum_list (take (m' - Suc m) ls) + (d - 1) = n - l \<and>
        1 \<le> d \<and> d \<le> ls ! (m' - Suc m)" by simp
    then have "m' - m = Suc (m' - Suc m)" by linarith
    with ih show ?thesis by simp
  qed (use 2 in auto)
qed simp

lemma year_cycles:
  fixes a b c e :: int
  assumes "0 \<le> b" "b \<le> 3" "0 \<le> c" "c \<le> 24" "0 \<le> e" "e \<le> 3"
  shows "days_before_year (400 * a + 100 * b + 4 * c + e + 1) = 146097 * a + 36524 * b + 1461 * c + 365 * e"
    and "leap_year (400 * a + 100 * b + 4 * c + e + 1) \<longleftrightarrow> e = 3 \<and> (c \<noteq> 24 \<or> b = 3)"
proof -
  let ?y = "400 * a + 100 * b + 4 * c + e"
  have "?y = 4 * (100 * a + 25 * b + c) + e" "?y = 100 * (4 * a + b) + (4 * c + e)" "?y = 400 * a + (100 * b + 4 * c + e)"
    by simp_all
  then have "?y div 4 = 100 * a + 25 * b + c" "?y div 100 = 4 * a + b" "?y div 400 = a"
    using assms by (auto intro!: int_div_pos_eq simp: algebra_simps)
  then show "days_before_year (?y + 1) = 146097 * a + 36524 * b + 1461 * c + 365 * e"
    by (simp add: days_before_year_def)
  have dvd_top: "k dvd k * q + z \<longleftrightarrow> z = k" if "1 \<le> z" "z \<le> k" for k q z :: int
    using that zdvd_imp_le [of k z] by (auto simp: dvd_add_right_iff)
  have "4 dvd 4 * (100 * a + 25 * b + c) + (e + 1) \<longleftrightarrow> e + 1 = 4"
    "100 dvd 100 * (4 * a + b) + (4 * c + e + 1) \<longleftrightarrow> 4 * c + e + 1 = 100"
    "400 dvd 400 * a + (100 * b + 4 * c + e + 1) \<longleftrightarrow> 100 * b + 4 * c + e + 1 = 400"
    using assms by - (rule dvd_top; linarith)+
  moreover have "4 * (100 * a + 25 * b + c) + (e + 1) = ?y + 1" "100 * (4 * a + b) + (4 * c + e + 1) = ?y + 1"
    "400 * a + (100 * b + 4 * c + e + 1) = ?y + 1" by simp_all
  ultimately have "4 dvd ?y + 1 \<longleftrightarrow> e + 1 = 4" "100 dvd ?y + 1 \<longleftrightarrow> 4 * c + e + 1 = 100"
    "400 dvd ?y + 1 \<longleftrightarrow> 100 * b + 4 * c + e + 1 = 400" by metis+
  moreover have "4 * c + e + 1 = 100 \<longleftrightarrow> e = 3 \<and> c = 24" using assms by linarith
  moreover have "100 * b + 4 * c + e + 1 = 400 \<longleftrightarrow> e = 3 \<and> c = 24 \<and> b = 3" using assms by linarith
  moreover have "e + 1 = 4 \<longleftrightarrow> e = 3" by linarith
  ultimately show "leap_year (?y + 1) \<longleftrightarrow> e = 3 \<and> (c \<noteq> 24 \<or> b = 3)" unfolding leap_year_def by blast
qed

lemma civil_year_bounds:
  assumes "civil_year n = (y, yday)"
  shows "days_before_year y + yday = n \<and> 0 \<le> yday \<and> yday < (if leap_year y then 366 else 365)"
proof -
  define a r where ar: "a = n div 146097" "r = n mod 146097"
  define b r2 where br: "b = min (r div 36524) 3" "r2 = r - 36524 * b"
  define c r3 where cr: "c = r2 div 1461" "r3 = r2 mod 1461"
  define e where e: "e = min (r3 div 365) 3"
  have y: "y = 400 * a + 100 * b + 4 * c + e + 1" "yday = r3 - 365 * e"
  proof -
    have "civil_year n = (400 * a + 100 * b + 4 * c + e + 1, r3 - 365 * e)"
      by (simp only: civil_year_def Let_def ar br cr e)
    with assms show "y = 400 * a + 100 * b + 4 * c + e + 1" "yday = r3 - 365 * e" by simp_all
  qed
  have n: "n = 146097 * a + r" "0 \<le> r" "r < 146097" unfolding ar by simp_all
  have b: "0 \<le> b" "b \<le> 3" "0 \<le> r2" "b < 3 \<Longrightarrow> r2 < 36524" "r2 \<le> 36524" using n unfolding br by auto
  have c: "r2 = 1461 * c + r3" "0 \<le> r3" "r3 < 1461" unfolding cr by simp_all
  have c': "0 \<le> c" "c \<le> 24" "c = 24 \<Longrightarrow> b < 3 \<Longrightarrow> r3 < 1460" using b c by linarith+
  have e': "0 \<le> e" "e \<le> 3" "0 \<le> r3 - 365 * e" "e < 3 \<Longrightarrow> r3 - 365 * e < 365" "r3 - 365 * e \<le> 365"
    using c(2,3) unfolding e by auto
  note cyc = year_cycles [OF b(1,2) c'(1,2) e'(1,2), of a]
  have "days_before_year y + yday = n"
    using cyc(1) y n(1) br(2) c(1) by simp
  moreover have "yday < (if leap_year y then 366 else 365)"
    using cyc(2) e'(4,5) c'(3) b(2) unfolding y by (auto simp: e)
  ultimately show ?thesis using e'(3) y(2) by simp
qed

lemma civil_date_days:
  assumes "civil_date n = (y, m, d)"
  shows "civil_days y m d = n \<and> 1 \<le> m \<and> m \<le> 12 \<and> 1 \<le> d \<and> d \<le> days_in y m"
proof -
  obtain yday where yd: "civil_year n = (y, yday)" "month_of (month_lengths (leap_year y)) 1 yday = (m, d)"
    using assms by (auto simp: civil_date_def split: prod.splits)
  have "length (month_lengths l) = 12" "sum_list (month_lengths l) = (if l then 366 else 365)" for l
    by (simp_all add: month_lengths_def)
  with month_of_sum [OF yd(2)] civil_year_bounds [OF yd(1)] show ?thesis
    by (auto simp: civil_days_def days_in_def)
qed

end
