(* ===== verification/JsonScanner.thy ===== *)
theory JsonScanner
  imports Prelude
begin

section \<open>The JSON scanner of the standard library\<close>

text \<open>
  \<open>encoding/json\<close> checks the syntax of its input with a byte-driven automaton: a state and a
  stack of the objects and arrays that are open. The same automaton removes insignificant space
  (\<open>compact\<close>) and delimits the values of an object. The states and transitions are those of the
  library; \<open>None\<close> is a syntax error.
\<close>

datatype parse_state = ObjectKey | ObjectValue | ArrayValue

datatype scan_state =
    BeginValue | BeginValueOrEmpty | BeginString | BeginStringOrEmpty | EndValue | EndTop
  | InString | InStringEsc | InStringEscU | InStringEscU1 | InStringEscU12 | InStringEscU123
  | StNeg | St1 | St0 | StDot | StDot0 | StE | StESign | StE0
  | StT | StTr | StTru | StF | StFa | StFal | StFals | StN | StNu | StNul

type_synonym scanner = "scan_state \<times> parse_state list"

definition maxNestingDepth :: nat where "maxNestingDepth = 10000"

definition json_space :: "char \<Rightarrow> bool" where
  "json_space c \<longleftrightarrow> c = CHR '' '' \<or> c = CHR 0x09 \<or> c = CHR 0x0D \<or> c = CHR 0x0A"

definition digit19 :: "char \<Rightarrow> bool" where
  "digit19 c \<longleftrightarrow> is_digit c \<and> c \<noteq> CHR ''0''"

definition is_hex :: "char \<Rightarrow> bool" where
  "is_hex c \<longleftrightarrow> is_digit c \<or> (0x61 \<le> (of_char c :: nat) \<and> (of_char c :: nat) \<le> 0x66) \<or>
     (0x41 \<le> (of_char c :: nat) \<and> (of_char c :: nat) \<le> 0x46)"

definition push_state :: "scan_state \<Rightarrow> parse_state \<Rightarrow> parse_state list \<Rightarrow> scanner option" where
  "push_state st p stk = (if length stk < maxNestingDepth then Some (st, p # stk) else None)"

definition pop_state :: "parse_state list \<Rightarrow> scanner" where
  "pop_state stk = (if stk = [] then (EndTop, []) else (EndValue, stk))"

text \<open>\<open>stateEndTop\<close> and \<open>stateEndValue\<close>, which other states fall through to.\<close>

definition end_top :: "char \<Rightarrow> scanner option" where
  "end_top c = (if json_space c then Some (EndTop, []) else None)"

definition end_value :: "char \<Rightarrow> parse_state list \<Rightarrow> scanner option" where
  "end_value c stk = (case stk of
     [] \<Rightarrow> end_top c
   | p # ps \<Rightarrow>
      if json_space c then Some (EndValue, stk)
      else (case p of
          ObjectKey \<Rightarrow> if c = CHR '':'' then Some (BeginValue, ObjectValue # ps) else None
        | ObjectValue \<Rightarrow>
            if c = CHR '','' then Some (BeginString, ObjectKey # ps)
            else if c = CHR ''}'' then Some (pop_state ps) else None
        | ArrayValue \<Rightarrow>
            if c = CHR '','' then Some (BeginValue, stk)
            else if c = CHR '']'' then Some (pop_state ps) else None))"

text \<open>The state after the first character of a string, number or literal.\<close>

definition scalar_start :: "char \<Rightarrow> scan_state option" where
  "scalar_start c =
     (if c = CHR 0x22 then Some InString
      else if c = CHR ''-'' then Some StNeg
      else if c = CHR ''0'' then Some St0
      else if c = CHR ''t'' then Some StT
      else if c = CHR ''f'' then Some StF
      else if c = CHR ''n'' then Some StN
      else if digit19 c then Some St1
      else None)"

definition begin_value :: "char \<Rightarrow> parse_state list \<Rightarrow> scanner option" where
  "begin_value c stk =
     (if json_space c then Some (BeginValue, stk)
      else if c = CHR ''{'' then push_state BeginStringOrEmpty ObjectKey stk
      else if c = CHR ''['' then push_state BeginValueOrEmpty ArrayValue stk
      else map_option (\<lambda>st. (st, stk)) (scalar_start c))"

lemma scalar_start_states: "scalar_start c = Some st \<Longrightarrow> st \<in> {InString, StNeg, St0, StT, StF, StN, St1}"
  by (auto simp: scalar_start_def split: if_splits)

definition begin_string :: "char \<Rightarrow> parse_state list \<Rightarrow> scanner option" where
  "begin_string c stk =
     (if json_space c then Some (BeginString, stk)
      else if c = CHR 0x22 then Some (InString, stk) else None)"

definition state_0 :: "char \<Rightarrow> parse_state list \<Rightarrow> scanner option" where
  "state_0 c stk =
     (if c = CHR ''.'' then Some (StDot, stk)
      else if c = CHR ''e'' \<or> c = CHR ''E'' then Some (StE, stk)
      else end_value c stk)"

definition expect :: "bool \<Rightarrow> scan_state \<Rightarrow> parse_state list \<Rightarrow> scanner option" where
  "expect b st stk = (if b then Some (st, stk) else None)"

fun scan_step :: "char \<Rightarrow> scanner \<Rightarrow> scanner option" where
  "scan_step c (BeginValueOrEmpty, stk) =
     (if json_space c then Some (BeginValueOrEmpty, stk)
      else if c = CHR '']'' then end_value c stk else begin_value c stk)"
| "scan_step c (BeginValue, stk) = begin_value c stk"
| "scan_step c (BeginStringOrEmpty, stk) =
     (if json_space c then Some (BeginStringOrEmpty, stk)
      else if c = CHR ''}'' then end_value c (ObjectValue # tl stk) else begin_string c stk)"
| "scan_step c (BeginString, stk) = begin_string c stk"
| "scan_step c (EndValue, stk) = end_value c stk"
| "scan_step c (EndTop, stk) = end_top c"
| "scan_step c (InString, stk) =
     (if c = CHR 0x22 then Some (EndValue, stk)
      else if c = CHR 0x5C then Some (InStringEsc, stk)
      else expect (0x20 \<le> (of_char c :: nat)) InString stk)"
| "scan_step c (InStringEsc, stk) =
     (if c = CHR ''u'' then Some (InStringEscU, stk)
      else expect (c \<in> {CHR ''b'', CHR ''f'', CHR ''n'', CHR ''r'', CHR ''t'', CHR 0x5C, CHR ''/'', CHR 0x22}) InString stk)"
| "scan_step c (InStringEscU, stk) = expect (is_hex c) InStringEscU1 stk"
| "scan_step c (InStringEscU1, stk) = expect (is_hex c) InStringEscU12 stk"
| "scan_step c (InStringEscU12, stk) = expect (is_hex c) InStringEscU123 stk"
| "scan_step c (InStringEscU123, stk) = expect (is_hex c) InString stk"
| "scan_step c (StNeg, stk) = (if c = CHR ''0'' then Some (St0, stk) else expect (digit19 c) St1 stk)"
| "scan_step c (St1, stk) = (if is_digit c then Some (St1, stk) else state_0 c stk)"
| "scan_step c (St0, stk) = state_0 c stk"
| "scan_step c (StDot, stk) = expect (is_digit c) StDot0 stk"
| "scan_step c (StDot0, stk) =
     (if is_digit c then Some (StDot0, stk)
      else if c = CHR ''e'' \<or> c = CHR ''E'' then Some (StE, stk) else end_value c stk)"
| "scan_step c (StE, stk) =
     (if c = CHR ''+'' \<or> c = CHR ''-'' then Some (StESign, stk) else expect (is_digit c) StE0 stk)"
| "scan_step c (StESign, stk) = expect (is_digit c) StE0 stk"
| "scan_step c (StE0, stk) = (if is_digit c then Some (StE0, stk) else end_value c stk)"
| "scan_step c (StT, stk) = expect (c = CHR ''r'') StTr stk"
| "scan_step c (StTr, stk) = expect (c = CHR ''u'') StTru stk"
| "scan_step c (StTru, stk) = expect (c = CHR ''e'') EndValue stk"
| "scan_step c (StF, stk) = expect (c = CHR ''a'') StFa stk"
| "scan_step c (StFa, stk) = expect (c = CHR ''l'') StFal stk"
| "scan_step c (StFal, stk) = expect (c = CHR ''s'') StFals stk"
| "scan_step c (StFals, stk) = expect (c = CHR ''e'') EndValue stk"
| "scan_step c (StN, stk) = expect (c = CHR ''u'') StNu stk"
| "scan_step c (StNu, stk) = expect (c = CHR ''l'') StNul stk"
| "scan_step c (StNul, stk) = expect (c = CHR ''l'') EndValue stk"

fun scan_run :: "bytes \<Rightarrow> scanner \<Rightarrow> scanner option" where
  "scan_run [] s = Some s"
| "scan_run (c # cs) s = (case scan_step c s of None \<Rightarrow> None | Some s' \<Rightarrow> scan_run cs s')"

text \<open>The end of the input: as if a space followed, the top-level value has to be complete.\<close>

definition scan_eof :: "scanner \<Rightarrow> bool" where
  "scan_eof s \<longleftrightarrow> fst s = EndTop \<or> (case scan_step (CHR '' '') s of Some (EndTop, _) \<Rightarrow> True | _ \<Rightarrow> False)"

definition json_valid :: "bytes \<Rightarrow> bool" where
  "json_valid data \<longleftrightarrow> (case scan_run data (BeginValue, []) of None \<Rightarrow> False | Some s \<Rightarrow> scan_eof s)"

lemma scan_run_append:
  "scan_run (xs @ ys) s = (case scan_run xs s of None \<Rightarrow> None | Some s' \<Rightarrow> scan_run ys s')"
  by (induction xs arbitrary: s) (auto split: option.splits)

lemma scan_run_appendI: "scan_run xs s = Some s' \<Longrightarrow> scan_run ys s' = r \<Longrightarrow> scan_run (xs @ ys) s = r"
  by (simp add: scan_run_append)

lemmas scan_defs = end_value_def end_top_def begin_value_def scalar_start_def begin_string_def state_0_def expect_def
  push_state_def pop_state_def

subsection \<open>A value inside another\<close>

text \<open>
  A complete value in a deeper context: the automaton behaves there as at the top level, the
  state after the value excepted (\<open>EndTop\<close> becomes \<open>EndValue\<close>), as long as the nesting limit
  is not reached. \<open>lift ctx\<close> puts a context below a scanner.
\<close>

definition lift :: "parse_state list \<Rightarrow> scanner \<Rightarrow> scanner" where
  "lift ctx s = (if fst s = EndTop then EndValue else fst s, snd s @ ctx)"

definition scanner_wf :: "scanner \<Rightarrow> bool" where
  "scanner_wf s \<longleftrightarrow> (fst s = EndTop \<longrightarrow> snd s = []) \<and> (fst s = BeginStringOrEmpty \<longrightarrow> snd s \<noteq> []) \<and>
     (fst s = BeginValueOrEmpty \<longrightarrow> snd s \<noteq> [])"

lemma lift_simps [simp]:
  "lift ctx (EndTop, stk) = (EndValue, stk @ ctx)" "st \<noteq> EndTop \<Longrightarrow> lift ctx (st, stk) = (st, stk @ ctx)"
  by (simp_all add: lift_def)

lemma lift_end_value:
  "end_value c stk = Some s' \<Longrightarrow> ctx \<noteq> [] \<Longrightarrow> end_value c (stk @ ctx) = Some (lift ctx s')"
  by (cases stk; cases ctx; cases "hd stk")
    (auto simp: end_value_def end_top_def pop_state_def split: if_splits)

lemma lift_push:
  "push_state st p stk = Some s' \<Longrightarrow> st \<noteq> EndTop \<Longrightarrow> length (snd s') + length ctx \<le> maxNestingDepth \<Longrightarrow>
   push_state st p (stk @ ctx) = Some (lift ctx s')"
  by (auto simp: push_state_def split: if_splits)

lemma lift_begin_value:
  "begin_value c stk = Some s' \<Longrightarrow> length (snd s') + length ctx \<le> maxNestingDepth \<Longrightarrow>
   begin_value c (stk @ ctx) = Some (lift ctx s')"
proof -
  assume bv: "begin_value c stk = Some s'" and d: "length (snd s') + length ctx \<le> maxNestingDepth"
  consider "\<not> json_space c" "c = CHR ''{''" | "\<not> json_space c" "c = CHR ''[''" | "json_space c \<or> (c \<noteq> CHR ''{'' \<and> c \<noteq> CHR ''['')"
    by blast
  then show ?thesis
  proof cases
    case 1
    with bv d lift_push [of BeginStringOrEmpty ObjectKey stk s' ctx] show ?thesis by (simp add: begin_value_def)
  next
    case 2
    with bv d lift_push [of BeginValueOrEmpty ArrayValue stk s' ctx] show ?thesis by (simp add: begin_value_def)
  next
    case 3
    with bv show ?thesis using scalar_start_states [of c]
      by (cases "json_space c") (auto simp: begin_value_def)
  qed
qed

lemma lift_begin_string: "begin_string c stk = Some s' \<Longrightarrow> begin_string c (stk @ ctx) = Some (lift ctx s')"
  by (auto simp: begin_string_def split: if_splits)

lemma lift_state_0: "state_0 c stk = Some s' \<Longrightarrow> ctx \<noteq> [] \<Longrightarrow> state_0 c (stk @ ctx) = Some (lift ctx s')"
  by (auto simp: state_0_def lift_end_value split: if_splits)

lemma lift_expect: "expect b st stk = Some s' \<Longrightarrow> st \<noteq> EndTop \<Longrightarrow> expect b st (stk @ ctx) = Some (lift ctx s')"
  by (auto simp: expect_def split: if_splits)

lemmas lift_rules = lift_end_value lift_begin_value lift_begin_string lift_state_0 lift_expect

lemma lift_step:
  assumes "scan_step c s = Some s'" "scanner_wf s" "ctx \<noteq> []" "length (snd s') + length ctx \<le> maxNestingDepth"
  shows "scan_step c (lift ctx s) = Some (lift ctx s')"
proof (cases s)
  case (Pair st stk)
  show ?thesis
  proof (cases st)
    case EndTop
    with Pair assms(1,2) have "stk = []" "s' = (EndTop, [])" "json_space c"
      by (auto simp: scanner_wf_def end_top_def split: if_splits)
    with EndTop Pair assms(3) show ?thesis by (cases ctx) (auto simp: end_value_def)
  next
    case BeginStringOrEmpty
    with Pair assms(2) obtain p ps where "stk = p # ps" by (cases stk) (auto simp: scanner_wf_def)
    with BeginStringOrEmpty Pair assms lift_end_value [of c "ObjectValue # ps" s' ctx]
      lift_begin_string [of c "p # ps" s' ctx] show ?thesis
      by (auto split: if_splits)
  qed (use Pair assms in \<open>auto intro: lift_rules split: if_splits\<close>)
qed

lemma scanner_wf_simps [simp]:
  "scanner_wf (EndTop, stk) \<longleftrightarrow> stk = []" "scanner_wf (BeginStringOrEmpty, stk) \<longleftrightarrow> stk \<noteq> []"
  "scanner_wf (BeginValueOrEmpty, stk) \<longleftrightarrow> stk \<noteq> []"
  "st \<noteq> EndTop \<Longrightarrow> st \<noteq> BeginStringOrEmpty \<Longrightarrow> st \<noteq> BeginValueOrEmpty \<Longrightarrow> scanner_wf (st, stk)"
  by (simp_all add: scanner_wf_def)

lemma end_value_wf: "end_value c stk = Some t \<Longrightarrow> scanner_wf t"
  by (cases stk; cases "hd stk") (auto simp: end_value_def end_top_def pop_state_def split: if_splits)

lemma begin_value_wf: "begin_value c stk = Some t \<Longrightarrow> scanner_wf t"
  using scalar_start_states [of c] by (auto simp: begin_value_def push_state_def split: if_splits)

lemma begin_string_wf: "begin_string c stk = Some t \<Longrightarrow> scanner_wf t"
  by (auto simp: begin_string_def split: if_splits)

lemma state_0_wf: "state_0 c stk = Some t \<Longrightarrow> scanner_wf t"
  by (auto simp: state_0_def end_value_wf split: if_splits)

lemma expect_wf: "expect b st stk = Some t \<Longrightarrow> scanner_wf (st, stk) \<Longrightarrow> scanner_wf t"
  by (auto simp: expect_def split: if_splits)

lemmas wf_rules = end_value_wf begin_value_wf begin_string_wf state_0_wf

lemma scan_step_wf:
  assumes "scan_step c s = Some s'" "scanner_wf s"
  shows "scanner_wf s'"
proof -
  obtain st stk where s: "s = (st, stk)" by (cases s)
  show ?thesis
  proof (cases st)
    case EndTop
    with s assms show ?thesis by (auto simp: end_top_def split: if_splits)
  next
    case InString
    with s assms show ?thesis by (auto dest: expect_wf split: if_splits)
  next
    case InStringEsc
    with s assms have "s' = (InStringEscU, stk) \<or> s' = (InString, stk)" by (simp add: expect_def split: if_splits)
    then show ?thesis by auto
  qed (use s assms in \<open>auto intro: wf_rules dest: expect_wf split: if_splits\<close>)
qed

lemma scan_run_wf: "scan_run xs s = Some s' \<Longrightarrow> scanner_wf s \<Longrightarrow> scanner_wf s'"
  by (induction xs arbitrary: s) (auto dest: scan_step_wf split: option.splits)

subsection \<open>Where a value ends\<close>

definition number_end :: "scan_state \<Rightarrow> bool" where
  "number_end st \<longleftrightarrow> st = St1 \<or> st = St0 \<or> st = StDot0 \<or> st = StE0"

text \<open>The states in which a top-level value may be over.\<close>

definition value_end :: "scanner \<Rightarrow> bool" where
  "value_end s \<longleftrightarrow> snd s = [] \<and> (fst s = EndTop \<or> fst s = EndValue \<or> number_end (fst s))"

text \<open>The bytes that end a value inside another.\<close>

definition delimiter :: "char \<Rightarrow> bool" where
  "delimiter c \<longleftrightarrow> c = CHR '','' \<or> c = CHR ''}'' \<or> c = CHR '':'' \<or> c = CHR '']''"

lemma delimiters [simp]:
  "delimiter (CHR '','')" "delimiter (CHR ''}'')" "delimiter (CHR '':'')" "delimiter (CHR '']'')"
  by (simp_all add: delimiter_def)

lemma json_space_not [simp]:
  "\<not> json_space (CHR '']'')" "\<not> json_space (CHR '','')" "\<not> json_space (CHR ''}'')" "\<not> json_space (CHR '':'')" "\<not> json_space (CHR 0x22)"
  "\<not> json_space (CHR ''{'')" "json_space (CHR '' '')"
  by (simp_all add: json_space_def)

lemma not_digit_delims [simp]:
  "\<not> is_digit (CHR '','')" "\<not> is_digit (CHR ''}'')" "\<not> is_digit (CHR '' '')" "\<not> is_digit (CHR 0x22)" "\<not> is_digit (CHR ''{'')" "\<not> is_digit (CHR '':'')" "\<not> is_digit (CHR '']'')"
  by (simp_all add: is_digit_def)

lemma scan_eof_value_end: "scan_eof s \<Longrightarrow> scanner_wf s \<Longrightarrow> value_end s"
proof -
  assume eof: "scan_eof s" and wf: "scanner_wf s"
  obtain st stk where s: "s = (st, stk)" by (cases s)
  have ev: "stk' = []" if "end_value (CHR '' '') stk' = Some (EndTop, z)" for stk' z
    using that by (cases stk') (auto simp: end_value_def)
  show "value_end s"
    using eof wf ev [of stk] by (cases st; simp add: s scan_eof_def value_end_def scanner_wf_def number_end_def
        state_0_def begin_value_def begin_string_def expect_def digit19_def is_hex_def split: option.splits prod.splits scan_state.splits)
qed

lemma value_end_eof: "value_end s \<Longrightarrow> scan_eof s"
  by (cases s) (auto simp: value_end_def scan_eof_def number_end_def state_0_def end_value_def end_top_def)

lemma value_end_delim:
  "value_end s \<Longrightarrow> c = CHR '','' \<or> c = CHR ''}'' \<or> c = CHR '']'' \<Longrightarrow> ctx \<noteq> [] \<Longrightarrow> scan_step c (lift ctx s) = end_value c ctx"
  by (cases s) (auto simp: value_end_def number_end_def state_0_def)

text \<open>The text of the value at the start of the input and what follows it.\<close>

fun scan_value :: "bytes \<Rightarrow> scanner \<Rightarrow> bytes \<times> bytes" where
  "scan_value [] s = ([], [])"
| "scan_value (c # cs) s =
     (if fst s = EndTop \<or> snd s = [] \<and> (fst s = EndValue \<or> number_end (fst s) \<and> json_space c) then ([], c # cs)
      else (case scan_step c s of
          None \<Rightarrow> ([], c # cs)
        | Some s' \<Rightarrow> (case scan_value cs s' of (v, r) \<Rightarrow> (c # v, r))))"

lemma scan_value_split: "scan_value xs s = (v, r) \<Longrightarrow> xs = v @ r"
  by (induction xs arbitrary: s v) (auto split: if_splits option.splits prod.splits)

lemma scan_run_EndTop: "scan_run xs (EndTop, stk) = Some s \<Longrightarrow> list_all json_space xs"
  by (induction xs arbitrary: stk) (auto simp: end_top_def split: if_splits)

lemma scan_value_whole:
  assumes "scan_run p s = Some s'" "scanner_wf s" "value_end s'" "p = [] \<or> \<not> json_space (last p)"
    "delimiter c"
  shows "scan_value (p @ c # rest) s = (p, c # rest)"
  using assms
proof (induction p arbitrary: s)
  case Nil
  then show ?case
    by (cases s) (auto simp: delimiter_def value_end_def number_end_def state_0_def end_value_def end_top_def)
next
  case (Cons x xs)
  then obtain t where t: "scan_step x s = Some t" "scan_run xs t = Some s'" by (auto split: option.splits)
  have over: False if "fst t = EndTop" "json_space x"
  proof -
    from that(1) t(2) scan_run_EndTop have "list_all json_space xs" by (metis prod.collapse)
    with that(2) Cons.prems(4) show False by (cases "xs = []") (auto simp: list_all_iff)
  qed
  have end_top: "t = (EndTop, []) \<and> json_space x" if "fst s = EndTop \<or> snd s = [] \<and> (fst s = EndValue \<or> number_end (fst s) \<and> json_space x)"
  proof -
    have ns: "\<not> is_digit x \<and> x \<noteq> CHR ''.'' \<and> x \<noteq> CHR ''e'' \<and> x \<noteq> CHR ''E''" if "json_space x"
      using that by (auto simp: json_space_def is_digit_def)
    show ?thesis
      using that t(1) ns Cons.prems(2)
      by (cases s) (auto simp: end_value_def end_top_def number_end_def state_0_def split: if_splits)
  qed
  with over have "\<not> (fst s = EndTop \<or> snd s = [] \<and> (fst s = EndValue \<or> number_end (fst s) \<and> json_space x))" by auto
  moreover have "scan_value (xs @ c # rest) t = (xs, c # rest)"
  proof (rule Cons.IH [OF t(2) scan_step_wf [OF t(1) Cons.prems(2)] Cons.prems(3) _ Cons.prems(5)])
    show "xs = [] \<or> \<not> json_space (last xs)" using Cons.prems(4) by auto
  qed
  ultimately show ?case using t(1) by auto
qed

text \<open>Where nothing follows, the whole text is the value.\<close>

lemma scan_value_all:
  assumes "scan_run p s = Some s'" "scanner_wf s" "value_end s'" "p = [] \<or> \<not> json_space (last p)"
  shows "scan_value p s = (p, [])"
proof -
  have "scan_value (xs @ c # rest) s = (xs, c # rest) \<Longrightarrow> scan_value xs s = (xs, [])" for xs c rest and s :: scanner
  proof (induction xs arbitrary: s)
    case (Cons x xs)
    then show ?case by (auto split: if_splits option.splits prod.splits)
  qed simp
  with scan_value_whole [OF assms, of "CHR '',''" "[]", simplified] show ?thesis by blast
qed

end
