(* ===== verification/JsonString.thy ===== *)
theory JsonString
  imports JsonScanner GoStrings
begin

section \<open>JSON strings\<close>

text \<open>
  How \<open>encoding/json\<close> writes a Go string (escaping for HTML, invalid UTF-8 replaced) and reads
  one back. The functions work on the text between the quotes.
\<close>

definition hex_digit :: "nat \<Rightarrow> char" where
  "hex_digit n = (if n < 10 then char_of (48 + n) else char_of (87 + n))"

definition u_escape :: "nat \<Rightarrow> bytes" where
  "u_escape n = [CHR 0x5C, CHR ''u'', hex_digit (n div 4096 mod 16), hex_digit (n div 256 mod 16),
     hex_digit (n div 16 mod 16), hex_digit (n mod 16)]"

text \<open>ASCII bytes that need no escape (\<open>htmlSafeSet\<close>).\<close>

definition html_safe :: "char \<Rightarrow> bool" where
  "html_safe c \<longleftrightarrow> 0x20 \<le> (of_char c :: nat) \<and> (of_char c :: nat) < 0x80 \<and>
     c \<notin> {CHR 0x22, CHR 0x5C, CHR ''<'', CHR ''>'', CHR ''&''}"

definition escape_ascii :: "char \<Rightarrow> bytes" where
  "escape_ascii c =
     (if html_safe c then [c]
      else if c = CHR 0x5C \<or> c = CHR 0x22 then [CHR 0x5C, c]
      else if c = CHR 0x08 then [CHR 0x5C, CHR ''b'']
      else if c = CHR 0x0C then [CHR 0x5C, CHR ''f'']
      else if c = CHR 0x0A then [CHR 0x5C, CHR ''n'']
      else if c = CHR 0x0D then [CHR 0x5C, CHR ''r'']
      else if c = CHR 0x09 then [CHR 0x5C, CHR ''t'']
      else u_escape (of_char c))"

definition is_ascii :: "char \<Rightarrow> bool" where
  "is_ascii c \<longleftrightarrow> (of_char c :: nat) < 0x80"

definition escape_rune :: "bytes \<Rightarrow> bytes" where
  "escape_rune s = (case decode_rune s of (r, n) \<Rightarrow>
     if r = rune_error \<and> n = 1 then [CHR 0x5C, CHR ''u'', CHR ''f'', CHR ''f'', CHR ''f'', CHR ''d'']
     else if r = 0x2028 \<or> r = 0x2029 then u_escape r
     else take n s)"

function quote_body :: "bytes \<Rightarrow> bytes" where
  "quote_body [] = []"
| "quote_body (c # cs) =
     (if is_ascii c then escape_ascii c @ quote_body cs
      else escape_rune (c # cs) @ quote_body (drop (snd (decode_rune (c # cs))) (c # cs)))"
  by pat_completeness auto
termination
proof (relation "measure length", goal_cases)
  case (3 c cs)
  with decode_rune_width [of "c # cs"] show ?case by auto
qed simp_all

definition json_quote :: "bytes \<Rightarrow> bytes" where
  "json_quote s = [CHR 0x22] @ quote_body s @ [CHR 0x22]"

subsection \<open>Reading\<close>

text \<open>\<open>utf8.EncodeRune\<close>: surrogates and numbers above U+10FFFF are written as U+FFFD.\<close>

definition encode_rune :: "nat \<Rightarrow> bytes" where
  "encode_rune r =
     (if r < 0x80 then [char_of r]
      else if r < 0x800 then [char_of (0xC0 + r div 64), char_of (0x80 + r mod 64)]
      else if r > 0x10FFFF \<or> 0xD800 \<le> r \<and> r \<le> 0xDFFF then [char_of (0xEF :: nat), char_of (0xBF :: nat), char_of (0xBD :: nat)]
      else if r < 0x10000 then [char_of (0xE0 + r div 4096), char_of (0x80 + r div 64 mod 64), char_of (0x80 + r mod 64)]
      else [char_of (0xF0 + r div 262144), char_of (0x80 + r div 4096 mod 64), char_of (0x80 + r div 64 mod 64),
            char_of (0x80 + r mod 64)])"

definition hex_value :: "char \<Rightarrow> nat option" where
  "hex_value c =
     (if is_digit c then Some (of_char c - 48)
      else if 0x61 \<le> (of_char c :: nat) \<and> (of_char c :: nat) \<le> 0x66 then Some (of_char c - 87)
      else if 0x41 \<le> (of_char c :: nat) \<and> (of_char c :: nat) \<le> 0x46 then Some (of_char c - 55)
      else None)"

text \<open>\<open>getu4\<close>: the number of a \<open>\\uXXXX\<close> at the start of the text.\<close>

fun getu4 :: "bytes \<Rightarrow> nat option" where
  "getu4 (b # u # a # b1 # c1 # d # rest) =
     (if b = CHR 0x5C \<and> u = CHR ''u'' then
        (case (hex_value a, hex_value b1, hex_value c1, hex_value d) of
           (Some w, Some x, Some y, Some z) \<Rightarrow> Some (4096 * w + 256 * x + 16 * y + z)
         | _ \<Rightarrow> None)
      else None)"
| "getu4 _ = None"

text \<open>\<open>utf16.DecodeRune\<close> of a surrogate pair, if it is one.\<close>

definition surrogate_pair :: "nat \<Rightarrow> nat option \<Rightarrow> nat option" where
  "surrogate_pair r1 r2 = (case r2 of
     Some r \<Rightarrow> if 0xD800 \<le> r1 \<and> r1 < 0xDC00 \<and> 0xDC00 \<le> r \<and> r < 0xE000
       then Some ((r1 - 0xD800) * 1024 + (r - 0xDC00) + 0x10000) else None
   | None \<Rightarrow> None)"

definition simple_escape :: "char \<Rightarrow> bytes option" where
  "simple_escape c =
     (if c \<in> {CHR 0x22, CHR 0x5C, CHR ''/'', CHR 0x27} then Some [c]
      else if c = CHR ''b'' then Some [CHR 0x08]
      else if c = CHR ''f'' then Some [CHR 0x0C]
      else if c = CHR ''n'' then Some [CHR 0x0A]
      else if c = CHR ''r'' then Some [CHR 0x0D]
      else if c = CHR ''t'' then Some [CHR 0x09]
      else None)"

text \<open>One step of \<open>unquote\<close>: what is written and how much is read.\<close>

definition unquote_step :: "bytes \<Rightarrow> (bytes \<times> nat) option" where
  "unquote_step s = (case s of
     [] \<Rightarrow> None
   | c # cs \<Rightarrow>
      if c = CHR 0x5C then
        (case cs of
           [] \<Rightarrow> None
         | e # _ \<Rightarrow>
            if e = CHR ''u'' then
              (case getu4 s of
                 None \<Rightarrow> None
               | Some rr \<Rightarrow>
                  if 0xD800 \<le> rr \<and> rr < 0xE000 then
                    (case surrogate_pair rr (getu4 (drop 6 s)) of
                       Some dec \<Rightarrow> Some (encode_rune dec, 12)
                     | None \<Rightarrow> Some (encode_rune rune_error, 6))
                  else Some (encode_rune rr, 6))
            else map_option (\<lambda>w. (w, 2)) (simple_escape e))
      else if c = CHR 0x22 \<or> (of_char c :: nat) < 0x20 then None
      else if is_ascii c then Some ([c], 1)
      else (case decode_rune s of (r, n) \<Rightarrow> Some (encode_rune r, n)))"

lemma unquote_step_size: "unquote_step s = Some (w, n) \<Longrightarrow> 1 \<le> n \<and> s \<noteq> []"
  using decode_rune_width [of s] by (auto simp: unquote_step_def split: list.splits if_splits option.splits prod.splits)

function unquote :: "bytes \<Rightarrow> bytes option" where
  "unquote s =
     (if s = [] then Some []
      else (case unquote_step s of
          None \<Rightarrow> None
        | Some (w, n) \<Rightarrow> map_option (append w) (unquote (drop n s))))"
  by pat_completeness auto
termination
proof (relation "measure length", goal_cases)
  case (2 s x w n)
  with unquote_step_size [of s w n] show ?case by (cases s) auto
qed simp

declare unquote.simps [simp del] quote_body.simps(2) [simp del]

subsection \<open>Round trip\<close>

text \<open>Well-formed UTF-8: no decoding step meets an invalid byte.\<close>

function valid_utf8 :: "bytes \<Rightarrow> bool" where
  "valid_utf8 s =
     (if s = [] then True
      else decode_rune s \<noteq> (rune_error, 1) \<and> valid_utf8 (drop (snd (decode_rune s)) s))"
  by pat_completeness auto
termination
proof (relation "measure length", goal_cases)
  case (2 s)
  with decode_rune_width [of s] show ?case by auto
qed simp

declare valid_utf8.simps [simp del]

text \<open>Decoding a valid rune depends on its own bytes only, and encoding it again gives them back.\<close>

lemma decode2_prefix:
  "decode_rune2 b0 r = (x, n) \<Longrightarrow> (x, n) \<noteq> (rune_error, 1) \<Longrightarrow> n = 2 \<and> (\<exists>c1 r'. r = c1 # r' \<and> byte_in 0x80 0xBF c1 \<and>
     x = (b0 - 0xC0) * 64 + (of_char c1 - 0x80))"
  by (auto simp: decode_rune2_def split: list.splits if_splits)

lemma decode3_prefix:
  "decode_rune3 b0 r = (x, n) \<Longrightarrow> (x, n) \<noteq> (rune_error, 1) \<Longrightarrow> n = 3 \<and> (\<exists>c1 c2 r'. r = c1 # c2 # r' \<and>
     byte_in (if b0 = 0xE0 then 0xA0 else 0x80) (if b0 = 0xED then 0x9F else 0xBF) c1 \<and> byte_in 0x80 0xBF c2 \<and>
     x = (b0 - 0xE0) * 4096 + (of_char c1 - 0x80) * 64 + (of_char c2 - 0x80))"
  unfolding decode_rune3_def by (cases r; cases "tl r") (auto split: if_splits)

lemma decode4_prefix:
  "decode_rune4 b0 r = (x, n) \<Longrightarrow> (x, n) \<noteq> (rune_error, 1) \<Longrightarrow> n = 4 \<and> (\<exists>c1 c2 c3 r'. r = c1 # c2 # c3 # r' \<and>
     byte_in (if b0 = 0xF0 then 0x90 else 0x80) (if b0 = 0xF4 then 0x8F else 0xBF) c1 \<and> byte_in 0x80 0xBF c2 \<and>
     byte_in 0x80 0xBF c3 \<and>
     x = (b0 - 0xF0) * 262144 + (of_char c1 - 0x80) * 4096 + (of_char c2 - 0x80) * 64 + (of_char c3 - 0x80))"
  unfolding decode_rune4_def by (cases r; cases "tl r"; cases "tl (tl r)") (auto split: if_splits)

lemma split64: "(d::nat) < 64 \<Longrightarrow> (q * 64 + d) div 64 = q \<and> (q * 64 + d) mod 64 = d"
  by simp

lemma encode2:
  assumes "2 \<le> a" "a < 32" "b < 64"
  shows "encode_rune (a * 64 + b) = [char_of (0xC0 + a), char_of (0x80 + b)]"
  using split64 [OF assms(3), of a] assms by (simp add: encode_rune_def)

lemma encode3:
  assumes "a < 16" "b < 64" "c < 64" "a = 0 \<Longrightarrow> 32 \<le> b" "a = 13 \<Longrightarrow> b < 32"
  shows "encode_rune (a * 4096 + b * 64 + c) = [char_of (0xE0 + a), char_of (0x80 + b), char_of (0x80 + c)]"
proof -
  let ?r = "(a * 64 + b) * 64 + c"
  have r: "a * 4096 + b * 64 + c = ?r" by simp
  have d: "?r div 64 = a * 64 + b" "?r mod 64 = c" "?r div 64 div 64 = a" "?r div 64 mod 64 = b"
    using split64 [OF assms(3), of "a * 64 + b"] split64 [OF assms(2), of a] by simp_all
  have "?r div 4096 = a" using d(3) by (simp add: div_mult2_eq flip: div_mult2_eq [of _ 64 64, simplified])
  moreover have "0x800 \<le> ?r" using assms by (cases "a = 0") auto
  moreover have "?r < 0x10000" using assms by auto
  moreover have "\<not> (0xD800 \<le> ?r \<and> ?r \<le> 0xDFFF)"
  proof
    assume "0xD800 \<le> ?r \<and> ?r \<le> 0xDFFF"
    then have "a = 13" using assms by auto
    with assms(5) assms(3) \<open>0xD800 \<le> ?r \<and> ?r \<le> 0xDFFF\<close> show False by auto
  qed
  ultimately show ?thesis unfolding r using d by (auto simp: encode_rune_def)
qed

lemma encode4:
  assumes "a < 5" "b < 64" "c < 64" "d < 64" "a = 0 \<Longrightarrow> 16 \<le> b" "a = 4 \<Longrightarrow> b < 16"
  shows "encode_rune (a * 262144 + b * 4096 + c * 64 + d) =
    [char_of (0xF0 + a), char_of (0x80 + b), char_of (0x80 + c), char_of (0x80 + d)]"
proof -
  let ?r = "((a * 64 + b) * 64 + c) * 64 + d"
  have r: "a * 262144 + b * 4096 + c * 64 + d = ?r" by simp
  have e: "?r div 64 = (a * 64 + b) * 64 + c" "?r mod 64 = d" "?r div 64 div 64 = a * 64 + b" "?r div 64 mod 64 = c"
    "?r div 64 div 64 div 64 = a" "?r div 64 div 64 mod 64 = b"
    using split64 [OF assms(4), of "(a * 64 + b) * 64 + c"] split64 [OF assms(3), of "a * 64 + b"]
      split64 [OF assms(2), of a] by simp_all
  have f: "?r div 4096 = ?r div 64 div 64" "?r div 262144 = ?r div 64 div 64 div 64"
    using div_mult2_eq [of ?r 64 64] div_mult2_eq [of ?r 4096 64] by simp_all
  have "0x10000 \<le> ?r" using assms by (cases "a = 0") auto
  moreover have "?r \<le> 0x10FFFF" using assms by (cases "a = 4") auto
  ultimately show ?thesis unfolding r using e f by (auto simp: encode_rune_def)
qed

lemma char_of_sub: "k \<le> (of_char c :: nat) \<Longrightarrow> char_of (k + (of_char c - k)) = c"
  by simp

lemma rune_two:
  assumes "decode_rune2 (of_char c) r = (x, n)" "(x, n) \<noteq> (rune_error, 1)" "0xC2 \<le> (of_char c :: nat)" "(of_char c :: nat) \<le> 0xDF"
  shows "encode_rune x = take n (c # r) \<and> decode_rune2 (of_char c) (take (n - 1) r @ rest) = (x, n) \<and> 0x80 \<le> x \<and> n = 2"
proof -
  from decode2_prefix [OF assms(1,2)] obtain c1 r' where r: "r = c1 # r'" "byte_in 0x80 0xBF c1" "n = 2"
    and x: "x = (of_char c - 0xC0) * 64 + (of_char c1 - 0x80)" by blast
  let ?a = "of_char c - 0xC0 :: nat" and ?b = "of_char c1 - 0x80 :: nat"
  have "encode_rune x = [char_of (0xC0 + ?a), char_of (0x80 + ?b)]"
    unfolding x using assms(3,4) r(2) by (intro encode2) (auto simp: byte_in_def)
  moreover have "char_of (0xC0 + ?a) = c" "char_of (0x80 + ?b) = c1"
    using assms(3) r(2) by (auto intro!: char_of_sub simp: byte_in_def)
  moreover have "0x80 \<le> x" using x assms(3) by simp
  ultimately show ?thesis using r x by (simp add: decode_rune2_def)
qed

lemma rune_three:
  assumes "decode_rune3 (of_char c) r = (x, n)" "(x, n) \<noteq> (rune_error, 1)" "0xE0 \<le> (of_char c :: nat)" "(of_char c :: nat) \<le> 0xEF"
  shows "encode_rune x = take n (c # r) \<and> decode_rune3 (of_char c) (take (n - 1) r @ rest) = (x, n) \<and> 0x80 \<le> x \<and> n = 3"
proof -
  from decode3_prefix [OF assms(1,2)] obtain c1 c2 r' where r: "r = c1 # c2 # r'" "n = 3"
    and b: "byte_in (if of_char c = (0xE0::nat) then 0xA0 else 0x80) (if of_char c = (0xED::nat) then 0x9F else 0xBF) c1" "byte_in 0x80 0xBF c2"
    and x: "x = (of_char c - 0xE0) * 4096 + (of_char c1 - 0x80) * 64 + (of_char c2 - 0x80)" by blast
  let ?a = "of_char c - 0xE0 :: nat" and ?b = "of_char c1 - 0x80 :: nat" and ?c = "of_char c2 - 0x80 :: nat"
  have c1: "0x80 \<le> (of_char c1 :: nat)" "(of_char c1 :: nat) \<le> 0xBF" "0x80 \<le> (of_char c2 :: nat)" "(of_char c2 :: nat) \<le> 0xBF"
    using b by (auto simp: byte_in_def split: if_splits)
  have edge: "?a = 0 \<Longrightarrow> 32 \<le> ?b" "?a = 13 \<Longrightarrow> ?b < 32"
    using b(1) assms(3) by (auto simp: byte_in_def split: if_splits)
  have "encode_rune x = [char_of (0xE0 + ?a), char_of (0x80 + ?b), char_of (0x80 + ?c)]"
    unfolding x using assms(3,4) c1 edge by (intro encode3) auto
  moreover have "char_of (0xE0 + ?a) = c" "char_of (0x80 + ?b) = c1" "char_of (0x80 + ?c) = c2"
    using assms(3) c1 by (auto intro!: char_of_sub)
  moreover have "0x80 \<le> x"
  proof (cases "?a = 0")
    case True
    with edge(1) show ?thesis unfolding x by simp
  next
    case False
    then have "1 * 4096 \<le> ?a * 4096" by (intro mult_le_mono1) simp
    then show ?thesis unfolding x by linarith
  qed
  ultimately show ?thesis using r x b by (simp add: decode_rune3_def)
qed

lemma rune_four:
  assumes "decode_rune4 (of_char c) r = (x, n)" "(x, n) \<noteq> (rune_error, 1)" "0xF0 \<le> (of_char c :: nat)" "(of_char c :: nat) \<le> 0xF4"
  shows "encode_rune x = take n (c # r) \<and> decode_rune4 (of_char c) (take (n - 1) r @ rest) = (x, n) \<and> 0x10000 \<le> x \<and> n = 4"
proof -
  from decode4_prefix [OF assms(1,2)] obtain c1 c2 c3 r' where r: "r = c1 # c2 # c3 # r'" "n = 4"
    and b: "byte_in (if of_char c = (0xF0::nat) then 0x90 else 0x80) (if of_char c = (0xF4::nat) then 0x8F else 0xBF) c1"
      "byte_in 0x80 0xBF c2" "byte_in 0x80 0xBF c3"
    and x: "x = (of_char c - 0xF0) * 262144 + (of_char c1 - 0x80) * 4096 + (of_char c2 - 0x80) * 64 + (of_char c3 - 0x80)"
    by blast
  let ?a = "of_char c - 0xF0 :: nat" and ?b = "of_char c1 - 0x80 :: nat" and ?c = "of_char c2 - 0x80 :: nat"
    and ?d = "of_char c3 - 0x80 :: nat"
  have cs: "0x80 \<le> (of_char c1 :: nat)" "(of_char c1 :: nat) \<le> 0xBF" "0x80 \<le> (of_char c2 :: nat)" "(of_char c2 :: nat) \<le> 0xBF"
    "0x80 \<le> (of_char c3 :: nat)" "(of_char c3 :: nat) \<le> 0xBF"
    using b by (auto simp: byte_in_def split: if_splits)
  have edge: "?a = 0 \<Longrightarrow> 16 \<le> ?b" "?a = 4 \<Longrightarrow> ?b < 16"
    using b(1) assms(3) by (auto simp: byte_in_def split: if_splits)
  have "encode_rune x = [char_of (0xF0 + ?a), char_of (0x80 + ?b), char_of (0x80 + ?c), char_of (0x80 + ?d)]"
    unfolding x using assms(3,4) cs edge by (intro encode4) auto
  moreover have "char_of (0xF0 + ?a) = c" "char_of (0x80 + ?b) = c1" "char_of (0x80 + ?c) = c2" "char_of (0x80 + ?d) = c3"
    using assms(3) cs by (auto intro!: char_of_sub)
  moreover have "0x10000 \<le> x"
  proof (cases "?a = 0")
    case True
    with edge(1) have "16 * 4096 \<le> ?b * 4096" by (intro mult_le_mono1) simp
    then show ?thesis unfolding x by linarith
  next
    case False
    then have "1 * 262144 \<le> ?a * 262144" by (intro mult_le_mono1) simp
    then show ?thesis unfolding x by linarith
  qed
  ultimately show ?thesis using r x b by (simp add: decode_rune4_def)
qed

lemma wide_rune_roundtrip:
  assumes "decode_rune (c # cs) = (x, n)" "(x, n) \<noteq> (rune_error, 1)" "\<not> is_ascii c"
  shows "encode_rune x = take n (c # cs) \<and> decode_rune (take n (c # cs) @ rest) = (x, n) \<and> 0x80 \<le> x \<and> 1 < n"
proof -
  let ?b = "of_char c :: nat"
  have b: "0x80 \<le> ?b" using assms(3) by (simp add: is_ascii_def)
  have cases: "0xC2 \<le> ?b \<and> ?b \<le> 0xDF \<or> 0xE0 \<le> ?b \<and> ?b \<le> 0xEF \<or> 0xF0 \<le> ?b \<and> ?b \<le> 0xF4"
    using assms(1,2) b by (auto simp: decode_rune.simps Let_def split: if_splits)
  then consider "0xC2 \<le> ?b" "?b \<le> 0xDF" | "0xE0 \<le> ?b" "?b \<le> 0xEF" | "0xF0 \<le> ?b" "?b \<le> 0xF4" by blast
  then show ?thesis
  proof cases
    case 1
    with assms(1) have "decode_rune2 ?b cs = (x, n)" by (simp add: decode_rune.simps Let_def)
    from rune_two [OF this assms(2) 1, of rest] 1 show ?thesis
      by (auto simp: decode_rune.simps(2) take_Cons' Let_def)
  next
    case 2
    with assms(1) have "decode_rune3 ?b cs = (x, n)" by (simp add: decode_rune.simps Let_def)
    from rune_three [OF this assms(2) 2, of rest] 2 show ?thesis
      by (auto simp: decode_rune.simps(2) take_Cons' Let_def)
  next
    case 3
    with assms(1) have "decode_rune4 ?b cs = (x, n)" by (simp add: decode_rune.simps Let_def)
    from rune_four [OF this assms(2) 3, of rest] 3 show ?thesis
      by (auto simp: decode_rune.simps(2) take_Cons' Let_def)
  qed
qed

text \<open>What the printer makes of one rune is read back as that rune.\<close>

lemma getu4_u_escape:
  assumes "n < 65536"
  shows "getu4 (u_escape n @ rest) = Some n"
proof -
  have hv: "hex_value (hex_digit k) = Some k" if "k < 16" for k
  proof (cases "k < 10")
    case True
    then have "(of_char (hex_digit k) :: nat) = 48 + k" by (simp add: hex_digit_def of_char_of)
    with True show ?thesis by (simp add: hex_value_def is_digit_def)
  next
    case False
    with that have "(of_char (hex_digit k) :: nat) = 87 + k" by (simp add: hex_digit_def of_char_of)
    with False that show ?thesis by (simp add: hex_value_def is_digit_def)
  qed
  have "n div 4096 mod 16 = n div 4096" using assms by simp
  moreover have "4096 * (n div 4096) + 256 * (n div 256 mod 16) + 16 * (n div 16 mod 16) + n mod 16 = n"
  proof -
    have "n = n div 16 * 16 + n mod 16" "n div 16 = n div 256 * 16 + n div 16 mod 16"
      "n div 256 = n div 4096 * 16 + n div 256 mod 16"
      using div_mult2_eq [of n 16 16] div_mult2_eq [of n 256 16] by (simp_all add: algebra_simps)
    then show ?thesis by linarith
  qed
  moreover have "n div 4096 < 16" using assms by (simp add: less_mult_imp_div_less)
  ultimately show ?thesis by (simp add: u_escape_def hv)
qed

lemma unquote_cons:
  assumes "unquote_step (p @ rest) = Some (w, length p)" "p \<noteq> []"
  shows "unquote (p @ rest) = map_option (append w) (unquote rest)"
  using assms by (simp add: unquote.simps [of "p @ rest"])

lemma unquote_escape_ascii:
  assumes "is_ascii c"
  shows "unquote (escape_ascii c @ rest) = map_option (append [c]) (unquote rest)"
proof (rule unquote_cons)
  show "escape_ascii c \<noteq> []" by (simp add: escape_ascii_def u_escape_def)
  show "unquote_step (escape_ascii c @ rest) = Some ([c], length (escape_ascii c))"
  proof (cases "html_safe c \<or> c \<in> {CHR 0x5C, CHR 0x22, CHR 0x08, CHR 0x0C, CHR 0x0A, CHR 0x0D, CHR 0x09}")
    case True
    then show ?thesis
      by (auto simp: escape_ascii_def html_safe_def unquote_step_def is_ascii_def simple_escape_def)
  next
    case False
    then have e: "escape_ascii c = u_escape (of_char c)" by (simp add: escape_ascii_def)
    have c: "(of_char c :: nat) < 128" using assms by (simp add: is_ascii_def)
    have "getu4 (u_escape (of_char c) @ rest) = Some (of_char c)" using c by (intro getu4_u_escape) simp
    with c e show ?thesis by (simp add: unquote_step_def u_escape_def encode_rune_def)
  qed
qed

lemma unquote_escape_rune:
  assumes "decode_rune (c # cs) = (x, n)" "(x, n) \<noteq> (rune_error, 1)" "\<not> is_ascii c"
  shows "unquote (escape_rune (c # cs) @ rest) = map_option (append (take n (c # cs))) (unquote rest)"
proof -
  note w = wide_rune_roundtrip [OF assms, of rest]
  show ?thesis
  proof (cases "x = 0x2028 \<or> x = 0x2029")
    case True
    then have e: "escape_rune (c # cs) = u_escape x" using assms(1,2) by (auto simp: escape_rune_def)
    have "getu4 (u_escape x @ rest) = Some x" using True by (intro getu4_u_escape) auto
    with True have "unquote_step (u_escape x @ rest) = Some (encode_rune x, 6)"
      by (auto simp: unquote_step_def u_escape_def)
    then have "unquote (u_escape x @ rest) = map_option (append (encode_rune x)) (unquote rest)"
      by (intro unquote_cons) (auto simp: u_escape_def)
    with e w show ?thesis by simp
  next
    case False
    then have e: "escape_rune (c # cs) = take n (c # cs)" using assms(1,2) by (auto simp: escape_rune_def)
    have len: "length (take n (c # cs)) = n" using decode_rune_width [of "c # cs"] assms(1) by simp
    have ne: "take n (c # cs) \<noteq> []" "hd (take n (c # cs)) = c" using w by (auto simp: take_Cons')
    then obtain t where t: "take n (c # cs) = c # t" by (cases "take n (c # cs)") auto
    have "c \<noteq> CHR 0x5C" "c \<noteq> CHR 0x22" "\<not> (of_char c :: nat) < 0x20" using assms(3) by (auto simp: is_ascii_def)
    with w t assms(3) have "unquote_step (take n (c # cs) @ rest) = Some (encode_rune x, n)"
      by (simp add: unquote_step_def)
    with w len ne unquote_cons [of "take n (c # cs)" rest "take n (c # cs)"] e show ?thesis by simp
  qed
qed

lemma unquote_quote_body: "valid_utf8 s \<Longrightarrow> unquote (quote_body s) = Some s"
proof (induction s rule: quote_body.induct)
  case 1
  then show ?case by (simp add: unquote.simps)
next
  case (2 c cs)
  show ?case
  proof (cases "is_ascii c")
    case True
    then have d: "decode_rune (c # cs) = (of_char c, 1)" by (simp add: is_ascii_def decode_rune_ascii)
    with 2(3) True have "valid_utf8 cs" by (simp add: valid_utf8.simps [of "c # cs"])
    with 2(1) True have "unquote (quote_body cs) = Some cs" by blast
    with True show ?thesis by (simp add: quote_body.simps(2) unquote_escape_ascii)
  next
    case False
    obtain x n where d: "decode_rune (c # cs) = (x, n)" by fastforce
    from 2(3) d have v: "(x, n) \<noteq> (rune_error, 1)" "valid_utf8 (drop n (c # cs))"
      by (simp_all add: valid_utf8.simps [of "c # cs"])
    with 2(2) False d have ih: "unquote (quote_body (drop n (c # cs))) = Some (drop n (c # cs))" by simp
    from False d have "quote_body (c # cs) = escape_rune (c # cs) @ quote_body (drop n (c # cs))"
      by (simp add: quote_body.simps(2))
    with unquote_escape_rune [OF d v(1) False] ih show ?thesis by simp
  qed
qed

end
