(* ===== verification/JsonText.thy ===== *)
theory JsonText
  imports JsonString
begin

section \<open>JSON texts: compaction, objects and numbers\<close>

text \<open>
  The output side of \<open>encoding/json\<close>: the compaction that every marshaller's output goes
  through, the text of an object and of an integer, and the notion of a clean value: a complete
  value that compaction leaves as it is. On the input side, the members of an object and the
  reading of an integer.
\<close>

subsection \<open>Compaction\<close>

text \<open>U+2028 or U+2029 at the start of a text, in UTF-8.\<close>

definition sep_at :: "bytes \<Rightarrow> bool" where
  "sep_at s = (case s of
     a # b # c # _ \<Rightarrow> of_char a = (0xE2 :: nat) \<and> of_char b = (0x80 :: nat) \<and>
       (of_char c = (0xA8 :: nat) \<or> of_char c = (0xA9 :: nat))
   | _ \<Rightarrow> False)"

definition html_char :: "char \<Rightarrow> bool" where
  "html_char c \<longleftrightarrow> c = CHR ''<'' \<or> c = CHR ''>'' \<or> c = CHR ''&''"

text \<open>
  \<open>appendCompact\<close> with HTML escaping; the first argument counts the bytes of an escaped
  separator that are still to be passed over.
\<close>

fun compact_from :: "nat \<Rightarrow> bytes \<Rightarrow> scanner \<Rightarrow> bytes option" where
  "compact_from k [] s = (if scan_eof s then Some [] else None)"
| "compact_from k (c # cs) s = (case scan_step c s of
     None \<Rightarrow> None
   | Some s' \<Rightarrow>
      if 0 < k then compact_from (k - 1) cs s'
      else if html_char c then map_option (append (u_escape (of_char c))) (compact_from 0 cs s')
      else if sep_at (c # cs) then
        map_option (append (u_escape (0x2000 + of_char (cs ! 1) - 0x80))) (compact_from 2 cs s')
      else if json_space c \<and> fst s \<noteq> InString then compact_from 0 cs s'
      else map_option (Cons c) (compact_from 0 cs s'))"

definition json_compact :: "bytes \<Rightarrow> bytes option" where
  "json_compact s = compact_from 0 s (BeginValue, [])"

subsection \<open>Clean values\<close>

definition kept :: "char \<Rightarrow> scanner \<Rightarrow> bool" where
  "kept c s \<longleftrightarrow> \<not> (json_space c \<and> fst s \<noteq> InString) \<and> \<not> html_char c"

text \<open>
  A run of the automaton in which every byte is kept by compaction and at most \<open>d\<close> objects and
  arrays are open at a time.
\<close>

fun clean_run :: "nat \<Rightarrow> bytes \<Rightarrow> scanner \<Rightarrow> scanner option" where
  "clean_run d [] s = Some s"
| "clean_run d (c # cs) s =
     (if kept c s then
        (case scan_step c s of
           None \<Rightarrow> None
         | Some s' \<Rightarrow> if length (snd s') \<le> d then clean_run d cs s' else None)
      else None)"

fun no_sep :: "bytes \<Rightarrow> bool" where
  "no_sep [] = True"
| "no_sep (c # cs) \<longleftrightarrow> \<not> sep_at (c # cs) \<and> no_sep cs"

definition clean_value :: "nat \<Rightarrow> bytes \<Rightarrow> bool" where
  "clean_value d v \<longleftrightarrow> no_sep v \<and> (case clean_run d v (BeginValue, []) of None \<Rightarrow> False | Some s \<Rightarrow> value_end s)"

lemma clean_run_scan_run: "clean_run d xs s = Some s' \<Longrightarrow> scan_run xs s = Some s'"
  by (induction xs arbitrary: s) (auto split: if_splits option.splits)

lemma clean_run_append:
  "clean_run d (xs @ ys) s = (case clean_run d xs s of None \<Rightarrow> None | Some s' \<Rightarrow> clean_run d ys s')"
  by (induction xs arbitrary: s) (auto split: option.splits)

lemma clean_compact_from:
  "clean_run d xs s = Some s' \<Longrightarrow> no_sep xs \<Longrightarrow> scan_eof s' \<Longrightarrow> compact_from 0 xs s = Some xs"
  by (induction xs arbitrary: s) (auto simp: kept_def split: if_splits option.splits)

lemma clean_value_compact: "clean_value d v \<Longrightarrow> json_compact v = Some v"
  by (auto simp: clean_value_def json_compact_def intro: clean_compact_from value_end_eof split: option.splits)

lemma scanner_wf_start [simp]: "scanner_wf (BeginValue, stk)"
  by (simp add: scanner_wf_def)

lemma clean_value_run:
  assumes "clean_value d v"
  obtains s where "clean_run d v (BeginValue, []) = Some s" "scan_run v (BeginValue, []) = Some s" "value_end s"
  using assms by (auto simp: clean_value_def dest: clean_run_scan_run split: option.splits)

lemma clean_value_valid: "clean_value d v \<Longrightarrow> json_valid v"
  by (erule clean_value_run) (simp add: json_valid_def value_end_eof)

lemma clean_value_nonempty: "clean_value d v \<Longrightarrow> v \<noteq> []"
  by (auto simp: clean_value_def value_end_def number_end_def)

lemma clean_run_mono: "clean_run d xs s = Some s' \<Longrightarrow> d \<le> d' \<Longrightarrow> clean_run d' xs s = Some s'"
  by (induction xs arbitrary: s) (auto split: if_splits option.splits)

lemma clean_value_mono: "clean_value d v \<Longrightarrow> d \<le> d' \<Longrightarrow> clean_value d' v"
  by (auto simp: clean_value_def dest: clean_run_mono split: option.splits)

lemma clean_run_last:
  assumes "clean_run d v s = Some s'" "value_end s'" "v \<noteq> []"
  shows "\<not> json_space (last v)"
proof -
  obtain u c where v: "v = u @ [c]" using assms(3) by (metis append_butlast_last_id)
  with assms(1) obtain t where t: "kept c t" "scan_step c t = Some s'"
    by (auto simp: clean_run_append split: option.splits if_splits)
  show ?thesis
  proof
    assume "json_space (last v)"
    with v have sp: "json_space c" by simp
    with t(1) have "fst t = InString" by (simp add: kept_def)
    with t(2) sp have "fst s' = InString"
      by (cases t) (auto simp: json_space_def expect_def split: if_splits)
    with assms(2) show False by (auto simp: value_end_def number_end_def)
  qed
qed

lemma lift_clean_run:
  "clean_run d xs s = Some s' \<Longrightarrow> scanner_wf s \<Longrightarrow> ctx \<noteq> [] \<Longrightarrow> d + length ctx \<le> maxNestingDepth \<Longrightarrow>
   clean_run (d + length ctx) xs (lift ctx s) = Some (lift ctx s')"
proof (induction xs arbitrary: s)
  case (Cons x xs)
  then obtain t where t: "kept x s" "scan_step x s = Some t" "length (snd t) \<le> d" "clean_run d xs t = Some s'"
    by (auto split: if_splits option.splits)
  with Cons.prems(4) have "length (snd t) + length ctx \<le> maxNestingDepth" by simp
  from lift_step [OF t(2) Cons.prems(2,3) this] Cons.IH [OF t(4) scan_step_wf [OF t(2) Cons.prems(2)] Cons.prems(3,4)]
  have "scan_step x (lift ctx s) = Some (lift ctx t)" "clean_run (d + length ctx) xs (lift ctx t) = Some (lift ctx s')" .
  moreover have "kept x (lift ctx s)" using t(1) by (auto simp: kept_def lift_def split: if_splits)
  moreover have "length (snd (lift ctx t)) \<le> d + length ctx" using t(3) by (simp add: lift_def)
  ultimately show ?case by simp
qed simp

text \<open>A clean value in a context, followed by a comma or a closing brace.\<close>

lemma clean_value_in_context:
  assumes "clean_value d v" "d + length ctx \<le> maxNestingDepth" "ctx \<noteq> []"
  obtains s where "clean_run (d + length ctx) v (BeginValue, ctx) = Some (lift ctx s)" "value_end s"
proof -
  from assms(1) obtain s where s: "clean_run d v (BeginValue, []) = Some s" "value_end s"
    by (auto elim: clean_value_run)
  from lift_clean_run [OF s(1) scanner_wf_start assms(3,2)]
  have "clean_run (d + length ctx) v (lift ctx (BeginValue, [])) = Some (lift ctx s)" .
  with s(2) that show thesis by simp
qed

lemma clean_value_extent:
  assumes "clean_value d v" "delimiter c"
  shows "scan_value (v @ c # rest) (BeginValue, []) = (v, c # rest)"
proof -
  from assms(1) obtain s where s: "clean_run d v (BeginValue, []) = Some s" "scan_run v (BeginValue, []) = Some s" "value_end s"
    by (rule clean_value_run)
  from clean_run_last [OF s(1,3) clean_value_nonempty [OF assms(1)]] show ?thesis
    by (intro scan_value_whole [OF s(2) scanner_wf_start s(3) _ assms(2)]) simp
qed

lemma no_sep_append: "no_sep xs \<Longrightarrow> no_sep ys \<Longrightarrow> ys = [] \<or> is_ascii (hd ys) \<Longrightarrow> no_sep (xs @ ys)"
proof (induction xs)
  case (Cons x xs)
  have "\<not> sep_at (x # xs @ ys)"
  proof
    assume sep: "sep_at (x # xs @ ys)"
    show False
    proof (cases xs)
      case Nil
      with sep Cons.prems(3) show False by (cases ys) (auto simp: sep_at_def is_ascii_def split: list.splits)
    next
      case (Cons x2 xs2)
      with sep Cons.prems show False
        by (cases xs2; cases ys) (auto simp: sep_at_def is_ascii_def split: list.splits)
    qed
  qed
  with Cons show ?case by simp
qed simp

lemma no_sep_ascii: "list_all is_ascii xs \<Longrightarrow> no_sep xs"
proof (induction xs)
  case (Cons x xs)
  then show ?case by (auto simp: sep_at_def is_ascii_def split: list.splits)
qed simp

subsection \<open>Strings are clean\<close>

lemma kept_InString [simp]: "kept c (InString, stk) \<longleftrightarrow> \<not> html_char c"
  by (simp add: kept_def)

lemma clean_run_plain:
  "\<forall>c \<in> set xs. 0x20 \<le> (of_char c :: nat) \<and> c \<noteq> CHR 0x22 \<and> c \<noteq> CHR 0x5C \<and> \<not> html_char c \<Longrightarrow>
   length stk \<le> d \<Longrightarrow> clean_run d xs (InString, stk) = Some (InString, stk)"
  by (induction xs) (auto simp: expect_def)

lemma hex_digit_facts:
  assumes "n < 16"
  shows "is_hex (hex_digit n) \<and> is_ascii (hex_digit n) \<and> \<not> html_char (hex_digit n) \<and> \<not> json_space (hex_digit n)"
proof -
  have "(of_char (hex_digit n) :: nat) = (if n < 10 then 48 + n else 87 + n)"
    using assms by (simp add: hex_digit_def of_char_of)
  with assms have k: "48 \<le> (of_char (hex_digit n) :: nat) \<and> (of_char (hex_digit n) :: nat) \<le> 57 \<or>
      97 \<le> (of_char (hex_digit n) :: nat) \<and> (of_char (hex_digit n) :: nat) \<le> 102"
    by (auto split: if_splits)
  then show ?thesis by (auto simp: is_hex_def is_digit_def is_ascii_def html_char_def json_space_def)
qed

lemma clean_run_u_escape: "length stk \<le> d \<Longrightarrow> clean_run d (u_escape n) (InString, stk) = Some (InString, stk)"
proof -
  have "k mod 16 < 16" for k :: nat by simp
  note h = hex_digit_facts [OF this]
  have keep: "kept (hex_digit (k mod 16)) s" for k s using h by (simp add: kept_def)
  have "kept CHR 0x5C (InString, stk)" "kept CHR ''u'' (InStringEsc, stk)"
    by (simp_all add: kept_def html_char_def json_space_def)
  with keep h show "length stk \<le> d \<Longrightarrow> ?thesis" by (simp add: u_escape_def expect_def)
qed

lemma u_escape_ascii: "list_all is_ascii (u_escape n)"
proof -
  have "k mod 16 < 16" for k :: nat by simp
  note h = hex_digit_facts [OF this]
  show ?thesis by (simp add: u_escape_def h) (simp add: is_ascii_def)
qed

lemma clean_run_escape_pair:
  assumes "e \<in> {CHR 0x22, CHR 0x5C, CHR ''b'', CHR ''f'', CHR ''n'', CHR ''r'', CHR ''t''}" "length stk \<le> d"
  shows "clean_run d [CHR 0x5C, e] (InString, stk) = Some (InString, stk)"
proof -
  have "kept e (InStringEsc, stk)" "e \<noteq> CHR ''u''" using assms(1) by (auto simp: kept_def html_char_def json_space_def)
  moreover have "\<not> html_char (CHR 0x5C)" by (simp add: html_char_def)
  ultimately show ?thesis using assms by (simp add: expect_def) blast
qed

lemma escape_ascii_cases:
  obtains "html_safe c" "escape_ascii c = [c]"
  | e where "e \<in> {CHR 0x22, CHR 0x5C, CHR ''b'', CHR ''f'', CHR ''n'', CHR ''r'', CHR ''t''}" "escape_ascii c = [CHR 0x5C, e]"
  | "escape_ascii c = u_escape (of_char c)"
proof -
  let ?P = "\<lambda>e. e \<in> {CHR 0x22, CHR 0x5C, CHR ''b'', CHR ''f'', CHR ''n'', CHR ''r'', CHR ''t''} \<and>
    escape_ascii c = [CHR 0x5C, e]"
  have "html_safe c \<and> escape_ascii c = [c] \<or> ?P CHR 0x22 \<or> ?P CHR 0x5C \<or> ?P CHR ''b'' \<or> ?P CHR ''f'' \<or>
      ?P CHR ''n'' \<or> ?P CHR ''r'' \<or> ?P CHR ''t'' \<or> escape_ascii c = u_escape (of_char c)"
    unfolding escape_ascii_def by simp
  with that show thesis by blast
qed

lemma clean_run_escape_ascii:
  assumes "length stk \<le> d"
  shows "clean_run d (escape_ascii c) (InString, stk) = Some (InString, stk)"
proof (cases rule: escape_ascii_cases [of c])
  case 1
  with assms show ?thesis by (simp add: html_safe_def html_char_def expect_def)
next
  case (2 e)
  with assms show ?thesis by (simp only: clean_run_escape_pair)
next
  case 3
  with assms show ?thesis by (simp only: clean_run_u_escape)
qed

lemma escape_ascii_ascii: "is_ascii c \<Longrightarrow> list_all is_ascii (escape_ascii c)"
  by (rule escape_ascii_cases [of c]) (auto simp: u_escape_ascii is_ascii_def)

text \<open>The bytes of a wide rune are all above ASCII.\<close>

lemma wide_unit:
  assumes "decode_rune (c # cs) = (x, n)" "\<not> is_ascii c"
  shows "\<forall>d \<in> set (take n (c # cs)). 0x80 \<le> (of_char d :: nat)"
  using decode_rune_wide [of c cs] assms by (auto simp: wide_rune_def is_ascii_def take_Cons' split: if_splits)

lemma clean_run_escape_rune:
  assumes "\<not> is_ascii c" "length stk \<le> d"
  shows "clean_run d (escape_rune (c # cs)) (InString, stk) = Some (InString, stk)"
proof -
  obtain x n where dr: "decode_rune (c # cs) = (x, n)" by fastforce
  have "\<forall>e \<in> set (take n (c # cs)). 0x20 \<le> (of_char e :: nat) \<and> e \<noteq> CHR 0x22 \<and> e \<noteq> CHR 0x5C \<and> \<not> html_char e"
    using wide_unit [OF dr assms(1)] by (auto simp: html_char_def)
  from clean_run_plain [OF this assms(2)] assms(2) show ?thesis
    by (simp add: escape_rune_def dr clean_run_u_escape)
      (simp add: expect_def kept_def html_char_def json_space_def is_hex_def is_digit_def)
qed

lemma wide_unit_tail:
  assumes "decode_rune (c # cs) = (x, n)" "(x, n) \<noteq> (rune_error, 1)" "\<not> is_ascii c" "x \<noteq> 0x2028" "x \<noteq> 0x2029" "no_sep rest"
  shows "no_sep (take n (c # cs) @ rest)"
proof -
  let ?b = "of_char c :: nat"
  have b: "0x80 \<le> ?b" using assms(3) by (simp add: is_ascii_def)
  consider "0xC2 \<le> ?b" "?b \<le> 0xDF" | "0xE0 \<le> ?b" "?b \<le> 0xEF" | "0xF0 \<le> ?b" "?b \<le> 0xF4"
    using assms(1,2) b by (auto simp: decode_rune.simps Let_def split: if_splits)
  then show ?thesis
  proof cases
    case 1
    with assms(1) have "decode_rune2 ?b cs = (x, n)" by (simp add: decode_rune.simps Let_def)
    from decode2_prefix [OF this assms(2)] obtain c1 r' where "cs = c1 # r'" "byte_in 0x80 0xBF c1" "n = 2" by blast
    with 1 assms(6) show ?thesis by (auto simp: byte_in_def sep_at_def split: list.splits)
  next
    case 2
    with assms(1) have "decode_rune3 ?b cs = (x, n)" by (simp add: decode_rune.simps Let_def)
    from decode3_prefix [OF this assms(2)] obtain c1 c2 r' where *: "cs = c1 # c2 # r'" "n = 3"
      "byte_in 0x80 0xBF c2" "0x80 \<le> (of_char c1 :: nat)" "(of_char c1 :: nat) \<le> 0xBF"
      "x = (?b - 0xE0) * 4096 + (of_char c1 - 0x80) * 64 + (of_char c2 - 0x80)"
      by (auto simp: byte_in_def split: if_splits)
    have "\<not> sep_at (c # c1 # c2 # rest)" using * assms(4,5) by (auto simp: sep_at_def)
    moreover have "\<not> sep_at (c1 # c2 # rest)" "\<not> sep_at (c2 # rest)"
      using * by (auto simp: sep_at_def byte_in_def split: list.splits)
    ultimately show ?thesis using * assms(6) by simp
  next
    case 3
    with assms(1) have "decode_rune4 ?b cs = (x, n)" by (simp add: decode_rune.simps Let_def)
    from decode4_prefix [OF this assms(2)] obtain c1 c2 c3 r' where *: "cs = c1 # c2 # c3 # r'" "n = 4"
      "byte_in 0x80 0xBF c2" "byte_in 0x80 0xBF c3" "(of_char c1 :: nat) \<le> 0xBF"
      by (auto simp: byte_in_def split: if_splits)
    have "\<not> sep_at (c # c1 # c2 # c3 # rest)" using 3 by (auto simp: sep_at_def)
    moreover have "\<not> sep_at (c1 # c2 # c3 # rest)" "\<not> sep_at (c2 # c3 # rest)" "\<not> sep_at (c3 # rest)"
      using * by (auto simp: sep_at_def byte_in_def split: list.splits)
    ultimately show ?thesis using * assms(6) by simp
  qed
qed

lemma no_sep_escape_rune:
  assumes "\<not> is_ascii c" "no_sep rest"
  shows "no_sep (escape_rune (c # cs) @ rest)"
proof -
  obtain x n where d: "decode_rune (c # cs) = (x, n)" by fastforce
  have ascii: "no_sep (xs @ rest)" if "list_all is_ascii xs" for xs
    using that assms(2) by (induction xs) (auto simp: sep_at_def is_ascii_def split: list.splits)
  show ?thesis
  proof (cases "(x, n) = (rune_error, 1) \<or> x = 0x2028 \<or> x = 0x2029")
    case True
    then have "list_all is_ascii (escape_rune (c # cs))"
      by (auto simp: escape_rune_def d u_escape_ascii) (simp_all add: is_ascii_def)
    with ascii show ?thesis by blast
  next
    case False
    with d assms wide_unit_tail show ?thesis by (auto simp: escape_rune_def)
  qed
qed

lemma quote_body_clean:
  "length stk \<le> d \<Longrightarrow> clean_run d (quote_body s) (InString, stk) = Some (InString, stk) \<and> no_sep (quote_body s)"
proof (induction s rule: quote_body.induct)
  case (2 c cs)
  have ascii: "no_sep (xs @ rest)" if "list_all is_ascii xs" "no_sep rest" for xs rest
    using that by (induction xs) (auto simp: sep_at_def is_ascii_def split: list.splits)
  show ?case
  proof (cases "is_ascii c")
    case True
    with 2(1,3) ascii [OF escape_ascii_ascii [OF True]] show ?thesis
      by (simp add: quote_body.simps(2) clean_run_append clean_run_escape_ascii)
  next
    case False
    with 2(2,3) no_sep_escape_rune [OF False] show ?thesis
      by (simp add: quote_body.simps(2) clean_run_append clean_run_escape_rune)
  qed
qed simp

lemma quoted_run:
  assumes "length stk \<le> d"
  shows "clean_run d (json_quote s) (BeginValue, stk) = Some (EndValue, stk)"
    "clean_run d (json_quote s) (BeginString, stk) = Some (EndValue, stk)"
    "clean_run d (json_quote s) (BeginStringOrEmpty, stk) = Some (EndValue, stk)"
  using quote_body_clean [of stk d s] assms
  by (simp_all add: json_quote_def clean_run_append kept_def html_char_def begin_value_def scalar_start_def begin_string_def)

lemma no_sep_quote: "no_sep (json_quote s)"
proof -
  have "no_sep (quote_body s @ [CHR 0x22])"
    using quote_body_clean [of "[]" 0 s] by (intro no_sep_append) (simp_all add: sep_at_def is_ascii_def)
  then show ?thesis by (simp add: json_quote_def sep_at_def split: list.splits)
qed

lemma clean_value_quote: "clean_value d (json_quote s)"
  using quoted_run(1) [of "[]" d s] no_sep_quote [of s] by (simp add: clean_value_def value_end_def)

end
