(* ===== verification/JsonObject.thy ===== *)
theory JsonObject
  imports JsonText
begin

section \<open>JSON objects and integers\<close>

text \<open>
  The text of a struct as \<open>encoding/json\<close> prints it, the members the decoder finds in the text
  of an object, the search for the struct field of a key, and integers.
\<close>

subsection \<open>Printing an object\<close>

fun json_members :: "(string \<times> bytes) list \<Rightarrow> bytes" where
  "json_members [] = []"
| "json_members [(n, v)] = json_quote n @ CHR '':'' # v"
| "json_members ((n, v) # f # fs) = json_quote n @ CHR '':'' # v @ CHR '','' # json_members (f # fs)"

definition json_object :: "(string \<times> bytes) list \<Rightarrow> bytes" where
  "json_object fs = CHR ''{'' # json_members fs @ [CHR ''}'']"

subsection \<open>Reading an object\<close>

definition skip_space :: "bytes \<Rightarrow> bytes" where
  "skip_space s = dropWhile json_space s"

lemma skip_space_length: "length (skip_space s) \<le> length s"
  by (simp add: skip_space_def length_dropWhile_le)

definition next_value :: "bytes \<Rightarrow> bytes \<times> bytes" where
  "next_value s = scan_value (skip_space s) (BeginValue, [])"

lemma next_value_length: "next_value s = (v, r) \<Longrightarrow> length r \<le> length s"
  using scan_value_split [of "skip_space s" "(BeginValue, [])" v r] skip_space_length [of s]
  by (simp add: next_value_def)

text \<open>
  The loop of the decoder over the members of an object, after the opening brace: key, colon,
  value, then a comma or the closing brace. \<open>None\<close> is the panic of a decoder out of step with
  the scanner, which does not occur on a text that passed the syntax check.
\<close>

function read_members :: "bytes \<Rightarrow> (bytes \<times> bytes) list option" where
  "read_members s =
     (let (k, r) = next_value s in
      case skip_space r of
        [] \<Rightarrow> None
      | c # r1 \<Rightarrow>
         if c \<noteq> CHR '':'' then None
         else (let (v, r2) = next_value r1 in
           case skip_space r2 of
             [] \<Rightarrow> None
           | e # r3 \<Rightarrow>
              if e = CHR ''}'' then Some [(k, v)]
              else if e = CHR '','' then map_option (Cons (k, v)) (read_members r3)
              else None))"
  by pat_completeness auto
termination
proof (relation "measure length", goal_cases)
  case (2 s p k r c r1 q v r2 e r3)
  then have "next_value s = (k, r)" "next_value r1 = (v, r2)" by auto
  from next_value_length [OF this(1)] next_value_length [OF this(2)] 2
    skip_space_length [of r] skip_space_length [of r2]
  show ?case by auto
qed simp

declare read_members.simps [simp del]

definition obj_members :: "bytes \<Rightarrow> (bytes \<times> bytes) list option" where
  "obj_members s = (case skip_space s of
     [] \<Rightarrow> None
   | c # r \<Rightarrow>
      if c \<noteq> CHR ''{'' then None
      else (case skip_space r of
          [] \<Rightarrow> None
        | e # _ \<Rightarrow> if e = CHR ''}'' then Some [] else read_members r))"

text \<open>The string a literal token in quotes stands for.\<close>

definition token_string :: "bytes \<Rightarrow> string option" where
  "token_string t = unquote (butlast (tl t))"

lemma token_string_quote: "valid_utf8 s \<Longrightarrow> token_string (json_quote s) = Some s"
  by (simp add: token_string_def json_quote_def unquote_quote_body butlast_append)

text \<open>
  Field names are compared exactly first and then folded: ASCII letters to upper case, the long
  s (U+017F) and the Kelvin sign (U+212A) to the letters they fold with. Every other wide rune
  folds to a wide rune, which occurs in none of the names here, so it is left alone.
\<close>

definition upper_ascii :: "char \<Rightarrow> char" where
  "upper_ascii c = (if 0x61 \<le> (of_char c :: nat) \<and> (of_char c :: nat) \<le> 0x7A then char_of ((of_char c :: nat) - 32) else c)"

fun fold_name :: "string \<Rightarrow> string" where
  "fold_name (a # b # c # r) =
     (if of_char a = (0xC5 :: nat) \<and> of_char b = (0xBF :: nat) then CHR ''S'' # fold_name (c # r)
      else if of_char a = (0xE2 :: nat) \<and> of_char b = (0x84 :: nat) \<and> of_char c = (0xAA :: nat) then CHR ''K'' # fold_name r
      else upper_ascii a # fold_name (b # c # r))"
| "fold_name [a, b] =
     (if of_char a = (0xC5 :: nat) \<and> of_char b = (0xBF :: nat) then [CHR ''S''] else [upper_ascii a, upper_ascii b])"
| "fold_name [a] = [upper_ascii a]"
| "fold_name [] = []"

subsection \<open>What is printed is clean\<close>

lemma kept_punct [simp]:
  "kept (CHR ''{'') s" "kept (CHR ''}'') s" "kept (CHR '':'') s" "kept (CHR '','') s"
  by (simp_all add: kept_def html_char_def)

definition members_clean :: "nat \<Rightarrow> (string \<times> bytes) list \<Rightarrow> bool" where
  "members_clean d fs \<longleftrightarrow> list_all (\<lambda>(n, v). clean_value d v) fs"

lemma member_run:
  assumes "clean_value d v" "Suc d \<le> maxNestingDepth" "st = BeginString \<or> st = BeginStringOrEmpty"
  shows "\<exists>s. clean_run (Suc d) (json_quote n @ CHR '':'' # v) (st, [ObjectKey]) = Some (lift [ObjectValue] s) \<and> value_end s"
proof -
  have "clean_run (Suc d) (json_quote n) (st, [ObjectKey]) = Some (EndValue, [ObjectKey])"
    using assms(3) quoted_run(2,3) [of "[ObjectKey]" "Suc d" n] by auto
  moreover have "scan_step (CHR '':'') (EndValue, [ObjectKey]) = Some (BeginValue, [ObjectValue])"
    by (simp add: end_value_def)
  moreover obtain s where "clean_run (d + 1) v (BeginValue, [ObjectValue]) = Some (lift [ObjectValue] s)" "value_end s"
    using clean_value_in_context [OF assms(1), of "[ObjectValue]"] assms(2) by auto
  ultimately show ?thesis by (intro exI [of _ s]) (simp add: clean_run_append)
qed

lemma members_run:
  "fs \<noteq> [] \<Longrightarrow> members_clean d fs \<Longrightarrow> Suc d \<le> maxNestingDepth \<Longrightarrow> st = BeginString \<or> st = BeginStringOrEmpty \<Longrightarrow>
   \<exists>s. clean_run (Suc d) (json_members fs) (st, [ObjectKey]) = Some (lift [ObjectValue] s) \<and> value_end s"
proof (induction fs arbitrary: st rule: json_members.induct)
  case (2 n v)
  then show ?case using member_run [of d v st n] by (simp add: members_clean_def)
next
  case (3 n v f fs)
  from 3(3) have v: "clean_value d v" "members_clean d (f # fs)" by (simp_all add: members_clean_def)
  from member_run [OF v(1) 3(4,5), of n] obtain s where
    s: "clean_run (Suc d) (json_quote n @ CHR '':'' # v) (st, [ObjectKey]) = Some (lift [ObjectValue] s)" "value_end s"
    by blast
  from value_end_delim [OF s(2), of "CHR '',''" "[ObjectValue]"]
  have step: "scan_step (CHR '','') (lift [ObjectValue] s) = Some (BeginString, [ObjectKey])"
    by (simp add: end_value_def)
  obtain s2 where s2: "clean_run (Suc d) (json_members (f # fs)) (BeginString, [ObjectKey]) = Some (lift [ObjectValue] s2)" "value_end s2"
    using 3(1) [OF _ v(2) 3(4), of BeginString] by auto
  have "json_members ((n, v) # f # fs) = (json_quote n @ CHR '':'' # v) @ CHR '','' # json_members (f # fs)" by simp
  then have "clean_run (Suc d) (json_members ((n, v) # f # fs)) (st, [ObjectKey]) = Some (lift [ObjectValue] s2)"
    using s(1) step s2(1) by (simp only: clean_run_append) simp
  with s2(2) show ?case by blast
qed simp

lemma no_sep_members: "members_clean d fs \<Longrightarrow> no_sep (json_members fs @ [CHR ''}''])"
proof (induction fs rule: json_members.induct)
  case 1
  then show ?case by (simp add: sep_at_def)
next
  case (2 n v)
  then have "no_sep v" by (simp add: members_clean_def clean_value_def)
  then have "no_sep (v @ [CHR ''}''])" by (intro no_sep_append) (simp_all add: sep_at_def is_ascii_def)
  then have "no_sep (CHR '':'' # v @ [CHR ''}''])" by (simp add: sep_at_def split: list.splits)
  then have "no_sep (json_quote n @ CHR '':'' # v @ [CHR ''}''])"
    by (intro no_sep_append no_sep_quote) (simp_all add: is_ascii_def)
  then show ?case by simp
next
  case (3 n v f fs)
  then have "no_sep v" "no_sep (json_members (f # fs) @ [CHR ''}''])" by (simp_all add: members_clean_def clean_value_def)
  then have "no_sep (v @ CHR '','' # json_members (f # fs) @ [CHR ''}''])"
    by (intro no_sep_append) (simp_all add: sep_at_def is_ascii_def split: list.splits)
  then have "no_sep (CHR '':'' # v @ CHR '','' # json_members (f # fs) @ [CHR ''}''])"
    by (simp add: sep_at_def split: list.splits)
  then have "no_sep (json_quote n @ CHR '':'' # v @ CHR '','' # json_members (f # fs) @ [CHR ''}''])"
    by (intro no_sep_append no_sep_quote) (simp_all add: is_ascii_def)
  then show ?case by simp
qed

lemma clean_object:
  assumes "fs \<noteq> []" "members_clean d fs" "Suc d \<le> maxNestingDepth"
  shows "clean_value (Suc d) (json_object fs)"
proof -
  have "scan_step (CHR ''{'') (BeginValue, []) = Some (BeginStringOrEmpty, [ObjectKey])"
    using assms(3) by (simp add: begin_value_def push_state_def)
  moreover from members_run [OF assms, of BeginStringOrEmpty] obtain s where
    s: "clean_run (Suc d) (json_members fs) (BeginStringOrEmpty, [ObjectKey]) = Some (lift [ObjectValue] s)" "value_end s"
    by auto
  moreover from value_end_delim [OF s(2), of "CHR ''}''" "[ObjectValue]"]
  have "scan_step (CHR ''}'') (lift [ObjectValue] s) = Some (EndTop, [])" by (simp add: end_value_def pop_state_def)
  ultimately have "clean_run (Suc d) (json_object fs) (BeginValue, []) = Some (EndTop, [])"
    by (simp add: json_object_def clean_run_append)
  moreover have "no_sep (json_object fs)"
    using no_sep_members [OF assms(2)] by (simp add: json_object_def sep_at_def split: list.splits)
  ultimately show ?thesis by (simp add: clean_value_def value_end_def)
qed

subsection \<open>What is printed is read\<close>

lemma clean_value_head:
  assumes "clean_value d v"
  shows "\<exists>c r. v = c # r \<and> \<not> json_space c"
proof -
  obtain c r where v: "v = c # r" using clean_value_nonempty [OF assms] by (cases v) auto
  with assms have "kept c (BeginValue, [])" by (auto simp: clean_value_def split: if_splits)
  with v show ?thesis by (simp add: kept_def)
qed

lemma skip_space_Cons [simp]: "\<not> json_space c \<Longrightarrow> skip_space (c # r) = c # r"
  by (simp add: skip_space_def)

lemma next_value_clean:
  assumes "clean_value d v" "delimiter c"
  shows "next_value (v @ c # rest) = (v, c # rest)"
proof -
  from clean_value_head [OF assms(1)] have "skip_space (v @ c # rest) = v @ c # rest" by auto
  with clean_value_extent [OF assms, of rest] show ?thesis by (simp add: next_value_def)
qed

lemma read_member:
  assumes "clean_value d v" "c = CHR '','' \<or> c = CHR ''}''"
  shows "read_members (json_quote n @ CHR '':'' # v @ c # rest) =
    (if c = CHR ''}'' then Some [(json_quote n, v)] else map_option (Cons (json_quote n, v)) (read_members rest))"
proof -
  have "next_value (json_quote n @ CHR '':'' # v @ c # rest) = (json_quote n, CHR '':'' # v @ c # rest)"
    by (rule next_value_clean [OF clean_value_quote]) simp
  moreover have "next_value (v @ c # rest) = (v, c # rest)"
    using next_value_clean [OF assms(1)] assms(2) by (auto simp: delimiter_def)
  ultimately show ?thesis using assms(2) by (subst read_members.simps) auto
qed

lemma read_members_printed:
  "fs \<noteq> [] \<Longrightarrow> members_clean d fs \<Longrightarrow>
   read_members (json_members fs @ CHR ''}'' # rest) = Some (map (\<lambda>(n, v). (json_quote n, v)) fs)"
proof (induction fs rule: json_members.induct)
  case (2 n v)
  then show ?case using read_member [of d v "CHR ''}''" n rest] by (simp add: members_clean_def)
next
  case (3 n v f fs)
  then have v: "clean_value d v" and m: "members_clean d (f # fs)" by (simp_all add: members_clean_def)
  with 3 have "read_members (json_members (f # fs) @ CHR ''}'' # rest) = Some (map (\<lambda>(n, v). (json_quote n, v)) (f # fs))"
    by blast
  with read_member [OF v, of "CHR '',''" n "json_members (f # fs) @ CHR ''}'' # rest"] show ?case by simp
qed simp

lemma json_members_head: "fs \<noteq> [] \<Longrightarrow> \<exists>r. json_members fs = CHR 0x22 # r"
  by (induction fs rule: json_members.induct) (auto simp: json_quote_def)

theorem obj_members_printed:
  assumes "fs \<noteq> []" "members_clean d fs"
  shows "obj_members (json_object fs) = Some (map (\<lambda>(n, v). (json_quote n, v)) fs)"
proof -
  from json_members_head [OF assms(1)] obtain r where r: "json_members fs = CHR 0x22 # r" by blast
  have "obj_members (json_object fs) = read_members (json_members fs @ [CHR ''}''])"
    by (simp add: obj_members_def json_object_def r)
  with read_members_printed [OF assms, of "[]"] show ?thesis by simp
qed

subsection \<open>Integers\<close>

text \<open>\<open>strconv.ParseInt\<close> in base 10: an optional sign and at least one digit.\<close>

definition parse_nat :: "bytes \<Rightarrow> nat option" where
  "parse_nat s = (if s \<noteq> [] \<and> list_all is_digit s then Some (digits_value s) else None)"

definition parse_int :: "bytes \<Rightarrow> int option" where
  "parse_int s = (case s of
     [] \<Rightarrow> None
   | c # r \<Rightarrow>
      if c = CHR ''-'' then map_option (\<lambda>n. - int n) (parse_nat r)
      else if c = CHR ''+'' then map_option int (parse_nat r)
      else map_option int (parse_nat s))"

lemma parse_nat_digits: "parse_nat (nat_digits n) = Some n"
  by (simp add: parse_nat_def nat_digits_all)

lemma nat_digits_head: "\<exists>c r. nat_digits n = c # r \<and> is_digit c"
  using nat_digits_all [of n] by (cases "nat_digits n") auto

lemma parse_int_itoa: "parse_int (itoa i) = Some i"
proof -
  obtain c r where "nat_digits (nat i) = c # r" "is_digit c" using nat_digits_head by blast
  then show ?thesis
    using parse_nat_digits [of "nat i"] parse_nat_digits [of "nat (- i)"]
    by (auto simp: itoa_def parse_int_def is_digit_def)
qed

lemma digits_run: "list_all is_digit ds \<Longrightarrow> length stk \<le> d \<Longrightarrow> clean_run d ds (St1, stk) = Some (St1, stk)"
  by (induction ds) (auto simp: kept_def html_char_def json_space_def is_digit_def)

lemma digit_kept: "is_digit c \<Longrightarrow> kept c s"
  by (auto simp: kept_def html_char_def json_space_def is_digit_def)

lemma nat_digits_zero: "nat_digits n = CHR ''0'' # r \<Longrightarrow> n = 0 \<and> r = []"
proof (induction n arbitrary: r rule: nat_digits.induct)
  case (1 n)
  show ?case
  proof (cases "n < 10")
    case True
    with 1(2) have d: "digit_char n = CHR ''0''" "r = []" by (simp_all add: nat_digits.simps [of n])
    with True of_char_digit_char [of n] show ?thesis by simp
  next
    case False
    with 1(2) have "nat_digits (n div 10) @ [digit_char (n mod 10)] = CHR ''0'' # r" by (subst (asm) nat_digits.simps) simp
    then obtain r2 where "nat_digits (n div 10) = CHR ''0'' # r2" by (cases "nat_digits (n div 10)") auto
    with 1(1) False have "n div 10 = 0" by blast
    with False show ?thesis by simp
  qed
qed

lemma number_run:
  assumes "st = BeginValue \<or> st = StNeg"
  shows "\<exists>s. clean_run d (nat_digits n) (st, []) = Some s \<and> value_end s"
proof -
  obtain c r where cr: "nat_digits n = c # r" "is_digit c" using nat_digits_head by blast
  then have r: "list_all is_digit r" using nat_digits_all [of n] by simp
  have k: "kept c (st, [])" using digit_kept [OF cr(2)] .
  have nd: "\<not> json_space c \<and> c \<notin> {CHR ''{'', CHR ''['', CHR 0x22, CHR ''-'', CHR ''t'', CHR ''f'', CHR ''n''}"
    using cr(2) by (auto simp: json_space_def is_digit_def)
  show ?thesis
  proof (cases "c = CHR ''0''")
    case True
    with cr(1) nat_digits_zero have "r = []" by blast
    with True k cr nd assms show ?thesis
      by (auto simp: begin_value_def scalar_start_def value_end_def number_end_def)
  next
    case False
    with cr(2) have "digit19 c" by (simp add: digit19_def)
    with False k cr nd assms digits_run [OF r, of "[]" d] show ?thesis
      by (auto simp: begin_value_def scalar_start_def value_end_def number_end_def expect_def)
  qed
qed

lemma clean_itoa: "clean_value d (itoa i)"
proof -
  have ascii: "no_sep (itoa i)"
  proof (rule no_sep_ascii)
    show "list_all is_ascii (itoa i)"
      using itoa_chars [of i] by (auto simp: list_all_iff is_itoa_char_def is_ascii_def is_digit_def)
  qed
  have "\<exists>s. clean_run d (itoa i) (BeginValue, []) = Some s \<and> value_end s"
  proof (cases "i < 0")
    case True
    then show ?thesis using number_run [of StNeg d "nat (- i)"]
      by (auto simp: itoa_def kept_def html_char_def json_space_def begin_value_def scalar_start_def)
  qed (use number_run [of BeginValue d "nat i"] in \<open>simp add: itoa_def\<close>)
  with ascii show ?thesis by (auto simp: clean_value_def)
qed

lemma clean_null: "clean_value d ''null''"
  by (simp add: clean_value_def sep_at_def kept_def html_char_def json_space_def begin_value_def scalar_start_def
      digit19_def is_digit_def expect_def value_end_def)

end
