(* ===== verification/JsonTypes.thy ===== *)
theory JsonTypes
  imports JsonObject
begin

section \<open>JSON types: how a Go type is encoded and decoded\<close>

text \<open>
  \<open>encoding/json\<close> works by reflection: for every type it builds an encoder and a decoder. Here a
  \<open>json_type\<close> is such a pair with the zero value of the type, and a struct is the list of its
  fields with their tags. A decoder gets the text of one value, which is known to be well formed,
  and the value to decode into; what it changes stays changed when it fails. The law \<open>jt_law\<close>
  says that printed values are clean and are read back; it composes from the fields to the
  struct.
\<close>

subsection \<open>Decoders\<close>

text \<open>
  An \<open>UnmarshalTypeError\<close> is saved (the first one is kept) and decoding goes on; an error of an
  \<open>UnmarshalJSON\<close> method ends it. The context of an error message: the innermost struct and the
  path of field names.
\<close>

type_synonym json_ctx = "string \<times> string list"

datatype dec_status = DecOk | DecSaved go_error | DecAbort go_error

fun dec_then :: "dec_status \<Rightarrow> dec_status \<Rightarrow> dec_status" where
  "dec_then (DecAbort e) st = DecAbort e"
| "dec_then DecOk st = st"
| "dec_then (DecSaved e) (DecAbort e') = DecAbort e'"
| "dec_then (DecSaved e) st = DecSaved e"

datatype value_kind = KObject | KArray | KString | KBool | KNull | KNumber

definition value_kind :: "bytes \<Rightarrow> value_kind" where
  "value_kind v = (case v of
     [] \<Rightarrow> KNull
   | c # _ \<Rightarrow>
      if c = CHR ''{'' then KObject else if c = CHR ''['' then KArray
      else if c = CHR 0x22 then KString else if c = CHR ''t'' \<or> c = CHR ''f'' then KBool
      else if c = CHR ''n'' then KNull else KNumber)"

fun kind_name :: "value_kind \<Rightarrow> string" where
  "kind_name KObject = ''object''" | "kind_name KArray = ''array''" | "kind_name KString = ''string''"
| "kind_name KBool = ''bool''" | "kind_name KNull = ''null''" | "kind_name KNumber = ''number''"

definition json_type_error :: "string \<Rightarrow> string \<Rightarrow> json_ctx \<Rightarrow> go_error" where
  "json_type_error what ty ctx = ErrValue ''json'' ''UnmarshalTypeError''
     (''json: cannot unmarshal '' @ what @
      (if fst ctx = [] \<and> snd ctx = [] then '' into Go value of type ''
       else '' into Go struct field '' @ fst ctx @ ''.'' @ intercalate ''.'' (snd ctx) @ '' of type '') @ ty)"

text \<open>The panic of a decoder that is out of step with the scanner.\<close>

definition json_phase_error :: go_error where
  "json_phase_error = ErrValue ''json'' ''phasePanicMsg'' ''JSON decoder out of sync - data changing underfoot?''"

text \<open>The text of a syntax error (it names the offending byte) is left out.\<close>

definition json_syntax_error :: go_error where
  "json_syntax_error = ErrValue ''json'' ''SyntaxError'' ''invalid JSON''"

record 'a json_type =
  jt_enc :: "'a \<Rightarrow> go_error + bytes"
  jt_dec :: "json_ctx \<Rightarrow> bytes \<Rightarrow> 'a \<Rightarrow> 'a \<times> dec_status"
  jt_zero :: 'a

subsection \<open>The two entry points\<close>

definition json_Marshal :: "'a json_type \<Rightarrow> 'a \<Rightarrow> go_error + bytes" where
  "json_Marshal T a = jt_enc T a"

text \<open>The syntax of the whole input is checked first; then the value is decoded.\<close>

definition json_Unmarshal :: "'a json_type \<Rightarrow> bytes \<Rightarrow> 'a \<Rightarrow> go_error option \<times> 'a" where
  "json_Unmarshal T data a =
     (if \<not> json_valid data then (Some json_syntax_error, a)
      else (case jt_dec T ([], []) (fst (next_value data)) a of
          (a', DecOk) \<Rightarrow> (None, a')
        | (a', DecSaved e) \<Rightarrow> (Some e, a')
        | (a', DecAbort e) \<Rightarrow> (Some e, a')))"

subsection \<open>Basic types\<close>

definition jt_string :: "string \<Rightarrow> string json_type" where
  "jt_string ty = \<lparr>jt_enc = (\<lambda>s. Inr (json_quote s)),
     jt_dec = (\<lambda>ctx v s. case value_kind v of
        KString \<Rightarrow> (case token_string v of None \<Rightarrow> (s, DecAbort json_phase_error) | Some t \<Rightarrow> (t, DecOk))
      | KNull \<Rightarrow> (s, DecOk)
      | k \<Rightarrow> (s, DecSaved (json_type_error (kind_name k) ty ctx))),
     jt_zero = []\<rparr>"

definition jt_int :: "string \<Rightarrow> 'w :: len word json_type" where
  "jt_int ty = \<lparr>jt_enc = (\<lambda>w. Inr (itoa (sint w))),
     jt_dec = (\<lambda>ctx v w. case value_kind v of
        KNumber \<Rightarrow> (case parse_int v of
            None \<Rightarrow> (w, DecSaved (json_type_error (''number '' @ v) ty ctx))
          | Some i \<Rightarrow>
              if - (2 ^ (LENGTH('w) - 1)) \<le> i \<and> i < 2 ^ (LENGTH('w) - 1) then (word_of_int i, DecOk)
              else (w, DecSaved (json_type_error (''number '' @ v) ty ctx)))
      | KNull \<Rightarrow> (w, DecOk)
      | k \<Rightarrow> (w, DecSaved (json_type_error (kind_name k) ty ctx))),
     jt_zero = 0\<rparr>"

text \<open>The encoder of a type with a \<open>MarshalJSON\<close> method: its result is compacted, its error wrapped.\<close>

definition marshaler_enc :: "string \<Rightarrow> go_error + bytes \<Rightarrow> go_error + bytes" where
  "marshaler_enc ty res = (case res of
     Inl e \<Rightarrow> Inl (errorf_ctx (''json: error calling MarshalJSON for type '' @ ty) e)
   | Inr b \<Rightarrow> (case json_compact b of
       None \<Rightarrow> Inl (errorf_ctx (''json: error calling MarshalJSON for type '' @ ty) json_syntax_error)
     | Some c \<Rightarrow> Inr c))"

lemma marshaler_enc_clean: "clean_value d b \<Longrightarrow> marshaler_enc ty (Inr b) = Inr b"
  by (simp add: marshaler_enc_def clean_value_compact)

text \<open>
  \<open>json.RawMessage\<close>: its methods print nil as \<open>null\<close>, else the bytes, which the encoder then
  compacts, and keep a copy of the text that is read.
\<close>

definition jt_raw :: "bytes option json_type" where
  "jt_raw = \<lparr>jt_enc = (\<lambda>p. marshaler_enc ''json.RawMessage'' (Inr (case p of None \<Rightarrow> ''null'' | Some b \<Rightarrow> b))),
     jt_dec = (\<lambda>ctx v p. (Some v, DecOk)),
     jt_zero = None\<rparr>"

text \<open>A pointer: nil is \<open>null\<close>; any other text is decoded into the target, allocated if need be.\<close>

definition jt_ptr :: "'a json_type \<Rightarrow> 'a option json_type" where
  "jt_ptr T = \<lparr>jt_enc = (\<lambda>p. case p of None \<Rightarrow> Inr ''null'' | Some a \<Rightarrow> jt_enc T a),
     jt_dec = (\<lambda>ctx v p.
        if value_kind v = KNull then (None, DecOk)
        else (case jt_dec T ctx v (case p of None \<Rightarrow> jt_zero T | Some a \<Rightarrow> a) of (a, st) \<Rightarrow> (Some a, st))),
     jt_zero = None\<rparr>"

subsection \<open>Structs\<close>

record 'r json_field =
  fl_name :: string
  fl_print :: "'r \<Rightarrow> (go_error + bytes) option"
  fl_read :: "json_ctx \<Rightarrow> bytes \<Rightarrow> 'r \<Rightarrow> 'r \<times> dec_status"

text \<open>A field with the tag \<open>name\<close>, and one with the tag \<open>name,omitempty\<close>.\<close>

definition field :: "string \<Rightarrow> 'a json_type \<Rightarrow> ('r \<Rightarrow> 'a) \<Rightarrow> (('a \<Rightarrow> 'a) \<Rightarrow> 'r \<Rightarrow> 'r) \<Rightarrow> 'r json_field" where
  "field name T get upd = \<lparr>fl_name = name, fl_print = (\<lambda>r. Some (jt_enc T (get r))),
     fl_read = (\<lambda>ctx v r. case jt_dec T ctx v (get r) of (a, st) \<Rightarrow> (upd (\<lambda>_. a) r, st))\<rparr>"

definition field_omitempty ::
  "string \<Rightarrow> 'a json_type \<Rightarrow> ('r \<Rightarrow> 'a) \<Rightarrow> (('a \<Rightarrow> 'a) \<Rightarrow> 'r \<Rightarrow> 'r) \<Rightarrow> 'r json_field" where
  "field_omitempty name T get upd = (field name T get upd)
     \<lparr>fl_print := (\<lambda>r. if get r = jt_zero T then None else Some (jt_enc T (get r)))\<rparr>"

fun print_fields :: "'r json_field list \<Rightarrow> 'r \<Rightarrow> go_error + (string \<times> bytes) list" where
  "print_fields [] r = Inr []"
| "print_fields (f # fs) r = (case fl_print f r of
     None \<Rightarrow> print_fields fs r
   | Some (Inl e) \<Rightarrow> Inl e
   | Some (Inr v) \<Rightarrow> (case print_fields fs r of Inl e \<Rightarrow> Inl e | Inr ms \<Rightarrow> Inr ((fl_name f, v) # ms)))"

text \<open>The field of a key: an exact match, else the first field that folds to the same name.\<close>

definition find_field :: "'r json_field list \<Rightarrow> string \<Rightarrow> 'r json_field option" where
  "find_field fs k = (case find (\<lambda>f. fl_name f = k) fs of
     Some f \<Rightarrow> Some f
   | None \<Rightarrow> find (\<lambda>f. fold_name (fl_name f) = fold_name k) fs)"

fun read_named :: "string \<Rightarrow> string list \<Rightarrow> 'r json_field list \<Rightarrow> (string \<times> bytes) list \<Rightarrow> 'r \<Rightarrow> 'r \<times> dec_status" where
  "read_named sname path fs [] r = (r, DecOk)"
| "read_named sname path fs ((k, v) # ms) r = (case find_field fs k of
     None \<Rightarrow> read_named sname path fs ms r
   | Some f \<Rightarrow> (case fl_read f (sname, path @ [fl_name f]) v r of
         (r1, DecAbort e) \<Rightarrow> (r1, DecAbort e)
       | (r1, st) \<Rightarrow> (case read_named sname path fs ms r1 of (r2, st2) \<Rightarrow> (r2, dec_then st st2))))"

text \<open>The members with their keys unquoted; \<open>None\<close> is the decoder's panic.\<close>

definition named_members :: "bytes \<Rightarrow> (string \<times> bytes) list option" where
  "named_members v = (case obj_members v of
     None \<Rightarrow> None
   | Some ms \<Rightarrow>
       if list_all (\<lambda>(k, v). token_string k \<noteq> None) ms
       then Some (map (\<lambda>(k, v). (the (token_string k), v)) ms) else None)"

definition jt_struct :: "string \<Rightarrow> string \<Rightarrow> 'r json_field list \<Rightarrow> 'r \<Rightarrow> 'r json_type" where
  "jt_struct pkg sname fs zero = \<lparr>jt_enc = (\<lambda>r. case print_fields fs r of Inl e \<Rightarrow> Inl e | Inr ms \<Rightarrow> Inr (json_object ms)),
     jt_dec = (\<lambda>ctx v r. case value_kind v of
        KObject \<Rightarrow> (case named_members v of
            None \<Rightarrow> (r, DecAbort json_phase_error)
          | Some ms \<Rightarrow> read_named sname (snd ctx) fs ms r)
      | KNull \<Rightarrow> (r, DecOk)
      | k \<Rightarrow> (r, DecSaved (json_type_error (kind_name k) (pkg @ ''.'' @ sname) ctx))),
     jt_zero = zero\<rparr>"

subsection \<open>The round-trip law\<close>

definition jt_law :: "nat \<Rightarrow> ('a \<Rightarrow> bool) \<Rightarrow> 'a json_type \<Rightarrow> bool" where
  "jt_law d P T \<longleftrightarrow> (\<forall>a. P a \<longrightarrow> (\<exists>v. jt_enc T a = Inr v \<and> clean_value d v \<and>
     (\<forall>ctx. jt_dec T ctx v (jt_zero T) = (a, DecOk))))"

definition jt_nonnull :: "('a \<Rightarrow> bool) \<Rightarrow> 'a json_type \<Rightarrow> bool" where
  "jt_nonnull P T \<longleftrightarrow> (\<forall>a v. P a \<longrightarrow> jt_enc T a = Inr v \<longrightarrow> value_kind v \<noteq> KNull)"

lemma jt_lawD:
  assumes "jt_law d P T" "P a"
  obtains v where "jt_enc T a = Inr v" "clean_value d v" "\<And>ctx. jt_dec T ctx v (jt_zero T) = (a, DecOk)"
  using assms by (auto simp: jt_law_def)

lemma jt_law_mono: "jt_law d P T \<Longrightarrow> d \<le> d' \<Longrightarrow> jt_law d' P T"
  unfolding jt_law_def by (meson clean_value_mono)

lemma jt_law_weaken: "jt_law d P T \<Longrightarrow> (\<And>a. Q a \<Longrightarrow> P a) \<Longrightarrow> jt_law d Q T"
  unfolding jt_law_def by blast

lemma kind_quote [simp]: "value_kind (json_quote s) = KString"
  by (simp add: value_kind_def json_quote_def)

lemma kind_object [simp]: "value_kind (json_object fs) = KObject"
  by (simp add: value_kind_def json_object_def)

lemma kind_itoa [simp]: "value_kind (itoa i) = KNumber"
proof -
  obtain c r where cr: "itoa i = c # r" by (cases "itoa i") auto
  with itoa_chars [of i] have "is_itoa_char c" by simp
  then have "c \<notin> {CHR ''{'', CHR ''['', CHR 0x22, CHR ''t'', CHR ''f'', CHR ''n''}"
    by (auto simp: is_itoa_char_def is_digit_def)
  with cr show ?thesis by (simp add: value_kind_def)
qed

lemma string_law: "jt_law d valid_utf8 (jt_string ty)"
  by (auto simp: jt_law_def jt_string_def clean_value_quote token_string_quote)

lemma string_nonnull: "jt_nonnull P (jt_string ty)"
  by (auto simp: jt_nonnull_def jt_string_def)

lemma int_law: "jt_law d (\<lambda>_. True) (jt_int ty :: 'w :: len word json_type)"
proof -
  have "- (2 ^ (LENGTH('w) - 1)) \<le> sint w \<and> sint w < 2 ^ (LENGTH('w) - 1)" for w :: "'w word"
    using sint_greater_eq [of w] sint_lt [of w] by simp
  then show ?thesis by (auto simp: jt_law_def jt_int_def clean_itoa parse_int_itoa)
qed

lemma int_nonnull: "jt_nonnull P (jt_int ty)"
  by (auto simp: jt_nonnull_def jt_int_def)

definition clean_raw :: "nat \<Rightarrow> bytes option \<Rightarrow> bool" where
  "clean_raw d p \<longleftrightarrow> (case p of None \<Rightarrow> False | Some b \<Rightarrow> clean_value d b)"

lemma raw_law: "jt_law d (clean_raw d) jt_raw"
  by (auto simp: jt_law_def jt_raw_def clean_raw_def marshaler_enc_clean split: option.splits)

lemma ptr_law:
  assumes "jt_law d P T" "jt_nonnull P T"
  shows "jt_law d (\<lambda>p. case p of None \<Rightarrow> True | Some a \<Rightarrow> P a) (jt_ptr T)"
  unfolding jt_law_def
proof (intro allI impI)
  fix p assume p: "case p of None \<Rightarrow> True | Some a \<Rightarrow> P a"
  show "\<exists>v. jt_enc (jt_ptr T) p = Inr v \<and> clean_value d v \<and> (\<forall>ctx. jt_dec (jt_ptr T) ctx v (jt_zero (jt_ptr T)) = (p, DecOk))"
  proof (cases p)
    case None
    then show ?thesis by (simp add: jt_ptr_def clean_null value_kind_def)
  next
    case (Some a)
    with p have a: "P a" by simp
    from jt_lawD [OF assms(1) a] obtain v where
      v: "jt_enc T a = Inr v" "clean_value d v" "\<And>ctx. jt_dec T ctx v (jt_zero T) = (a, DecOk)" by blast
    with assms(2) a have "value_kind v \<noteq> KNull" by (auto simp: jt_nonnull_def)
    with v Some show ?thesis by (simp add: jt_ptr_def)
  qed
qed

lemma valid_utf8_ascii [simp]: "valid_utf8 []" "is_ascii c \<Longrightarrow> valid_utf8 (c # cs) \<longleftrightarrow> valid_utf8 cs"
proof -
  assume c: "is_ascii c"
  then have "decode_rune (c # cs) = (of_char c, 1)" by (simp add: decode_rune_ascii is_ascii_def)
  moreover have "(of_char c :: nat) \<noteq> rune_error" using c by (auto simp: is_ascii_def rune_error_def)
  ultimately show "valid_utf8 (c # cs) \<longleftrightarrow> valid_utf8 cs" by (simp add: valid_utf8.simps [of "c # cs"])
qed (simp add: valid_utf8.simps)

text \<open>
  A struct: it is enough that the fields print clean values and that reading them back under
  their names, into the zero value, gives the struct.
\<close>

definition fields_law :: "nat \<Rightarrow> string \<Rightarrow> 'r json_field list \<Rightarrow> 'r \<Rightarrow> 'r \<Rightarrow> bool" where
  "fields_law d sname fs zero r \<longleftrightarrow> (case print_fields fs r of
     Inl e \<Rightarrow> False
   | Inr ms \<Rightarrow> members_clean d ms \<and> list_all (\<lambda>(n, v). valid_utf8 n) ms \<and>
       (\<forall>path. read_named sname path fs ms zero = (r, DecOk)))"

definition law_at :: "nat \<Rightarrow> 'a json_type \<Rightarrow> 'a \<Rightarrow> bool" where
  "law_at d T a \<longleftrightarrow> (\<exists>v. jt_enc T a = Inr v \<and> clean_value d v \<and> (\<forall>ctx. jt_dec T ctx v (jt_zero T) = (a, DecOk)))"

lemma law_atI: "jt_law d P T \<Longrightarrow> P a \<Longrightarrow> law_at d T a"
  by (simp add: jt_law_def law_at_def)

text \<open>One field: it is left out and stays as it is, or it is printed and read into the struct so far.\<close>

definition field_ok :: "nat \<Rightarrow> 'r json_field \<Rightarrow> 'r \<Rightarrow> 'r \<Rightarrow> 'r \<Rightarrow> bool" where
  "field_ok d f r r0 r1 \<longleftrightarrow> (case fl_print f r of
     None \<Rightarrow> r1 = r0
   | Some (Inl e) \<Rightarrow> False
   | Some (Inr v) \<Rightarrow> clean_value d v \<and> (\<forall>ctx. fl_read f ctx v r0 = (r1, DecOk)))"

inductive fields_ok :: "nat \<Rightarrow> 'r \<Rightarrow> 'r json_field list \<Rightarrow> 'r \<Rightarrow> 'r \<Rightarrow> bool" for d r where
  fields_ok_Nil: "fields_ok d r [] r0 r0"
| fields_ok_Cons: "field_ok d f r r0 r1 \<Longrightarrow> fields_ok d r fs r1 r2 \<Longrightarrow> fields_ok d r (f # fs) r0 r2"

lemma jt_zero_simps [simp]:
  "jt_zero (jt_string ty) = []" "jt_zero jt_raw = None" "jt_zero (jt_ptr T) = None"
  "jt_zero (jt_int ty) = 0" "jt_zero (jt_struct pkg sname fs z) = z"
  by (simp_all add: jt_string_def jt_raw_def jt_ptr_def jt_int_def jt_struct_def)

lemma field_simps [simp]:
  "fl_name (field n T get upd) = n" "fl_name (field_omitempty n T get upd) = n"
  "fl_print (field n T get upd) r = Some (jt_enc T (get r))"
  "fl_print (field_omitempty n T get upd) r = (if get r = jt_zero T then None else Some (jt_enc T (get r)))"
  "fl_read (field n T get upd) ctx v r = (case jt_dec T ctx v (get r) of (a, st) \<Rightarrow> (upd (\<lambda>_. a) r, st))"
  "fl_read (field_omitempty n T get upd) ctx v r = (case jt_dec T ctx v (get r) of (a, st) \<Rightarrow> (upd (\<lambda>_. a) r, st))"
  by (simp_all add: field_def field_omitempty_def)

lemma dec_then_Ok [simp]: "dec_then st DecOk = st"
  by (cases st) auto

lemma field_okI:
  "law_at d T (get r) \<Longrightarrow> get r0 = jt_zero T \<Longrightarrow> field_ok d (field n T get upd) r r0 (upd (\<lambda>_. get r) r0)"
  by (auto simp: law_at_def field_ok_def)

lemma field_omitempty_okI:
  "law_at d T (get r) \<Longrightarrow> get r0 = jt_zero T \<Longrightarrow> upd (\<lambda>_. jt_zero T) r0 = r0 \<Longrightarrow>
   field_ok d (field_omitempty n T get upd) r r0 (upd (\<lambda>_. get r) r0)"
  by (auto simp: law_at_def field_ok_def)

lemmas fields_ok_rules = fields_ok_Nil fields_ok_Cons [OF field_okI] fields_ok_Cons [OF field_omitempty_okI]

lemma find_field_distinct: "distinct (map fl_name fs) \<Longrightarrow> f \<in> set fs \<Longrightarrow> find_field fs (fl_name f) = Some f"
proof -
  assume d: "distinct (map fl_name fs)" "f \<in> set fs"
  then have "find (\<lambda>g. fl_name g = fl_name f) fs = Some f" by (induction fs) (auto simp: image_iff)
  then show ?thesis by (simp add: find_field_def)
qed

lemma fields_ok_read:
  assumes "fields_ok d r fs r0 r1" "set fs \<subseteq> set all" "distinct (map fl_name all)" "list_all (valid_utf8 \<circ> fl_name) all"
  shows "\<exists>ms. print_fields fs r = Inr ms \<and> members_clean d ms \<and> list_all (\<lambda>(n, v). valid_utf8 n) ms \<and>
    (\<forall>path. read_named sname path all ms r0 = (r1, DecOk))"
  using assms(1,2)
proof (induction rule: fields_ok.induct)
  case (fields_ok_Nil r0)
  show ?case by (simp add: members_clean_def)
next
  case (fields_ok_Cons f r0 r1 fs r2)
  then obtain ms where ms: "print_fields fs r = Inr ms" "members_clean d ms" "list_all (\<lambda>(n, v). valid_utf8 n) ms"
    "\<And>path. read_named sname path all ms r1 = (r2, DecOk)" by auto
  have f: "find_field all (fl_name f) = Some f" "valid_utf8 (fl_name f)"
    using find_field_distinct [OF assms(3)] assms(4) fields_ok_Cons.prems by (auto simp: list_all_iff)
  show ?case
  proof (cases "fl_print f r")
    case None
    with fields_ok_Cons.hyps(1) ms show ?thesis by (simp add: field_ok_def)
  next
    case (Some res)
    with fields_ok_Cons.hyps(1) obtain v where
      "res = Inr v" "clean_value d v" "\<And>ctx. fl_read f ctx v r0 = (r1, DecOk)"
      by (auto simp: field_ok_def split: sum.splits)
    with Some ms f show ?thesis by (simp add: members_clean_def)
  qed
qed

lemma fields_lawI:
  assumes "fields_ok d r fs zero r'" "r' = r" "distinct (map fl_name fs)" "list_all (valid_utf8 \<circ> fl_name) fs"
  shows "fields_law d sname fs zero r"
  using fields_ok_read [OF assms(1) order_refl assms(3,4), of sname] assms(2) by (auto simp: fields_law_def)

lemma named_members_printed:
  assumes "members_clean d ms" "list_all (\<lambda>(n, v). valid_utf8 n) ms"
  shows "named_members (json_object ms) = Some ms"
proof -
  have "obj_members (json_object ms) = Some (map (\<lambda>(n, v). (json_quote n, v)) ms)"
  proof (cases "ms = []")
    case True
    then show ?thesis by (simp add: obj_members_def json_object_def)
  qed (use obj_members_printed assms(1) in blast)
  moreover have "map (\<lambda>(k, v). (the (token_string k), v)) (map (\<lambda>(n, v). (json_quote n, v)) ms) = ms"
    using assms(2) by (induction ms) (auto simp: token_string_quote)
  moreover have "list_all (\<lambda>(k, v). token_string k \<noteq> None) (map (\<lambda>(n, v). (json_quote n, v)) ms)"
    using assms(2) by (induction ms) (auto simp: token_string_quote)
  ultimately show ?thesis by (simp add: named_members_def)
qed

lemma clean_object_any:
  assumes "members_clean d ms" "Suc d \<le> maxNestingDepth"
  shows "clean_value (Suc d) (json_object ms)"
proof (cases "ms = []")
  case True
  have "scan_step (CHR ''{'') (BeginValue, []) = Some (BeginStringOrEmpty, [ObjectKey])"
    using assms(2) by (simp add: begin_value_def push_state_def)
  with True show ?thesis
    by (simp add: json_object_def clean_value_def sep_at_def end_value_def pop_state_def value_end_def)
qed (use clean_object assms in blast)

lemma struct_law:
  assumes "\<And>r. P r \<Longrightarrow> fields_law d sname fs zero r" "Suc d \<le> maxNestingDepth"
  shows "jt_law (Suc d) P (jt_struct pkg sname fs zero)"
  unfolding jt_law_def
proof (intro allI impI)
  fix r assume "P r"
  from assms(1) [OF this] obtain ms where ms: "print_fields fs r = Inr ms" "members_clean d ms"
    "list_all (\<lambda>(n, v). valid_utf8 n) ms" "\<And>path. read_named sname path fs ms zero = (r, DecOk)"
    by (auto simp: fields_law_def split: sum.splits)
  with clean_object_any [OF ms(2) assms(2)] named_members_printed [OF ms(2,3)]
  show "\<exists>v. jt_enc (jt_struct pkg sname fs zero) r = Inr v \<and> clean_value (Suc d) v \<and>
    (\<forall>ctx. jt_dec (jt_struct pkg sname fs zero) ctx v (jt_zero (jt_struct pkg sname fs zero)) = (r, DecOk))"
    by (simp add: jt_struct_def)
qed

lemma struct_nonnull: "jt_nonnull P (jt_struct pkg sname fs zero)"
  by (auto simp: jt_nonnull_def jt_struct_def split: sum.splits)

subsection \<open>Round trip of the entry points\<close>

lemma next_value_only:
  assumes "clean_value d v"
  shows "next_value v = (v, [])"
proof -
  from clean_value_run [OF assms] obtain s where
    s: "clean_run d v (BeginValue, []) = Some s" "scan_run v (BeginValue, []) = Some s" "value_end s" .
  from clean_run_last [OF s(1,3) clean_value_nonempty [OF assms]]
  have "scan_value v (BeginValue, []) = (v, [])"
    by (intro scan_value_all [OF s(2) scanner_wf_start s(3)]) simp
  moreover have "skip_space v = v" using clean_value_head [OF assms] by auto
  ultimately show ?thesis by (simp add: next_value_def)
qed

theorem Unmarshal_Marshal:
  assumes "jt_law d P T" "P a"
  shows "\<exists>v. json_Marshal T a = Inr v \<and> clean_value d v \<and> json_Unmarshal T v (jt_zero T) = (None, a)"
proof -
  from jt_lawD [OF assms] obtain v where
    v: "jt_enc T a = Inr v" "clean_value d v" "\<And>ctx. jt_dec T ctx v (jt_zero T) = (a, DecOk)" by blast
  with next_value_only [OF v(2)] clean_value_valid [OF v(2)] show ?thesis
    by (simp add: json_Marshal_def json_Unmarshal_def)
qed

end
