(* ===== verification/JsonTime.thy ===== *)
theory JsonTime
  imports GoCalendar JsonTypes "HOL-Library.Monad_Syntax"
begin

section \<open>Times in JSON\<close>

text \<open>
  \<open>time.Time\<close> is encoded as RFC 3339 with nanoseconds, and decoded by a fast parser of that
  format with the general layout parser as its fallback (which also takes a one-digit hour, a
  comma before the fraction and offsets up to 24:60). A time that can be printed and whose
  offset is in whole minutes is read back exactly.
\<close>

subsection \<open>Printing\<close>

fun pad_digits :: "nat \<Rightarrow> nat \<Rightarrow> string" where
  "pad_digits 0 n = []"
| "pad_digits (Suc k) n = pad_digits k (n div 10) @ [digit_char (n mod 10)]"

definition strip_zeros :: "string \<Rightarrow> string" where
  "strip_zeros ds = rev (dropWhile (\<lambda>c. c = CHR ''0'') (rev ds))"

definition time_fraction :: "int \<Rightarrow> string" where
  "time_fraction nsec = (let ds = strip_zeros (pad_digits 9 (nat nsec)) in if ds = [] then [] else CHR ''.'' # ds)"

text \<open>The offset in minutes, cut towards zero.\<close>

definition zone_minutes :: "int \<Rightarrow> nat" where
  "zone_minutes off = nat (\<bar>off\<bar> div 60)"

definition time_zone :: "int \<Rightarrow> string" where
  "time_zone off =
     (if off = 0 then ''Z''
      else (if off < 0 \<and> 0 < zone_minutes off then CHR ''-'' else CHR ''+'') #
        pad_digits 2 (zone_minutes off div 60) @ '':'' @ pad_digits 2 (zone_minutes off mod 60))"

text \<open>\<open>appendStrictRFC3339\<close>: years and zone hours that do not fit are errors.\<close>

definition time_rfc3339 :: "go_time \<Rightarrow> go_error + string" where
  "time_rfc3339 t =
     (let loc = t_sec t + t_off t; s = nat (loc mod 86400) in
      case civil_date (loc div 86400) of (y, m, d) \<Rightarrow>
        if y < 0 \<or> 9999 < y then Inl (ErrValue ''time'' ''MarshalJSON'' ''Time.MarshalJSON: year outside of range [0,9999]'')
        else if t_off t \<noteq> 0 \<and> 24 \<le> zone_minutes (t_off t) div 60 then
          Inl (ErrValue ''time'' ''MarshalJSON'' ''Time.MarshalJSON: timezone hour outside of range [0,23]'')
        else Inr (pad_digits 4 (nat y) @ ''-'' @ pad_digits 2 m @ ''-'' @ pad_digits 2 (nat d) @ ''T'' @
          pad_digits 2 (s div 3600) @ '':'' @ pad_digits 2 (s div 60 mod 60) @ '':'' @ pad_digits 2 (s mod 60) @
          time_fraction (t_nsec t) @ time_zone (t_off t)))"

definition time_MarshalJSON :: "go_time \<Rightarrow> go_error + bytes" where
  "time_MarshalJSON t = map_sum id (\<lambda>s. [CHR 0x22] @ s @ [CHR 0x22]) (time_rfc3339 t)"

subsection \<open>Reading\<close>

definition parse_range :: "bytes \<Rightarrow> nat \<Rightarrow> nat \<Rightarrow> nat option" where
  "parse_range s lo hi =
     (if list_all is_digit s \<and> lo \<le> digits_value s \<and> digits_value s \<le> hi then Some (digits_value s) else None)"

text \<open>A fraction after one of the given separators; digits after the ninth are dropped.\<close>

definition read_fraction :: "char set \<Rightarrow> bytes \<Rightarrow> int \<times> bytes" where
  "read_fraction seps r =
     (if 2 \<le> length r \<and> hd r \<in> seps \<and> is_digit (r ! 1) then
        (let ds = takeWhile is_digit (tl r); used = take 9 ds
         in (int (digits_value used) * 10 ^ (9 - length used), drop (Suc (length ds)) r))
      else (0, r))"

definition go_date :: "nat \<Rightarrow> nat \<Rightarrow> nat \<Rightarrow> nat \<Rightarrow> nat \<Rightarrow> nat \<Rightarrow> int \<Rightarrow> int \<Rightarrow> go_time" where
  "go_date y mo d h mi s ns off =
     \<lparr>t_sec = civil_days (int y) mo (int d) * 86400 + int h * 3600 + int mi * 60 + int s - off, t_nsec = ns, t_off = off\<rparr>"

text \<open>\<open>parseRFC3339\<close>.\<close>

definition read_zone :: "bytes \<Rightarrow> int option" where
  "read_zone r =
     (if r = ''Z'' then Some 0
      else if length r \<noteq> 6 then None
      else do {
        hr \<leftarrow> parse_range (take 2 (drop 1 r)) 0 23;
        mm \<leftarrow> parse_range (take 2 (drop 4 r)) 0 59;
        if (r ! 0 = CHR ''-'' \<or> r ! 0 = CHR ''+'') \<and> r ! 3 = CHR '':''
        then Some ((if r ! 0 = CHR ''-'' then - 1 else 1) * int ((hr * 60 + mm) * 60)) else None
      })"

definition parse_rfc3339 :: "bytes \<Rightarrow> go_time option" where
  "parse_rfc3339 s =
     (if length s < 19 then None
      else do {
        year \<leftarrow> parse_range (take 4 s) 0 9999;
        month \<leftarrow> parse_range (take 2 (drop 5 s)) 1 12;
        day \<leftarrow> parse_range (take 2 (drop 8 s)) 1 (nat (days_in (int year) month));
        hour \<leftarrow> parse_range (take 2 (drop 11 s)) 0 23;
        minute \<leftarrow> parse_range (take 2 (drop 14 s)) 0 59;
        sec \<leftarrow> parse_range (take 2 (drop 17 s)) 0 59;
        if s ! 4 = CHR ''-'' \<and> s ! 7 = CHR ''-'' \<and> s ! 10 = CHR ''T'' \<and> s ! 13 = CHR '':'' \<and> s ! 16 = CHR '':'' then
          (case read_fraction {CHR ''.''} (drop 19 s) of (nsec, r) \<Rightarrow>
             map_option (go_date year month day hour minute sec nsec) (read_zone r))
        else None
      })"

text \<open>\<open>time.Parse\<close> with the layout \<open>2006-01-02T15:04:05Z07:00\<close>.\<close>

definition getnum :: "bool \<Rightarrow> bytes \<Rightarrow> (nat \<times> bytes) option" where
  "getnum fixed s = (case s of
     [] \<Rightarrow> None
   | c # r \<Rightarrow>
      if \<not> is_digit c then None
      else (case r of
          d # r2 \<Rightarrow> if is_digit d then Some (digits_value [c, d], r2)
                    else if fixed then None else Some (digits_value [c], r)
        | [] \<Rightarrow> if fixed then None else Some (digits_value [c], r)))"

definition skip_char :: "char \<Rightarrow> bytes \<Rightarrow> bytes option" where
  "skip_char c s = (case s of [] \<Rightarrow> None | x # r \<Rightarrow> if x = c then Some r else None)"

definition layout_zone :: "bytes \<Rightarrow> int option" where
  "layout_zone r =
     (if r = ''Z'' then Some 0
      else if length r \<noteq> 6 \<or> r ! 3 \<noteq> CHR '':'' then None
      else do {
        (hr, _) \<leftarrow> getnum True (take 2 (drop 1 r));
        (mm, _) \<leftarrow> getnum True (take 2 (drop 4 r));
        if 24 < hr \<or> 60 < mm then None
        else if r ! 0 = CHR ''+'' then Some (int ((hr * 60 + mm) * 60))
        else if r ! 0 = CHR ''-'' then Some (- int ((hr * 60 + mm) * 60))
        else None
      })"

definition parse_layout :: "bytes \<Rightarrow> go_time option" where
  "parse_layout s =
     (if length s < 4 then None
      else do {
        year \<leftarrow> parse_range (take 4 s) 0 9999;
        s1 \<leftarrow> skip_char (CHR ''-'') (drop 4 s);
        (month, s2) \<leftarrow> getnum True s1;
        s3 \<leftarrow> skip_char (CHR ''-'') s2;
        (day, s4) \<leftarrow> getnum True s3;
        s5 \<leftarrow> skip_char (CHR ''T'') s4;
        (hour, s6) \<leftarrow> getnum False s5;
        s7 \<leftarrow> skip_char (CHR '':'') s6;
        (minute, s8) \<leftarrow> getnum True s7;
        s9 \<leftarrow> skip_char (CHR '':'') s8;
        (sec, s10) \<leftarrow> getnum True s9;
        if month < 1 \<or> 12 < month \<or> 23 < hour \<or> 59 < minute \<or> 59 < sec then None
        else (case read_fraction {CHR ''.'', CHR '',''} s10 of (nsec, r) \<Rightarrow>
          if day < 1 \<or> nat (days_in (int year) month) < day then None
          else map_option (go_date year month day hour minute sec nsec) (layout_zone r))
      })"

text \<open>
  \<open>UnmarshalJSON\<close>: \<open>null\<close> changes nothing, a failed parse leaves the zero time. What a parse
  error says beyond its first words is left out.
\<close>

definition time_UnmarshalJSON :: "bytes \<Rightarrow> go_time \<Rightarrow> go_time \<times> go_error option" where
  "time_UnmarshalJSON data t =
     (if data = ''null'' then (t, None)
      else if length data < 2 \<or> hd data \<noteq> CHR 0x22 \<or> last data \<noteq> CHR 0x22 then
        (t, Some (ErrValue ''time'' ''UnmarshalJSON'' ''Time.UnmarshalJSON: input is not a JSON string''))
      else (let s = butlast (tl data) in
        case parse_rfc3339 s of
          Some t' \<Rightarrow> (t', None)
        | None \<Rightarrow> (case parse_layout s of
            Some t' \<Rightarrow> (t', None)
          | None \<Rightarrow> (time_zero, Some (ErrValue ''time'' ''ParseError'' ''parsing time'')))))"

definition jt_time :: "go_time json_type" where
  "jt_time = \<lparr>jt_enc = (\<lambda>t. marshaler_enc ''time.Time'' (time_MarshalJSON t)),
     jt_dec = (\<lambda>ctx v t. case time_UnmarshalJSON v t of
        (t', None) \<Rightarrow> (t', DecOk) | (t', Some e) \<Rightarrow> (t', DecAbort e)),
     jt_zero = time_zero\<rparr>"

lemma jt_zero_time [simp]: "jt_zero jt_time = time_zero"
  by (simp add: jt_time_def)

subsection \<open>Round trip\<close>

lemma pad_digits_length [simp]: "length (pad_digits k n) = k"
  by (induction k arbitrary: n) auto

lemma pad_digits_all [simp]: "list_all is_digit (pad_digits k n)"
  by (induction k arbitrary: n) auto

lemma digits_value_snoc: "digits_value (ds @ [c]) = 10 * digits_value ds + (of_char c - 48)"
  by (simp add: digits_value_def)

lemma digits_value_pad: "n < 10 ^ k \<Longrightarrow> digits_value (pad_digits k n) = n"
proof (induction k arbitrary: n)
  case 0
  then show ?case by (simp add: digits_value_def)
next
  case (Suc k)
  then have "n div 10 < 10 ^ k" by (simp add: less_mult_imp_div_less)
  with Suc.IH show ?case by (simp add: digits_value_snoc of_char_digit_char)
qed

lemma parse_range_pad: "n < 10 ^ k \<Longrightarrow> lo \<le> n \<Longrightarrow> n \<le> hi \<Longrightarrow> parse_range (pad_digits k n) lo hi = Some n"
  by (simp add: parse_range_def digits_value_pad)

lemma length_4_2: "length xs = 4 \<Longrightarrow> \<exists>a b c d. xs = [a, b, c, d]" "length ys = 2 \<Longrightarrow> \<exists>a b. ys = [a, b]"
  by (auto simp: eval_nat_numeral length_Suc_conv)

lemma strip_zeros_split: "\<exists>z. ds = strip_zeros ds @ replicate z (CHR ''0'')"
proof (induction ds rule: rev_induct)
  case Nil
  show ?case by (simp add: strip_zeros_def)
next
  case (snoc c ds)
  then obtain z where z: "ds = strip_zeros ds @ replicate z (CHR ''0'')" by blast
  show ?case
  proof (cases "c = CHR ''0''")
    case True
    then have "strip_zeros (ds @ [c]) = strip_zeros ds" by (simp add: strip_zeros_def)
    with z True have "ds @ [c] = strip_zeros (ds @ [c]) @ replicate (Suc z) (CHR ''0'')"
      by (metis append.assoc replicate_Suc replicate_append_same)
    then show ?thesis by blast
  next
    case False
    then have "strip_zeros (ds @ [c]) = ds @ [c]" by (simp add: strip_zeros_def)
    then show ?thesis by (intro exI [of _ 0]) simp
  qed
qed

lemma digits_value_zeros: "digits_value (ds @ replicate z (CHR ''0'')) = digits_value ds * 10 ^ z"
proof (induction z)
  case (Suc z)
  have "ds @ replicate (Suc z) (CHR ''0'') = (ds @ replicate z (CHR ''0'')) @ [CHR ''0'']"
    by (simp add: replicate_append_same)
  with Suc show ?case by (simp only: digits_value_snoc) simp
qed simp

lemma read_fraction_printed:
  assumes "0 \<le> ns" "ns < 10 ^ 9" "r = c # r'" "\<not> is_digit c" "c \<noteq> CHR ''.''"
  shows "read_fraction {CHR ''.''} (time_fraction ns @ r) = (ns, r)"
proof -
  let ?ds = "pad_digits 9 (nat ns)"
  obtain z where z: "?ds = strip_zeros ?ds @ replicate z (CHR ''0'')" using strip_zeros_split by blast
  have v: "digits_value ?ds = nat ns" using assms(1,2) by (intro digits_value_pad) (simp add: nat_less_iff)
  have len: "length (strip_zeros ?ds) = 9 - z" "z \<le> 9"
    using arg_cong [OF z, of length] by simp_all
  have val: "nat ns = digits_value (strip_zeros ?ds) * 10 ^ z"
    using v z digits_value_zeros by metis
  show ?thesis
  proof (cases "strip_zeros ?ds")
    case Nil
    with val assms show ?thesis by (simp add: time_fraction_def read_fraction_def digits_value_def)
  next
    case (Cons d ds)
    have all: "list_all is_digit (strip_zeros ?ds)"
      using pad_digits_all [of 9 "nat ns"] z by (metis list_all_append)
    with Cons have d: "is_digit d" by simp
    have tw: "takeWhile is_digit (strip_zeros ?ds @ r) = strip_zeros ?ds"
      using all assms(3,4) by (simp add: takeWhile_append list_all_iff)
    have "time_fraction ns @ r = CHR ''.'' # (strip_zeros ?ds @ r)" using Cons by (simp add: time_fraction_def)
    moreover have "int (digits_value (strip_zeros ?ds)) * 10 ^ z = ns"
      using arg_cong [OF val, of int] assms(1) by simp
    moreover have "take 9 (strip_zeros ?ds) = strip_zeros ?ds" "9 - length (strip_zeros ?ds) = z" using len by simp_all
    ultimately show ?thesis using tw d Cons by (simp add: read_fraction_def Let_def)
  qed
qed

lemma zone_head: "\<exists>c r. time_zone off = c # r \<and> \<not> is_digit c \<and> c \<noteq> CHR ''.''"
  by (auto simp: time_zone_def is_digit_def)

lemma read_zone_printed:
  assumes "60 dvd off" "\<bar>off\<bar> < 86400"
  shows "read_zone (time_zone off) = Some off"
proof (cases "off = 0")
  case True
  then show ?thesis by (simp add: time_zone_def read_zone_def)
next
  case False
  let ?z = "zone_minutes off"
  have "60 dvd \<bar>off\<bar>" "0 \<le> \<bar>off\<bar> div 60" using assms by (simp_all add: pos_imp_zdiv_nonneg_iff)
  then have z: "int ?z * 60 = \<bar>off\<bar>" by (simp add: zone_minutes_def)
  with assms(2) have lt: "?z < 1440" by linarith
  obtain a b where h: "pad_digits 2 (?z div 60) = [a, b]" using length_4_2(2) pad_digits_length by blast
  obtain c d where m: "pad_digits 2 (?z mod 60) = [c, d]" using length_4_2(2) pad_digits_length by blast
  have "parse_range [a, b] 0 23 = Some (?z div 60)" "parse_range [c, d] 0 59 = Some (?z mod 60)"
    using lt parse_range_pad [of "?z div 60" 2 0 23] parse_range_pad [of "?z mod 60" 2 0 59] h m by simp_all
  moreover have "(?z div 60 * 60 + ?z mod 60) * 60 = ?z * 60" by simp
  moreover have "0 < ?z" using z False by linarith
  ultimately show ?thesis
    using False z h m by (auto simp: time_zone_def read_zone_def)
qed

definition printable_time :: "go_time \<Rightarrow> bool" where
  "printable_time t \<longleftrightarrow> 0 \<le> t_nsec t \<and> t_nsec t < 10 ^ 9 \<and> 60 dvd t_off t \<and> \<bar>t_off t\<bar> < 86400 \<and>
     (case civil_date ((t_sec t + t_off t) div 86400) of (y, m, d) \<Rightarrow> 0 \<le> y \<and> y \<le> 9999)"

lemma civil_day_of_month:
  assumes "civil_date n = (y, m, d)"
  shows "1 \<le> nat d \<and> nat d \<le> nat (days_in y m) \<and> nat d < 100"
proof -
  have "days_in y m \<le> 31" if "1 \<le> m" "m \<le> 12" for y m
  proof -
    have "\<forall>x \<in> set (month_lengths (leap_year y)). x \<le> 31" "length (month_lengths (leap_year y)) = 12"
      by (simp_all add: month_lengths_def)
    with that show ?thesis by (simp add: days_in_def)
  qed
  with civil_date_days [OF assms] have "1 \<le> d" "d \<le> days_in y m" "days_in y m \<le> 31" by blast+
  then show ?thesis by auto
qed

lemma clock_split: "(s::nat) = s div 3600 * 3600 + s div 60 mod 60 * 60 + s mod 60"
proof -
  have "s div 60 div 60 = s div 3600" by (simp flip: div_mult2_eq)
  then have "s div 60 = s div 3600 * 60 + s div 60 mod 60" by (metis div_mult_mod_eq)
  then have "s div 60 * 60 + s mod 60 = (s div 3600 * 60 + s div 60 mod 60) * 60 + s mod 60" by simp
  then show ?thesis by (simp add: algebra_simps)
qed

lemma rfc3339_roundtrip:
  assumes "printable_time t"
  shows "\<exists>s. time_rfc3339 t = Inr s \<and> parse_rfc3339 s = Some t"
proof -
  let ?loc = "t_sec t + t_off t"
  let ?s = "nat (?loc mod 86400)"
  obtain y m d where date: "civil_date (?loc div 86400) = (y, m, d)" by (metis prod_cases3)
  with assms have y: "0 \<le> y" "y \<le> 9999" by (simp_all add: printable_time_def)
  note cd = civil_date_days [OF date] and dom = civil_day_of_month [OF date]
  from assms have z: "60 dvd t_off t" "\<bar>t_off t\<bar> < 86400" and ns: "0 \<le> t_nsec t" "t_nsec t < 10 ^ 9"
    by (simp_all add: printable_time_def)
  have zone: "zone_minutes (t_off t) div 60 < 24" using z(2) by (simp add: zone_minutes_def nat_less_iff less_mult_imp_div_less)
  have s: "?s < 86400" by (simp add: nat_less_iff)
  obtain a1 a2 a3 a4 where YY: "pad_digits 4 (nat y) = [a1, a2, a3, a4]" using length_4_2(1) pad_digits_length by blast
  have two: "\<exists>a b. pad_digits 2 k = [a, b]" for k using length_4_2(2) pad_digits_length by blast
  obtain b1 b2 where M: "pad_digits 2 m = [b1, b2]" using two by blast
  obtain c1 c2 where D: "pad_digits 2 (nat d) = [c1, c2]" using two by blast
  obtain d1 d2 where H: "pad_digits 2 (?s div 3600) = [d1, d2]" using two by blast
  obtain e1 e2 where MI: "pad_digits 2 (?s div 60 mod 60) = [e1, e2]" using two by blast
  obtain f1 f2 where S: "pad_digits 2 (?s mod 60) = [f1, f2]" using two by blast
  let ?str = "[a1, a2, a3, a4] @ ''-'' @ [b1, b2] @ ''-'' @ [c1, c2] @ ''T'' @ [d1, d2] @ '':'' @ [e1, e2] @ '':'' @ [f1, f2] @
     time_fraction (t_nsec t) @ time_zone (t_off t)"
  have printed: "time_rfc3339 t = Inr ?str"
    using date y zone by (simp add: time_rfc3339_def Let_def YY M D H MI S)
  have "parse_range [a1, a2, a3, a4] 0 9999 = Some (nat y)" using parse_range_pad [of "nat y" 4 0 9999] y YY by simp
  moreover have "parse_range [b1, b2] 1 12 = Some m" using parse_range_pad [of m 2 1 12] cd M by simp
  moreover have "parse_range [c1, c2] 1 (nat (days_in y m)) = Some (nat d)"
    using parse_range_pad [of "nat d" 2 1] dom D by simp
  moreover have "parse_range [d1, d2] 0 23 = Some (?s div 3600)"
    using parse_range_pad [of "?s div 3600" 2 0 23] s H by (simp add: less_mult_imp_div_less)
  moreover have "parse_range [e1, e2] 0 59 = Some (?s div 60 mod 60)"
    using parse_range_pad [of "?s div 60 mod 60" 2 0 59] MI by simp
  moreover have "parse_range [f1, f2] 0 59 = Some (?s mod 60)"
    using parse_range_pad [of "?s mod 60" 2 0 59] S by simp
  moreover obtain zc zr where zh: "time_zone (t_off t) = zc # zr" "\<not> is_digit zc" "zc \<noteq> CHR ''.''" using zone_head by blast
  moreover note read_fraction_printed [OF ns zh] read_zone_printed [OF z]
  moreover have "go_date (nat y) m (nat d) (?s div 3600) (?s div 60 mod 60) (?s mod 60) (t_nsec t) (t_off t) = t"
  proof -
    have "int ?s = int (?s div 3600) * 3600 + int (?s div 60 mod 60) * 60 + int (?s mod 60)"
      using arg_cong [OF clock_split [of ?s], of int] by (simp only: of_nat_add of_nat_mult of_nat_numeral)
    moreover have "?loc = ?loc div 86400 * 86400 + int ?s" by simp
    moreover have "civil_days (int (nat y)) m (int (nat d)) = ?loc div 86400" using cd y by simp
    ultimately have "civil_days (int (nat y)) m (int (nat d)) * 86400 + int (?s div 3600) * 3600 + int (?s div 60 mod 60) * 60 +
        int (?s mod 60) - t_off t = t_sec t" by linarith
    then show ?thesis by (simp add: go_date_def)
  qed
  ultimately show ?thesis using printed y by (simp add: parse_rfc3339_def)
qed

text \<open>The printed time is a JSON string without escapes, so the encoder's compaction keeps it.\<close>

definition time_char :: "char \<Rightarrow> bool" where
  "time_char c \<longleftrightarrow> is_digit c \<or> c \<in> {CHR ''-'', CHR ''T'', CHR '':'', CHR ''.'', CHR ''Z'', CHR ''+''}"

lemma time_char_plain: "time_char c \<Longrightarrow> html_safe c \<and> is_ascii c"
  by (auto simp: time_char_def html_safe_def is_ascii_def is_digit_def)

lemma quote_plain: "list_all (\<lambda>c. html_safe c \<and> is_ascii c) s \<Longrightarrow> quote_body s = s"
  by (induction s) (auto simp: quote_body.simps(2) escape_ascii_def)

lemma digits_time_chars: "list_all is_digit ds \<Longrightarrow> list_all time_char ds"
  by (auto simp: list_all_iff time_char_def)

lemma time_fraction_chars: "list_all time_char (time_fraction ns)"
proof -
  let ?ds = "pad_digits 9 (nat ns)"
  obtain z where "?ds = strip_zeros ?ds @ replicate z (CHR ''0'')" using strip_zeros_split by blast
  with pad_digits_all have "list_all is_digit (strip_zeros ?ds)" by (metis list_all_append)
  from digits_time_chars [OF this] show ?thesis by (simp add: time_fraction_def Let_def) (simp add: time_char_def)
qed

lemma time_zone_chars: "list_all time_char (time_zone off)"
  using digits_time_chars [OF pad_digits_all]
  by (simp add: time_zone_def del: pad_digits.simps) (simp add: time_char_def)

lemma rfc3339_chars: "time_rfc3339 t = Inr s \<Longrightarrow> list_all time_char s"
  using digits_time_chars [OF pad_digits_all] time_fraction_chars time_zone_chars
  by (auto simp: time_rfc3339_def Let_def split: prod.splits if_splits) (simp_all add: time_char_def)

lemma time_law: "jt_law d printable_time jt_time"
  unfolding jt_law_def
proof (intro allI impI)
  fix t assume "printable_time t"
  from rfc3339_roundtrip [OF this] obtain s where s: "time_rfc3339 t = Inr s" "parse_rfc3339 s = Some t" by blast
  have "list_all (\<lambda>c. html_safe c \<and> is_ascii c) s"
    using rfc3339_chars [OF s(1)] time_char_plain by (auto simp: list_all_iff)
  then have q: "[CHR 0x22] @ s @ [CHR 0x22] = json_quote s" by (simp add: json_quote_def quote_plain)
  have "time_MarshalJSON t = Inr (json_quote s)" using s(1) q by (simp add: time_MarshalJSON_def)
  moreover have "time_UnmarshalJSON (json_quote s) t0 = (t, None)" for t0
    using s(2) unfolding q [symmetric] by (simp add: time_UnmarshalJSON_def Let_def butlast_append)
  ultimately show "\<exists>v. jt_enc jt_time t = Inr v \<and> clean_value d v \<and> (\<forall>ctx. jt_dec jt_time ctx v (jt_zero jt_time) = (t, DecOk))"
    by (simp add: jt_time_def marshaler_enc_clean [OF clean_value_quote] clean_value_quote)
qed

end
