(* ===== verification/EnvelopeJson.thy ===== *)
theory EnvelopeJson
  imports Envelope JsonTime
begin

section \<open>Envelopes on the wire (the struct tags of envelope/envelope.go)\<close>

text \<open>
  The JSON form of an envelope as its struct tags give it, the codec of the actor's user id
  being a parameter (its type belongs to another module). An envelope whose strings are UTF-8,
  whose timestamp has a four-digit year and a zone in whole minutes and whose payload is a
  compact JSON value is decoded to itself.
\<close>

definition actor_fields :: "'uid json_type \<Rightarrow> 'uid actor json_field list" where
  "actor_fields uid =
    [field ''id'' uid actor_ID actor_ID_update,
     field ''type'' (jt_string ''envelope.ActorType'') actor_Type actor_Type_update]"

definition actor_type :: "'uid json_type \<Rightarrow> 'uid actor json_type" where
  "actor_type uid = jt_struct ''envelope'' ''Actor'' (actor_fields uid) \<lparr>actor_ID = jt_zero uid, actor_Type = []\<rparr>"

definition envelope_fields :: "'uid json_type \<Rightarrow> 'uid envelope json_field list" where
  "envelope_fields uid =
    [field ''id'' (jt_string ''string'') env_ID env_ID_update,
     field ''type'' (jt_string ''string'') env_Type env_Type_update,
     field ''version'' (jt_string ''string'') env_Version env_Version_update,
     field ''source'' (jt_string ''string'') env_Source env_Source_update,
     field ''timestamp'' jt_time env_Timestamp env_Timestamp_update,
     field ''correlation_id'' (jt_string ''string'') env_CorrelationID env_CorrelationID_update,
     field_omitempty ''causation_id'' (jt_string ''string'') env_CausationID env_CausationID_update,
     field_omitempty ''actor'' (jt_ptr (actor_type uid)) env_Actor env_Actor_update,
     field ''payload'' jt_raw env_Payload env_Payload_update]"

definition envelope_zero :: "'uid envelope" where
  "envelope_zero = \<lparr>env_ID = [], env_Type = [], env_Version = [], env_Source = [], env_Timestamp = time_zero,
     env_CorrelationID = [], env_CausationID = [], env_Actor = None, env_Payload = None\<rparr>"

definition envelope_type :: "'uid json_type \<Rightarrow> 'uid envelope json_type" where
  "envelope_type uid = jt_struct ''envelope'' ''Envelope'' (envelope_fields uid) envelope_zero"

text \<open>What the producer and the consumer do with an envelope.\<close>

definition marshal_envelope :: "'uid json_type \<Rightarrow> 'uid envelope \<Rightarrow> go_error + bytes" where
  "marshal_envelope uid env = json_Marshal (envelope_type uid) env"

definition unmarshal_envelope :: "'uid json_type \<Rightarrow> bytes \<Rightarrow> go_error + 'uid envelope" where
  "unmarshal_envelope uid data = (case json_Unmarshal (envelope_type uid) data envelope_zero of
     (Some e, _) \<Rightarrow> Inl e | (None, env) \<Rightarrow> Inr env)"

subsection \<open>Round trip\<close>

definition actor_wire :: "('uid \<Rightarrow> bool) \<Rightarrow> 'uid actor \<Rightarrow> bool" where
  "actor_wire P a \<longleftrightarrow> P (actor_ID a) \<and> valid_utf8 (actor_Type a)"

definition envelope_wire :: "nat \<Rightarrow> ('uid \<Rightarrow> bool) \<Rightarrow> 'uid envelope \<Rightarrow> bool" where
  "envelope_wire d P e \<longleftrightarrow> list_all valid_utf8 [env_ID e, env_Type e, env_Version e, env_Source e, env_CorrelationID e,
      env_CausationID e] \<and> printable_time (env_Timestamp e) \<and>
     (case env_Actor e of None \<Rightarrow> True | Some a \<Rightarrow> actor_wire P a) \<and> clean_raw (Suc d) (env_Payload e)"

lemma actor_law:
  assumes "jt_law d P uid" "Suc d \<le> maxNestingDepth"
  shows "jt_law (Suc d) (actor_wire P) (actor_type uid)"
  unfolding actor_type_def
proof (rule struct_law)
  fix a assume "actor_wire P a"
  then have a: "P (actor_ID a)" "valid_utf8 (actor_Type a)" by (simp_all add: actor_wire_def)
  note l = law_atI [OF assms(1) a(1)] law_atI [OF string_law a(2)]
  show "fields_law d ''Actor'' (actor_fields uid) \<lparr>actor_ID = jt_zero uid, actor_Type = []\<rparr> a"
    unfolding actor_fields_def by (rule fields_lawI, (rule fields_ok_rules l | simp add: is_ascii_def)+)
qed (rule assms(2))

lemma envelope_law:
  assumes "jt_law d P uid" "Suc (Suc d) \<le> maxNestingDepth"
  shows "jt_law (Suc (Suc d)) (envelope_wire d P) (envelope_type uid)"
  unfolding envelope_type_def
proof (rule struct_law)
  fix e assume "envelope_wire d P e"
  then have w: "valid_utf8 (env_ID e)" "valid_utf8 (env_Type e)" "valid_utf8 (env_Version e)" "valid_utf8 (env_Source e)"
    "valid_utf8 (env_CorrelationID e)" "valid_utf8 (env_CausationID e)" "printable_time (env_Timestamp e)"
    "case env_Actor e of None \<Rightarrow> True | Some a \<Rightarrow> actor_wire P a" "clean_raw (Suc d) (env_Payload e)"
    by (simp_all add: envelope_wire_def)
  have actor: "jt_law (Suc d) (\<lambda>p. case p of None \<Rightarrow> True | Some a \<Rightarrow> actor_wire P a) (jt_ptr (actor_type uid))"
  proof (rule ptr_law)
    show "jt_law (Suc d) (actor_wire P) (actor_type uid)" using assms by (intro actor_law) simp_all
  qed (simp add: actor_type_def struct_nonnull)
  note l = law_atI [OF string_law w(1)] law_atI [OF string_law w(2)] law_atI [OF string_law w(3)]
    law_atI [OF string_law w(4)] law_atI [OF string_law w(5)] law_atI [OF string_law w(6)] law_atI [OF time_law w(7)]
    law_atI [OF actor w(8)] law_atI [OF raw_law w(9)]
  show "fields_law (Suc d) ''Envelope'' (envelope_fields uid) envelope_zero e"
    unfolding envelope_fields_def envelope_zero_def
    by (rule fields_lawI, (rule fields_ok_rules l | simp add: is_ascii_def)+)
qed (rule assms(2))

theorem envelope_roundtrip:
  assumes "jt_law d P uid" "Suc (Suc d) \<le> maxNestingDepth" "envelope_wire d P e"
  shows "\<exists>v. marshal_envelope uid e = Inr v \<and> json_valid v \<and> unmarshal_envelope uid v = Inr e"
proof -
  have z: "jt_zero (envelope_type uid) = envelope_zero" by (simp add: envelope_type_def)
  from Unmarshal_Marshal [OF envelope_law [OF assms(1,2)] assms(3)] clean_value_valid show ?thesis
    by (auto simp: marshal_envelope_def unmarshal_envelope_def z)
qed

subsection \<open>A sample codec of user ids\<close>

text \<open>A user id that is a number, printed in quotes: an instance of the parameter for the examples.\<close>

definition sample_uid :: "nat json_type" where
  "sample_uid = \<lparr>jt_enc = (\<lambda>n. Inr (json_quote (nat_digits n))),
     jt_dec = (\<lambda>ctx v n. case token_string v of
        Some s \<Rightarrow> (case parse_nat s of Some m \<Rightarrow> (m, DecOk) | None \<Rightarrow> (n, DecAbort (ErrValue ''ids'' ''ErrInvalid'' ''invalid id'')))
      | None \<Rightarrow> (n, DecAbort (ErrValue ''ids'' ''ErrInvalid'' ''invalid id''))),
     jt_zero = 0\<rparr>"

lemma valid_utf8_digits: "list_all is_digit s \<Longrightarrow> valid_utf8 s"
  by (induction s) (auto simp: is_ascii_def is_digit_def)

lemma sample_uid_law: "jt_law d (\<lambda>_. True) sample_uid"
  by (simp add: jt_law_def sample_uid_def clean_value_quote token_string_quote valid_utf8_digits nat_digits_all parse_nat_digits)

lemma clean_empty_object: "clean_value (Suc d) ''{}''"
  by (simp add: clean_value_def sep_at_def kept_def html_char_def json_space_def begin_value_def push_state_def
      maxNestingDepth_def end_value_def pop_state_def value_end_def)

lemma printable_time_zero: "printable_time time_zero"
  by (simp add: printable_time_def time_zero_def civil_date_def civil_year_def Let_def month_lengths_def leap_year_def)

lemma sample_envelope_wire: "envelope_wire d (\<lambda>_. True) sample_envelope"
proof -
  have "printable_time \<lparr>t_sec = 63900000000, t_nsec = 0, t_off = 0\<rparr>"
    by (simp add: printable_time_def civil_date_def civil_year_def Let_def month_lengths_def leap_year_def)
  then show ?thesis
    by (simp add: envelope_wire_def sample_envelope_def clean_raw_def clean_empty_object is_ascii_def)
qed

lemma sample_envelope_json:
  "\<exists>v. marshal_envelope sample_uid sample_envelope = Inr v \<and> unmarshal_envelope sample_uid v = Inr sample_envelope"
  using envelope_roundtrip [OF sample_uid_law [of 0] _ sample_envelope_wire] by (auto simp: maxNestingDepth_def)

end
