(* ===== verification/DlqMessage.thy ===== *)
theory DlqMessage
  imports EnvelopeJson
begin

section \<open>Dead letter messages (dlq/message.go)\<close>

text \<open>
  A dead letter wraps the envelope of a failed event with where it came from and how it failed.
  The package's JSON methods encode the struct without its methods (the alias) by its tags; the
  encoder and the decoder call these methods in turn. A letter that can be printed is decoded to
  itself.
\<close>

record 'uid dlq_message =
  dm_OriginalTopic :: string
  dm_OriginalPartition :: int32
  dm_OriginalOffset :: int64
  dm_ErrorMessage :: string
  dm_AttemptCount :: int64
  dm_FirstFailure :: go_time
  dm_LastFailure :: go_time
  dm_Envelope :: "'uid envelope option"

text \<open>The text of an error, empty for nil: the guard that \<open>NewMessage\<close> and \<open>Handle\<close> share.\<close>

definition error_message :: "go_error option \<Rightarrow> string" where
  "error_message err = (case err of None \<Rightarrow> [] | Some e \<Rightarrow> error_text e)"

text \<open>The first argument is what \<open>time.Now\<close> returns.\<close>

definition dlq_NewMessage ::
  "go_time \<Rightarrow> string \<Rightarrow> int32 \<Rightarrow> int64 \<Rightarrow> 'uid envelope option \<Rightarrow> go_error option \<Rightarrow> int64 \<Rightarrow> 'uid dlq_message" where
  "dlq_NewMessage tnow originalTopic originalPartition originalOffset env err attemptCount =
     (let now = time_UTC tnow in
      \<lparr>dm_OriginalTopic = originalTopic, dm_OriginalPartition = originalPartition,
       dm_OriginalOffset = originalOffset, dm_ErrorMessage = error_message err,
       dm_AttemptCount = attemptCount, dm_FirstFailure = now, dm_LastFailure = now,
       dm_Envelope = env\<rparr>)"

definition dlq_fields :: "'uid json_type \<Rightarrow> 'uid dlq_message json_field list" where
  "dlq_fields uid =
    [field ''original_topic'' (jt_string ''string'') dm_OriginalTopic dm_OriginalTopic_update,
     field ''original_partition'' (jt_int ''int32'') dm_OriginalPartition dm_OriginalPartition_update,
     field ''original_offset'' (jt_int ''int64'') dm_OriginalOffset dm_OriginalOffset_update,
     field ''error_message'' (jt_string ''string'') dm_ErrorMessage dm_ErrorMessage_update,
     field ''attempt_count'' (jt_int ''int'') dm_AttemptCount dm_AttemptCount_update,
     field ''first_failure'' jt_time dm_FirstFailure dm_FirstFailure_update,
     field ''last_failure'' jt_time dm_LastFailure dm_LastFailure_update,
     field ''envelope'' (jt_ptr (envelope_type uid)) dm_Envelope dm_Envelope_update]"

definition dlq_zero :: "'uid dlq_message" where
  "dlq_zero = \<lparr>dm_OriginalTopic = [], dm_OriginalPartition = 0, dm_OriginalOffset = 0, dm_ErrorMessage = [],
     dm_AttemptCount = 0, dm_FirstFailure = time_zero, dm_LastFailure = time_zero, dm_Envelope = None\<rparr>"

definition dlq_alias_type :: "'uid json_type \<Rightarrow> 'uid dlq_message json_type" where
  "dlq_alias_type uid = jt_struct ''dlq'' ''alias'' (dlq_fields uid) dlq_zero"

definition dlq_MarshalJSON :: "'uid json_type \<Rightarrow> 'uid dlq_message \<Rightarrow> go_error + bytes" where
  "dlq_MarshalJSON uid m = (case json_Marshal (dlq_alias_type uid) m of
     Inl err \<Rightarrow> Inl (errorf_ctx ''failed to marshal DLQ message'' err)
   | Inr data \<Rightarrow> Inr data)"

text \<open>The alias decoder fills in the given message; it may fail after having filled a part of it.\<close>

definition dlq_UnmarshalJSON ::
  "'uid json_type \<Rightarrow> bytes \<Rightarrow> 'uid dlq_message \<Rightarrow> go_error option \<times> 'uid dlq_message" where
  "dlq_UnmarshalJSON uid data m = (case json_Unmarshal (dlq_alias_type uid) data m of
     (Some err, m') \<Rightarrow> (Some (errorf_ctx ''failed to unmarshal DLQ message'' err), m')
   | (None, m') \<Rightarrow> (None, m'))"

text \<open>
  \<open>json.Marshal\<close> and \<open>json.Unmarshal\<close> of a message: the encoder calls \<open>MarshalJSON\<close>, wraps its
  error and compacts its result; the decoder first checks the syntax of the whole input and then
  calls \<open>UnmarshalJSON\<close> with the text of the value, on the zero message.
\<close>

definition json_Marshal_dlq :: "'uid json_type \<Rightarrow> 'uid dlq_message \<Rightarrow> go_error + bytes" where
  "json_Marshal_dlq uid m = marshaler_enc ''*dlq.Message'' (dlq_MarshalJSON uid m)"

definition json_Unmarshal_dlq :: "'uid json_type \<Rightarrow> bytes \<Rightarrow> go_error + 'uid dlq_message" where
  "json_Unmarshal_dlq uid data =
     (if \<not> json_valid data then Inl json_syntax_error
      else (case dlq_UnmarshalJSON uid (fst (next_value data)) dlq_zero of
          (Some err, _) \<Rightarrow> Inl err
        | (None, m) \<Rightarrow> Inr m))"

lemma error_message_simps [simp]: "error_message None = []" "error_message (Some e) = error_text e"
  by (simp_all add: error_message_def)

lemma dlq_NewMessage_simps [simp]:
  "dm_OriginalTopic (dlq_NewMessage now t p off env err n) = t"
  "dm_OriginalPartition (dlq_NewMessage now t p off env err n) = p"
  "dm_OriginalOffset (dlq_NewMessage now t p off env err n) = off"
  "dm_ErrorMessage (dlq_NewMessage now t p off env err n) = error_message err"
  "dm_AttemptCount (dlq_NewMessage now t p off env err n) = n"
  "dm_FirstFailure (dlq_NewMessage now t p off env err n) = time_UTC now"
  "dm_LastFailure (dlq_NewMessage now t p off env err n) = time_UTC now"
  "dm_Envelope (dlq_NewMessage now t p off env err n) = env"
  by (simp_all add: dlq_NewMessage_def Let_def)

subsection \<open>Round trip\<close>

definition dlq_wire :: "nat \<Rightarrow> ('uid \<Rightarrow> bool) \<Rightarrow> 'uid dlq_message \<Rightarrow> bool" where
  "dlq_wire d P m \<longleftrightarrow> valid_utf8 (dm_OriginalTopic m) \<and> valid_utf8 (dm_ErrorMessage m) \<and>
     printable_time (dm_FirstFailure m) \<and> printable_time (dm_LastFailure m) \<and>
     (case dm_Envelope m of None \<Rightarrow> True | Some e \<Rightarrow> envelope_wire d P e)"

lemma dlq_law:
  assumes "jt_law d P uid" "Suc (Suc (Suc d)) \<le> maxNestingDepth"
  shows "jt_law (Suc (Suc (Suc d))) (dlq_wire d P) (dlq_alias_type uid)"
  unfolding dlq_alias_type_def
proof (rule struct_law)
  fix m assume "dlq_wire d P m"
  then have w: "valid_utf8 (dm_OriginalTopic m)" "valid_utf8 (dm_ErrorMessage m)" "printable_time (dm_FirstFailure m)"
    "printable_time (dm_LastFailure m)" "case dm_Envelope m of None \<Rightarrow> True | Some e \<Rightarrow> envelope_wire d P e"
    by (simp_all add: dlq_wire_def)
  have env: "jt_law (Suc (Suc d)) (\<lambda>p. case p of None \<Rightarrow> True | Some e \<Rightarrow> envelope_wire d P e) (jt_ptr (envelope_type uid))"
  proof (rule ptr_law)
    show "jt_law (Suc (Suc d)) (envelope_wire d P) (envelope_type uid)" using assms by (intro envelope_law) simp_all
  qed (simp add: envelope_type_def struct_nonnull)
  note l = law_atI [OF string_law w(1)] law_atI [OF string_law w(2)] law_atI [OF time_law w(3)] law_atI [OF time_law w(4)]
    law_atI [OF env w(5)] law_atI [OF int_law TrueI]
  show "fields_law (Suc (Suc d)) ''alias'' (dlq_fields uid) dlq_zero m"
    unfolding dlq_fields_def dlq_zero_def
    by (rule fields_lawI, (rule fields_ok_rules l | simp add: is_ascii_def)+)
qed (rule assms(2))

lemma dlq_message_roundtrip:
  assumes "jt_law d P uid" "Suc (Suc (Suc d)) \<le> maxNestingDepth" "dlq_wire d P m"
  shows "\<exists>data. json_Marshal_dlq uid m = Inr data \<and> json_Unmarshal_dlq uid data = Inr m"
proof -
  have z: "jt_zero (dlq_alias_type uid) = dlq_zero" by (simp add: dlq_alias_type_def)
  from Unmarshal_Marshal [OF dlq_law [OF assms(1,2)] assms(3)] obtain v where
    v: "json_Marshal (dlq_alias_type uid) m = Inr v" "clean_value (Suc (Suc (Suc d))) v"
    "json_Unmarshal (dlq_alias_type uid) v dlq_zero = (None, m)" unfolding z by blast
  have "json_Marshal_dlq uid m = Inr v"
    by (simp add: json_Marshal_dlq_def dlq_MarshalJSON_def v(1) marshaler_enc_clean [OF v(2)])
  moreover have "json_Unmarshal_dlq uid v = Inr m"
    by (simp add: json_Unmarshal_dlq_def dlq_UnmarshalJSON_def v(3) next_value_only [OF v(2)] clean_value_valid [OF v(2)])
  ultimately show ?thesis by blast
qed

end
