(* ===== verification/DlqHandler.thy ===== *)
theory DlqHandler
  imports DlqMessage Producer
begin

section \<open>The dead letter handler (dlq/handler.go)\<close>

text \<open>
  The handler hands one message per failed event to a synchronous Kafka producer, the interface
  of theory \<open>Producer\<close>; the codec of user ids is an argument. Its state is that of the Kafka producer and the trace of what it did.
\<close>

definition dlq_ErrNilEnvelope :: go_error where
  [go_err]: "dlq_ErrNilEnvelope = ErrValue ''dlq'' ''ErrNilEnvelope'' ''envelope cannot be nil''"

record 'k dlq_handler =
  dh_sync :: "'k sync_producer"
  dh_client :: 'k
  dh_trace :: "producer_action list"

definition NewHandler :: "'k sync_producer \<Rightarrow> 'k \<Rightarrow> 'k dlq_handler" where
  "NewHandler sync k = \<lparr>dh_sync = sync, dh_client = k, dh_trace = []\<rparr>"

definition dlq_emit :: "producer_action \<Rightarrow> 'k dlq_handler \<Rightarrow> 'k dlq_handler" where
  "dlq_emit a h = h\<lparr>dh_trace := dh_trace h @ [a]\<rparr>"

text \<open>The message handed to Kafka.\<close>

definition dlq_producer_message ::
  "string \<Rightarrow> 'uid envelope \<Rightarrow> go_error option \<Rightarrow> bytes \<Rightarrow> producer_message" where
  "dlq_producer_message originalTopic env processingErr data =
     \<lparr>pm_Topic = Topic_String (Topic_DLQ originalTopic), pm_Key = env_ID env, pm_Value = data,
      pm_Headers = [(''original_topic'', originalTopic), (''event_type'', env_Type env),
                    (''event_id'', env_ID env), (''error_message'', error_message processingErr)]\<rparr>"

definition dlq_Handle ::
  "'uid json_type \<Rightarrow> go_time \<Rightarrow> string \<Rightarrow> int32 \<Rightarrow> int64 \<Rightarrow> 'uid envelope option \<Rightarrow>
   go_error option \<Rightarrow> int64 \<Rightarrow> 'k dlq_handler \<Rightarrow> 'k dlq_handler \<times> go_error option" where
  "dlq_Handle uid tnow originalTopic originalPartition originalOffset envp processingErr attemptCount h =
     (case envp of
        None \<Rightarrow> (h, Some dlq_ErrNilEnvelope)
      | Some env \<Rightarrow>
         (let dlqMsg = dlq_NewMessage tnow originalTopic originalPartition originalOffset envp processingErr attemptCount
          in case json_Marshal_dlq uid dlqMsg of
               Inl err \<Rightarrow> (h, Some (errorf_ctx ''failed to marshal DLQ message'' err))
             | Inr data \<Rightarrow>
                (let dlqTopic = Topic_DLQ originalTopic;
                     msg = dlq_producer_message originalTopic env processingErr data
                 in case SendMessage (dh_sync h) msg (dh_client h) of
                      (Inl err, k') \<Rightarrow>
                        (dlq_emit (PLog LError ''failed to send message to DLQ''
                            [(''dlq_topic'', Topic_String dlqTopic), (''event_type'', env_Type env),
                             (''event_id'', env_ID env), (''error'', error_text err)])
                           (dlq_emit (PSend msg (Some err)) (h\<lparr>dh_client := k'\<rparr>)),
                         Some (errorf_ctx ''failed to send to DLQ'' err))
                    | (Inr (part, offset), k') \<Rightarrow>
                        (dlq_emit (PLog LInfo ''sent message to DLQ''
                            [(''dlq_topic'', Topic_String dlqTopic), (''partition'', itoa (sint part)),
                             (''offset'', itoa (sint offset)), (''event_type'', env_Type env),
                             (''event_id'', env_ID env), (''original_topic'', originalTopic),
                             (''attempt_count'', itoa (sint attemptCount))])
                           (dlq_emit (PSend msg None) (h\<lparr>dh_client := k'\<rparr>)), None))))"

text \<open>
  The callback for a consumer. It logs the identifier of the envelope when \<open>Handle\<close> fails;
  with a nil envelope that reads through a nil pointer, a panic (\<open>Some\<close> its text).
\<close>

definition CreateConsumerDLQHandler ::
  "'uid json_type \<Rightarrow> go_time \<Rightarrow> string \<Rightarrow> int32 \<Rightarrow> int64 \<Rightarrow> int64 \<Rightarrow>
   'uid envelope option \<Rightarrow> go_error option \<Rightarrow> 'k dlq_handler \<Rightarrow> string option \<times> 'k dlq_handler" where
  "CreateConsumerDLQHandler uid tnow originalTopic originalPartition originalOffset attemptCount envp err h =
     (case dlq_Handle uid tnow originalTopic originalPartition originalOffset envp err attemptCount h of
        (h', None) \<Rightarrow> (None, h')
      | (h', Some sendErr) \<Rightarrow>
         (case envp of
            None \<Rightarrow> (Some ''invalid memory address or nil pointer dereference'', h')
          | Some env \<Rightarrow> (None, dlq_emit (PLog LError ''failed to handle DLQ''
              [(''event_id'', env_ID env), (''error'', error_text sendErr)]) h')))"

subsection \<open>Lemmas\<close>

lemma dlq_emit_simps [simp]:
  "dh_trace (dlq_emit a h) = dh_trace h @ [a]" "dh_client (dlq_emit a h) = dh_client h"
  "dh_sync (dlq_emit a h) = dh_sync h"
  by (simp_all add: dlq_emit_def)

text \<open>What the Kafka producer answers to a message.\<close>

definition dlq_send_error :: "'k dlq_handler \<Rightarrow> producer_message \<Rightarrow> go_error option" where
  "dlq_send_error h m = (case fst (SendMessage (dh_sync h) m (dh_client h)) of Inl e \<Rightarrow> Some e | Inr _ \<Rightarrow> None)"

lemma dlq_Handle_sends:
  assumes "json_Marshal_dlq uid (dlq_NewMessage now t p off (Some env) err n) = Inr data"
    and "dlq_Handle uid now t p off (Some env) err n h = (h', r)"
  shows "sends (dh_trace h') = sends (dh_trace h) @
      [(dlq_producer_message t env err data, dlq_send_error h (dlq_producer_message t env err data))] \<and>
    r = map_option (errorf_ctx ''failed to send to DLQ'') (dlq_send_error h (dlq_producer_message t env err data)) \<and>
    dh_sync h' = dh_sync h"
proof -
  obtain res k' where "SendMessage (dh_sync h) (dlq_producer_message t env err data) (dh_client h) = (res, k')"
    by fastforce
  with assms show ?thesis
    by (cases res) (auto simp: dlq_Handle_def dlq_send_error_def Let_def)
qed

lemma dlq_Handle_marshal_error:
  assumes "json_Marshal_dlq uid (dlq_NewMessage now t p off (Some env) err n) = Inl e"
  shows "\<exists>e'. dlq_Handle uid now t p off (Some env) err n h = (h, Some e') \<and> errors_is e' e"
  using assms by (simp add: dlq_Handle_def Let_def)

lemma dlq_Handle_nil [simp]: "dlq_Handle f now t p off None err n h = (h, Some dlq_ErrNilEnvelope)"
  by (simp add: dlq_Handle_def)

subsection \<open>Properties\<close>

text \<open>
  C12: For a non-nil envelope whose dead letter can be encoded, \<open>Handle\<close> hands exactly one
  message to Kafka: to the dead letter topic of the original topic (never a regular topic),
  keyed by the event's id, with the encoding of a dead letter that records the original topic,
  partition, offset, attempt count, error text and the unchanged envelope, and whose two times
  are the same moment in UTC. It returns nil exactly if Kafka accepted the message. With a nil
  envelope or one that cannot be encoded nothing is sent and the error says so.
\<close>

theorem Handle_sends_dead_letter:
  "case dlq_Handle uid now t p off envp err n h of (h', r) \<Rightarrow>
     (case envp of
        None \<Rightarrow> h' = h \<and> r = Some dlq_ErrNilEnvelope
      | Some env \<Rightarrow>
         (\<exists>m. dm_Envelope m = Some env \<and> dm_OriginalTopic m = t \<and> dm_OriginalPartition m = p \<and>
            dm_OriginalOffset m = off \<and> dm_AttemptCount m = n \<and> dm_ErrorMessage m = error_message err \<and>
            dm_FirstFailure m = dm_LastFailure m \<and> t_off (dm_FirstFailure m) = 0 \<and>
            (case json_Marshal_dlq uid m of
               Inl e \<Rightarrow> h' = h \<and> (\<exists>e'. r = Some e' \<and> errors_is e' e)
             | Inr data \<Rightarrow>
                (\<exists>msg res. sends (dh_trace h') = sends (dh_trace h) @ [(msg, res)] \<and>
                   r = map_option (errorf_ctx ''failed to send to DLQ'') res \<and>
                   pm_Topic msg = Topic_DLQ t \<and> \<not> Topic_Valid (pm_Topic msg) \<and> pm_Key msg = env_ID env \<and>
                   pm_Value msg = data \<and> (''error_message'', error_message err) \<in> set (pm_Headers msg)))))"
proof -
  obtain h' r where run: "dlq_Handle uid now t p off envp err n h = (h', r)" by fastforce
  show ?thesis
  proof (cases envp)
    case None
    with run show ?thesis by simp
  next
    case (Some env)
    let ?m = "dlq_NewMessage now t p off (Some env) err n"
    have "case json_Marshal_dlq uid ?m of
               Inl e \<Rightarrow> h' = h \<and> (\<exists>e'. r = Some e' \<and> errors_is e' e)
             | Inr data \<Rightarrow>
                (\<exists>msg res. sends (dh_trace h') = sends (dh_trace h) @ [(msg, res)] \<and>
                   r = map_option (errorf_ctx ''failed to send to DLQ'') res \<and>
                   pm_Topic msg = Topic_DLQ t \<and> \<not> Topic_Valid (pm_Topic msg) \<and> pm_Key msg = env_ID env \<and>
                   pm_Value msg = data \<and> (''error_message'', error_message err) \<in> set (pm_Headers msg))"
    proof (cases "json_Marshal_dlq uid ?m")
      case (Inl e)
      from dlq_Handle_marshal_error [where h = h and uid = uid, OF Inl] run Some Inl show ?thesis by auto
    next
      case (Inr data)
      from dlq_Handle_sends [where uid = uid, OF Inr run [unfolded Some]] show ?thesis
        using Topic_DLQ_not_Valid [of t]
        by (auto simp: Inr dlq_producer_message_def Topic_String_def
            intro!: exI [of _ "dlq_producer_message t env err data"])
    qed
    then show ?thesis unfolding run prod.case unfolding Some option.case by (intro exI [of _ ?m]) simp
  qed
qed

text \<open>
  The consumer callback made by \<open>CreateConsumerDLQHandler\<close> panics exactly when it is
  called with a nil envelope; with an envelope it always returns, also when the dead letter
  could not be encoded or Kafka refused it: that failure is visible in the log only.
\<close>

theorem ConsumerDLQHandler_panics_iff_nil:
  "case CreateConsumerDLQHandler uid now t p off n envp err h of (panic, h') \<Rightarrow>
     (panic = None \<longleftrightarrow> envp \<noteq> None) \<and>
     (case envp of
        None \<Rightarrow> h' = h
      | Some env \<Rightarrow>
         (case dlq_Handle uid now t p off envp err n h of
            (h1, None) \<Rightarrow> h' = h1
          | (h1, Some e) \<Rightarrow> dh_trace h' = dh_trace h1 @ [PLog LError ''failed to handle DLQ''
              [(''event_id'', env_ID env), (''error'', error_text e)]] \<and> sends (dh_trace h') = sends (dh_trace h1)))"
  by (cases envp) (auto simp: CreateConsumerDLQHandler_def split: option.splits prod.splits)

end
