(* ===== verification/Replayer.thy ===== *)
theory Replayer
  imports DlqMessage Consumer
begin

section \<open>Replaying dead letters (dlq/replayer.go)\<close>

text \<open>
  A replayer consumes dead letters, decodes them, filters them and hands their envelopes to the
  caller's handler, counting outcomes. Handler and filter are the caller's code: functions over
  the world \<open>'w\<close>; both get a pointer to the decoded message (whose envelope pointer is the
  envelope the handler gets), so they may change it, and both may panic. The counters are 64-bit
  words. What happens to the outside is recorded in a trace.
\<close>

definition dlq_ErrNilReplayHandler :: go_error where
  [go_err]: "dlq_ErrNilReplayHandler = ErrValue ''dlq'' ''ErrNilReplayHandler'' ''replay handler cannot be nil''"

definition dlq_ErrNilConsumerGroup :: go_error where
  [go_err]: "dlq_ErrNilConsumerGroup = ErrValue ''dlq'' ''ErrNilConsumerGroup'' ''consumer group is required''"

definition dlq_ErrEmptyDLQTopic :: go_error where
  [go_err]: "dlq_ErrEmptyDLQTopic = ErrValue ''dlq'' ''ErrEmptyDLQTopic'' ''dlq topic is required''"

definition dlq_ErrReplayerClosed :: go_error where
  [go_err]: "dlq_ErrReplayerClosed = ErrValue ''dlq'' ''ErrReplayerClosed'' ''replayer is closed''"

subsection \<open>Counters\<close>

datatype replay_stats = ReplayStats (Consumed: int64) (Replayed: int64) (Skipped: int64) (Failed: int64)

text \<open>Counters add up component by component; they form a commutative monoid.\<close>

instantiation replay_stats :: comm_monoid_add
begin

definition zero_replay_stats :: replay_stats where
  "zero_replay_stats = ReplayStats 0 0 0 0"

definition plus_replay_stats :: "replay_stats \<Rightarrow> replay_stats \<Rightarrow> replay_stats" where
  "plus_replay_stats a b = ReplayStats (Consumed a + Consumed b) (Replayed a + Replayed b)
     (Skipped a + Skipped b) (Failed a + Failed b)"

instance
proof
  fix a b c :: replay_stats
  show "a + b + c = a + (b + c)" by (simp add: plus_replay_stats_def algebra_simps)
  show "a + b = b + a" by (simp add: plus_replay_stats_def algebra_simps)
  show "0 + a = a" by (simp add: plus_replay_stats_def zero_replay_stats_def)
qed

end

subsection \<open>State\<close>

type_synonym ('uid, 'w) replay_handler =
  "'uid dlq_message \<Rightarrow> 'w \<Rightarrow> outcome \<times> 'uid dlq_message \<times> 'w"

text \<open>A filter answers, or panics (\<open>Inl\<close> the panic's text).\<close>

type_synonym ('uid, 'w) replay_filter =
  "'uid dlq_message \<Rightarrow> 'w \<Rightarrow> (string + bool) \<times> 'uid dlq_message \<times> 'w"

datatype 'uid replay_action =
    RLog log_level string
  | RInvoke "'uid dlq_message" outcome
  | RMark consumer_message

record ('uid, 'w, 'g) replayer =
  rep_consumerGroup :: 'g
  rep_topic :: string
  rep_handler :: "('uid, 'w) replay_handler"

record ('uid, 'w) replay_session =
  rs_world :: 'w
  rs_stats :: replay_stats
  rs_trace :: "'uid replay_action list"

definition remit :: "'uid replay_action \<Rightarrow> ('uid, 'w) replay_session \<Rightarrow> ('uid, 'w) replay_session" where
  "remit a s = s\<lparr>rs_trace := rs_trace s @ [a]\<rparr>"

definition incrementConsumed :: "('uid, 'w) replay_session \<Rightarrow> ('uid, 'w) replay_session" where
  "incrementConsumed s = s\<lparr>rs_stats := (case rs_stats s of ReplayStats c r k f \<Rightarrow> ReplayStats (c + 1) r k f)\<rparr>"

definition incrementReplayed :: "('uid, 'w) replay_session \<Rightarrow> ('uid, 'w) replay_session" where
  "incrementReplayed s = s\<lparr>rs_stats := (case rs_stats s of ReplayStats c r k f \<Rightarrow> ReplayStats c (r + 1) k f)\<rparr>"

definition incrementSkipped :: "('uid, 'w) replay_session \<Rightarrow> ('uid, 'w) replay_session" where
  "incrementSkipped s = s\<lparr>rs_stats := (case rs_stats s of ReplayStats c r k f \<Rightarrow> ReplayStats c r (k + 1) f)\<rparr>"

definition incrementFailed :: "('uid, 'w) replay_session \<Rightarrow> ('uid, 'w) replay_session" where
  "incrementFailed s = s\<lparr>rs_stats := (case rs_stats s of ReplayStats c r k f \<Rightarrow> ReplayStats c r k (f + 1))\<rparr>"

definition replay_MarkMessage :: "consumer_message \<Rightarrow> ('uid, 'w) replay_session \<Rightarrow> ('uid, 'w) replay_session" where
  "replay_MarkMessage m s = remit (RMark m) s"

definition Stats :: "('uid, 'w) replay_session \<Rightarrow> replay_stats" where
  "Stats s = rs_stats s"

subsection \<open>Construction\<close>

definition dlq_toSaramaConfig ::
  "'a sarama_consumer_config_scheme \<Rightarrow> int \<Rightarrow> int \<Rightarrow> consumer_config \<Rightarrow> 'a sarama_consumer_config_scheme" where
  "dlq_toSaramaConfig NewConfig OffsetNewest OffsetOldest cfg =
     NewConfig\<lparr>sc_Session_Timeout := cc_SessionTimeout cfg,
       sc_Heartbeat_Interval := cc_HeartbeatInterval cfg,
       sc_MaxProcessingTime := cc_ProcessingTimeout cfg,
       sc_Offsets_Initial := (if cc_OffsetReset cfg = OffsetResetLatest then OffsetNewest else OffsetOldest),
       sc_AutoCommit_Enable := cc_EnableAutoCommit cfg,
       sc_Return_Errors := True\<rparr>"

definition NewReplayerWithConsumerGroup ::
  "'g option \<Rightarrow> string \<Rightarrow> ('uid, 'w) replay_handler option \<Rightarrow> go_error + ('uid, 'w, 'g) replayer" where
  "NewReplayerWithConsumerGroup gp dlqTopic hp =
     (case gp of
        None \<Rightarrow> Inl dlq_ErrNilConsumerGroup
      | Some g \<Rightarrow>
         if dlqTopic = [] then Inl dlq_ErrEmptyDLQTopic
         else (case hp of
            None \<Rightarrow> Inl dlq_ErrNilReplayHandler
          | Some h \<Rightarrow> Inr \<lparr>rep_consumerGroup = g, rep_topic = dlqTopic, rep_handler = h\<rparr>))"

definition NewReplayer ::
  "(string list \<Rightarrow> string \<Rightarrow> 'a sarama_consumer_config_scheme \<Rightarrow> go_error + 'g) \<Rightarrow>
   'a sarama_consumer_config_scheme \<Rightarrow> int \<Rightarrow> int \<Rightarrow>
   consumer_config option \<Rightarrow> string \<Rightarrow> ('uid, 'w) replay_handler option \<Rightarrow>
   go_error + ('uid, 'w, 'g) replayer" where
  "NewReplayer NewConsumerGroup NewConfig OffsetNewest OffsetOldest cfgp dlqTopic hp =
     (let cfg = (case cfgp of None \<Rightarrow> consumer_DefaultConfig | Some c \<Rightarrow> c) in
      case consumer_Config_Validate cfg of
        Some err \<Rightarrow> Inl (errorf_ctx ''invalid config'' err)
      | None \<Rightarrow>
         if dlqTopic = [] then Inl dlq_ErrEmptyDLQTopic
         else if hp = None then Inl dlq_ErrNilReplayHandler
         else (case NewConsumerGroup (cc_Brokers cfg) (cc_GroupID cfg)
                      (dlq_toSaramaConfig NewConfig OffsetNewest OffsetOldest cfg) of
            Inl err \<Rightarrow> Inl (errorf_ctx ''failed to create consumer group'' err)
          | Inr g \<Rightarrow> NewReplayerWithConsumerGroup (Some g) dlqTopic hp))"

subsection \<open>One message\<close>

text \<open>
  The end of the processing of one message: \<open>None\<close> a nil error, \<open>Some (Inl e)\<close> the error
  \<open>e\<close>, \<open>Some (Inr r)\<close> a panic.
\<close>

type_synonym replay_end = "(go_error + string) option"

text \<open>The text of the error: \<open>replay handler failed for topic/partition/offset\<close>.\<close>

definition replay_context :: "consumer_message \<Rightarrow> string" where
  "replay_context msg = ''replay handler failed for '' @ msg_Topic msg @ ''/'' @ itoa (sint (msg_Partition msg)) @
     ''/'' @ itoa (sint (msg_Offset msg))"

text \<open>The tail of \<open>processMessage\<close>, from the call of the handler on.\<close>

definition replay_message ::
  "('uid, 'w, 'g) replayer \<Rightarrow> consumer_message \<Rightarrow> 'uid dlq_message \<Rightarrow> ('uid, 'w) replay_session \<Rightarrow>
   ('uid, 'w) replay_session \<times> replay_end" where
  "replay_message r msg dlqMsg s =
     (case rep_handler r dlqMsg (rs_world s) of (out, dlqMsg', w') \<Rightarrow>
       (let s1 = (remit (RInvoke dlqMsg out) s)\<lparr>rs_world := w'\<rparr> in
        case out of
          Panicked p \<Rightarrow> (s1, Some (Inr p))
        | Returned (Some err) \<Rightarrow>
           (case dm_Envelope dlqMsg' of
              None \<Rightarrow> (s1, Some (Inr ''invalid memory address or nil pointer dereference''))
            | Some env \<Rightarrow>
               (incrementFailed (remit (RLog LError ''failed to replay DLQ message'') s1),
                Some (Inl (errorf_ctx (replay_context msg) err))))
        | Returned None \<Rightarrow> (replay_MarkMessage msg (incrementReplayed s1), None)))"

definition replay_processMessage ::
  "(bytes \<Rightarrow> go_error + 'uid dlq_message) \<Rightarrow> ('uid, 'w, 'g) replayer \<Rightarrow> ('uid, 'w) replay_filter option \<Rightarrow>
   consumer_message \<Rightarrow> ('uid, 'w) replay_session \<Rightarrow> ('uid, 'w) replay_session \<times> replay_end" where
  "replay_processMessage unmarshal r filterp msg s0 =
     (let s = incrementConsumed s0 in
      case unmarshal (msg_Value msg) of
        Inl err \<Rightarrow>
          (replay_MarkMessage msg (incrementSkipped (remit (RLog LError ''failed to decode DLQ message'') s)), None)
      | Inr dlqMsg \<Rightarrow>
         (case dm_Envelope dlqMsg of
            None \<Rightarrow>
              (replay_MarkMessage msg (incrementSkipped (remit (RLog LWarn ''skipping DLQ message without envelope'') s)), None)
          | Some env \<Rightarrow>
             (case filterp of
                None \<Rightarrow> replay_message r msg dlqMsg s
              | Some flt \<Rightarrow>
                 (case flt dlqMsg (rs_world s) of (ans, dlqMsg', w') \<Rightarrow>
                   (let s1 = s\<lparr>rs_world := w'\<rparr> in
                    case ans of
                      Inl p \<Rightarrow> (s1, Some (Inr p))
                    | Inr False \<Rightarrow> (replay_MarkMessage msg (incrementSkipped s1), None)
                    | Inr True \<Rightarrow> replay_message r msg dlqMsg' s1)))))"

fun replay_ConsumeClaim ::
  "(bytes \<Rightarrow> go_error + 'uid dlq_message) \<Rightarrow> ('uid, 'w, 'g) replayer \<Rightarrow> ('uid, 'w) replay_filter option \<Rightarrow>
   consumer_message list \<Rightarrow> ('uid, 'w) replay_session \<Rightarrow> ('uid, 'w) replay_session \<times> replay_end" where
  "replay_ConsumeClaim unmarshal r filterp [] s = (s, None)"
| "replay_ConsumeClaim unmarshal r filterp (msg # msgs) s =
     (case replay_processMessage unmarshal r filterp msg s of
        (s', None) \<Rightarrow> replay_ConsumeClaim unmarshal r filterp msgs s'
      | (s', Some e) \<Rightarrow> (s', Some e))"

subsection \<open>Lemmas: counters and traces\<close>

definition tally_consumed :: replay_stats where "tally_consumed = ReplayStats 1 0 0 0"
definition tally_replayed :: replay_stats where "tally_replayed = ReplayStats 0 1 0 0"
definition tally_skipped :: replay_stats where "tally_skipped = ReplayStats 0 0 1 0"
definition tally_failed :: replay_stats where "tally_failed = ReplayStats 0 0 0 1"

lemmas tally_defs = tally_consumed_def tally_replayed_def tally_skipped_def tally_failed_def

lemma increments [simp]:
  "incrementConsumed s = s\<lparr>rs_stats := rs_stats s + tally_consumed\<rparr>"
  "incrementReplayed s = s\<lparr>rs_stats := rs_stats s + tally_replayed\<rparr>"
  "incrementSkipped s = s\<lparr>rs_stats := rs_stats s + tally_skipped\<rparr>"
  "incrementFailed s = s\<lparr>rs_stats := rs_stats s + tally_failed\<rparr>"
  by (cases "rs_stats s"; simp add: incrementConsumed_def incrementReplayed_def incrementSkipped_def
      incrementFailed_def plus_replay_stats_def tally_defs)+

lemma remit_simps [simp]:
  "rs_trace (remit a s) = rs_trace s @ [a]" "rs_world (remit a s) = rs_world s" "rs_stats (remit a s) = rs_stats s"
  "rs_trace (replay_MarkMessage m s) = rs_trace s @ [RMark m]"
  "rs_world (replay_MarkMessage m s) = rs_world s" "rs_stats (replay_MarkMessage m s) = rs_stats s"
  by (simp_all add: remit_def replay_MarkMessage_def)

fun replay_marks :: "'uid replay_action list \<Rightarrow> consumer_message list" where
  "replay_marks [] = []"
| "replay_marks (RMark m # as) = m # replay_marks as"
| "replay_marks (_ # as) = replay_marks as"

fun replay_invocations :: "'uid replay_action list \<Rightarrow> ('uid dlq_message \<times> outcome) list" where
  "replay_invocations [] = []"
| "replay_invocations (RInvoke m out # as) = (m, out) # replay_invocations as"
| "replay_invocations (_ # as) = replay_invocations as"

lemma replay_marks_append [simp]: "replay_marks (xs @ ys) = replay_marks xs @ replay_marks ys"
  by (induction xs rule: replay_marks.induct) auto

lemma replay_invocations_append [simp]:
  "replay_invocations (xs @ ys) = replay_invocations xs @ replay_invocations ys"
  by (induction xs rule: replay_invocations.induct) auto

text \<open>
  \<open>counted d calls e\<close>: a message that added \<open>d\<close> to the counters (beside being consumed), was
  handed over as \<open>calls\<close> and ended with \<open>e\<close> was counted correctly.
\<close>

definition counted :: "consumer_message \<Rightarrow> replay_stats \<Rightarrow> ('uid dlq_message \<times> outcome) list \<Rightarrow> replay_end \<Rightarrow> bool" where
  "counted msg d calls e \<longleftrightarrow> (case e of
     None \<Rightarrow> (d = tally_skipped \<and> calls = []) \<or> (d = tally_replayed \<and> (\<exists>m. calls = [(m, Returned None)]))
   | Some (Inl err) \<Rightarrow> d = tally_failed \<and>
       (\<exists>m cause. calls = [(m, Returned (Some cause))] \<and> err = errorf_ctx (replay_context msg) cause)
   | Some (Inr p) \<Rightarrow> d = 0 \<and> list_all (\<lambda>c. snd c \<noteq> Returned None) calls)"

lemma replay_message_counted:
  assumes "replay_message r msg m s = (s', e)"
  shows "\<exists>d calls. rs_stats s' = rs_stats s + d \<and>
     replay_marks (rs_trace s') = replay_marks (rs_trace s) @ (if e = None then [msg] else []) \<and>
     replay_invocations (rs_trace s') = replay_invocations (rs_trace s) @ calls \<and> counted msg d calls e"
proof -
  obtain out m' w' where h: "rep_handler r m (rs_world s) = (out, m', w')" by (cases "rep_handler r m (rs_world s)")
  have result: ?thesis if "rs_stats s' = rs_stats s + d"
      "replay_marks (rs_trace s') = replay_marks (rs_trace s) @ (if e = None then [msg] else [])"
      "replay_invocations (rs_trace s') = replay_invocations (rs_trace s) @ [(m, out)]" "counted msg d [(m, out)] e" for d
    using that by blast
  show ?thesis
  proof (cases out)
    case (Panicked p)
    with assms h show ?thesis by (intro result [of 0]) (auto simp: replay_message_def counted_def)
  next
    case (Returned ret)
    show ?thesis
    proof (cases ret)
      case None
      with Returned assms h show ?thesis
        by (intro result [of tally_replayed]) (auto simp: replay_message_def Let_def counted_def)
    next
      case (Some err)
      show ?thesis
      proof (cases "dm_Envelope m'")
        case None
        with Returned Some assms h show ?thesis
          by (intro result [of 0]) (auto simp: replay_message_def Let_def counted_def)
      next
        case (Some env)
        with Returned \<open>ret = Some err\<close> assms h show ?thesis
          by (intro result [of tally_failed]) (auto simp: replay_message_def Let_def counted_def)
      qed
    qed
  qed
qed

lemma replay_message_calls:
  "replay_message r msg m s = (s', e) \<Longrightarrow>
    \<exists>out. replay_invocations (rs_trace s') = replay_invocations (rs_trace s) @ [(m, out)]"
  by (auto simp: replay_message_def Let_def split: prod.splits outcome.splits option.splits)

lemma replay_process_counted:
  assumes "replay_processMessage u r flt msg s = (s', e)"
  shows "\<exists>d calls. rs_stats s' = rs_stats s + tally_consumed + d \<and>
     replay_marks (rs_trace s') = replay_marks (rs_trace s) @ (if e = None then [msg] else []) \<and>
     replay_invocations (rs_trace s') = replay_invocations (rs_trace s) @ calls \<and> counted msg d calls e"
proof -
  let ?s = "incrementConsumed s"
  have skip: ?thesis if "e = None" "rs_stats s' = rs_stats s + tally_consumed + tally_skipped"
      "replay_marks (rs_trace s') = replay_marks (rs_trace s) @ [msg]"
      "replay_invocations (rs_trace s') = replay_invocations (rs_trace s)"
    using that by (intro exI [of _ tally_skipped] exI [of _ "[]"]) (simp add: counted_def)
  show ?thesis
  proof (cases "u (msg_Value msg)")
    case (Inl err)
    with assms show ?thesis by (intro skip) (auto simp: replay_processMessage_def Let_def)
  next
    case (Inr m)
    show ?thesis
    proof (cases "dm_Envelope m")
      case None
      with Inr assms show ?thesis by (intro skip) (auto simp: replay_processMessage_def Let_def)
    next
      case (Some env)
      show ?thesis
      proof (cases flt)
        case None
        with Inr Some assms have "replay_message r msg m ?s = (s', e)"
          by (simp add: replay_processMessage_def Let_def)
        from replay_message_counted [OF this] show ?thesis by auto
      next
        case (Some f)
        obtain ans m' w' where f: "f m (rs_world s) = (ans, m', w')" by (cases "f m (rs_world s)")
        show ?thesis
        proof (cases ans)
          case (Inl p)
          with f Some \<open>dm_Envelope m = Some env\<close> Inr assms show ?thesis
            by (intro exI [of _ 0] exI [of _ "[]"]) (auto simp: replay_processMessage_def Let_def counted_def)
        next
          case (Inr b)
          show ?thesis
          proof (cases b)
            case True
            with f Some \<open>dm_Envelope m = Some env\<close> Inr \<open>u (msg_Value msg) = Inr m\<close> assms
            have "replay_message r msg m' (?s\<lparr>rs_world := w'\<rparr>) = (s', e)"
              by (simp add: replay_processMessage_def Let_def)
            from replay_message_counted [OF this] show ?thesis by auto
          next
            case False
            with f Some \<open>dm_Envelope m = Some env\<close> Inr \<open>u (msg_Value msg) = Inr m\<close> assms show ?thesis
              by (intro skip) (auto simp: replay_processMessage_def Let_def)
          qed
        qed
      qed
    qed
  qed
qed

interpretation replay_claim: claim_loop "replay_processMessage u r flt" "replay_ConsumeClaim u r flt"
  "\<lambda>s. replay_marks (rs_trace s)" for u r flt
proof unfold_locales
  fix m s s'
  assume "replay_processMessage u r flt m s = (s', None)"
  from replay_process_counted [OF this]
  show "replay_marks (rs_trace s') = replay_marks (rs_trace s) @ [m]" by auto
next
  fix m s s' e
  assume "replay_processMessage u r flt m s = (s', Some e)"
  from replay_process_counted [OF this]
  show "replay_marks (rs_trace s') = replay_marks (rs_trace s)" by auto
qed simp_all

text \<open>Totals of a claim.\<close>

definition ok_call :: "'uid dlq_message \<times> outcome \<Rightarrow> bool" where
  "ok_call c \<longleftrightarrow> snd c = Returned None"

definition failed_call :: "'uid dlq_message \<times> outcome \<Rightarrow> bool" where
  "failed_call c \<longleftrightarrow> (\<exists>err. snd c = Returned (Some err))"

definition claim_counted :: "replay_stats \<Rightarrow> ('uid dlq_message \<times> outcome) list \<Rightarrow> replay_end \<Rightarrow> bool" where
  "claim_counted d calls e \<longleftrightarrow>
     Replayed d = of_nat (length (filter ok_call calls)) \<and>
     ((\<exists>p. e = Some (Inr p)) \<or>
        Consumed d = Replayed d + Skipped d + Failed d \<and>
        Failed d = of_nat (length (filter failed_call calls)) \<and>
        length (filter failed_call calls) = (if e = None then 0 else 1))"

lemma stats_plus_sel [simp]:
  "Consumed (a + b) = Consumed a + Consumed b" "Replayed (a + b) = Replayed a + Replayed b"
  "Skipped (a + b) = Skipped a + Skipped b" "Failed (a + b) = Failed a + Failed b"
  "Consumed 0 = 0" "Replayed 0 = 0" "Skipped 0 = 0" "Failed 0 = 0"
  by (simp_all add: plus_replay_stats_def zero_replay_stats_def)

lemma counted_claim:
  assumes "counted msg d calls e"
  shows "claim_counted (tally_consumed + d) calls e"
proof (cases e)
  case (Some x)
  with assms show ?thesis
    by (cases x) (auto simp: counted_def claim_counted_def tally_defs ok_call_def failed_call_def filter_empty_conv list_all_iff)
qed (use assms in \<open>auto simp: counted_def claim_counted_def tally_defs ok_call_def failed_call_def\<close>)

lemma claim_counted_add:
  "claim_counted d calls None \<Longrightarrow> claim_counted d' calls' e \<Longrightarrow> claim_counted (d + d') (calls @ calls') e"
  by (auto simp: claim_counted_def)

lemma replay_claim_counted:
  "replay_ConsumeClaim u r flt msgs s = (s', e) \<Longrightarrow>
    \<exists>d calls. rs_stats s' = rs_stats s + d \<and>
      replay_invocations (rs_trace s') = replay_invocations (rs_trace s) @ calls \<and> claim_counted d calls e \<and>
      (e = None \<longrightarrow> Consumed d = of_nat (length msgs))"
proof (induction msgs arbitrary: s)
  case Nil
  then show ?case by (intro exI [of _ 0] exI [of _ "[]"]) (auto simp: claim_counted_def)
next
  case (Cons msg msgs)
  obtain s1 e1 where p: "replay_processMessage u r flt msg s = (s1, e1)" by fastforce
  from replay_process_counted [OF p] obtain d1 c1 where d1: "rs_stats s1 = rs_stats s + tally_consumed + d1"
    "replay_invocations (rs_trace s1) = replay_invocations (rs_trace s) @ c1" "counted msg d1 c1 e1" by blast
  note c1 = counted_claim [OF d1(3)]
  show ?case
  proof (cases e1)
    case None
    with p Cons.prems have "replay_ConsumeClaim u r flt msgs s1 = (s', e)" by simp
    from Cons.IH [OF this] obtain d2 c2 where d2: "rs_stats s' = rs_stats s1 + d2"
      "replay_invocations (rs_trace s') = replay_invocations (rs_trace s1) @ c2" "claim_counted d2 c2 e"
      "e = None \<longrightarrow> Consumed d2 = of_nat (length msgs)" by blast
    from claim_counted_add [OF c1 [unfolded None] d2(3)]
    have "claim_counted (tally_consumed + d1 + d2) (c1 @ c2) e" .
    moreover have "Consumed d1 = 0" using d1(3) None by (auto simp: counted_def tally_defs)
    ultimately show ?thesis
      using d1 d2 by (intro exI [of _ "tally_consumed + d1 + d2"] exI [of _ "c1 @ c2"])
        (auto simp: add.assoc tally_consumed_def)
  next
    case (Some e')
    with p Cons.prems have "s' = s1" "e = e1" by auto
    with d1 c1 Some show ?thesis
      by (intro exI [of _ "tally_consumed + d1"] exI [of _ c1]) (auto simp: add.assoc)
  qed
qed

subsection \<open>Properties\<close>

text \<open>
  A claim of two dead letters: the first value decodes to a letter without envelope, any other
  to one whose handler fails while the world is zero.
\<close>

definition sample_letter :: "nat dlq_message" where
  "sample_letter = dlq_NewMessage time_zero ''txova.rides.v1'' 0 7 (Some sample_envelope) None 3"

definition sample_unmarshal :: "bytes \<Rightarrow> go_error + nat dlq_message" where
  "sample_unmarshal b = Inr (if b = ''null'' then dlq_zero else sample_letter)"

definition sample_replayer :: "(nat, nat, unit) replayer" where
  "sample_replayer = \<lparr>rep_consumerGroup = (), rep_topic = ''txova.rides.v1.dlq'',
     rep_handler = (\<lambda>m w. (Returned (if w = 0 then Some (ErrValue ''app'' ''errBusy'' ''busy'') else None), m, w))\<rparr>"

definition letter_message :: "bytes \<Rightarrow> int64 \<Rightarrow> consumer_message" where
  "letter_message v off = \<lparr>msg_Topic = ''txova.rides.v1.dlq'', msg_Partition = 0, msg_Offset = off, msg_Value = v\<rparr>"

definition sample_replay_session :: "nat \<Rightarrow> (nat, nat) replay_session" where
  "sample_replay_session w = \<lparr>rs_world = w, rs_stats = 0, rs_trace = []\<rparr>"

lemmas sample_replay_defs = sample_unmarshal_def sample_replayer_def letter_message_def sample_replay_session_def

lemma sample_replay_run:
  "\<exists>s'. replay_ConsumeClaim sample_unmarshal sample_replayer None [letter_message ''null'' 0, letter_message ''x'' 1]
     (sample_replay_session 1) = (s', None)"
  by (simp add: sample_replay_defs sample_letter_def replay_processMessage_def replay_message_def dlq_zero_def Let_def)

lemma sample_replay_failing:
  "\<exists>s' e. replay_ConsumeClaim sample_unmarshal sample_replayer None
     [letter_message ''null'' 0, letter_message ''x'' 1, letter_message ''x'' 2] (sample_replay_session 0) = (s', Some (Inl e))"
  by (simp add: sample_replay_defs sample_letter_def replay_processMessage_def replay_message_def dlq_zero_def Let_def)

text \<open>
  C11: The counters of a claim are exact (modulo \<open>2 ^ 64\<close>): what a claim adds to \<open>Replayed\<close> is
  the number of handler calls that returned nil; unless caller code panicked, what it adds to
  \<open>Failed\<close> is the number of handler calls that returned an error (none if the claim ends
  normally, one if it ends with an error), and what it adds to \<open>Consumed\<close> is the sum of what it
  adds to the other three; a claim that ends normally consumed each of its messages once.
\<close>

theorem replay_counters_exact:
  assumes "replay_ConsumeClaim u r flt msgs s = (s', e)"
  shows "\<exists>d calls. Stats s' = Stats s + d \<and>
    replay_invocations (rs_trace s') = replay_invocations (rs_trace s) @ calls \<and>
    Replayed d = of_nat (length (filter (\<lambda>c. snd c = Returned None) calls)) \<and>
    ((\<exists>p. e = Some (Inr p)) \<or>
       Consumed d = Replayed d + Skipped d + Failed d \<and>
       Failed d = of_nat (length (filter (\<lambda>c. \<exists>err. snd c = Returned (Some err)) calls)) \<and>
       length (filter (\<lambda>c. \<exists>err. snd c = Returned (Some err)) calls) = (if e = None then 0 else 1)) \<and>
    (e = None \<longrightarrow> Consumed d = of_nat (length msgs))"
proof -
  have f: "ok_call = (\<lambda>c. snd c = Returned None)" "failed_call = (\<lambda>c. \<exists>err. snd c = Returned (Some err))"
    by (auto simp: ok_call_def failed_call_def)
  from replay_claim_counted [OF assms] show ?thesis
    unfolding claim_counted_def f Stats_def by blast
qed

theorem replay_counters_exact_witness:
  "\<exists>s'. replay_ConsumeClaim sample_unmarshal sample_replayer None [letter_message ''null'' 0, letter_message ''x'' 1]
     (sample_replay_session 1) = (s', None) \<and> Consumed (Stats s') = 2"
proof -
  obtain s' where run: "replay_ConsumeClaim sample_unmarshal sample_replayer None
      [letter_message ''null'' 0, letter_message ''x'' 1] (sample_replay_session 1) = (s', None)"
    using sample_replay_run by blast
  from replay_counters_exact [OF run] have "Consumed (Stats s') = Consumed (Stats (sample_replay_session 1)) + 2"
    by auto
  with run show ?thesis by (auto simp: Stats_def sample_replay_session_def)
qed

text \<open>
  C6: A claim marks its messages in order and stops at the first one that is not disposed of:
  if it ends normally every message was marked, and otherwise exactly the messages before the
  failing one were marked, the failing one is not, and the messages after it were not touched
  (the final state is that of processing the failing one). The error names the failing message.
\<close>

theorem replay_stops_at_failure:
  assumes "replay_ConsumeClaim u r flt msgs s = (s', e)"
  shows "case e of
      None \<Rightarrow> replay_marks (rs_trace s') = replay_marks (rs_trace s) @ msgs
    | Some x \<Rightarrow> (\<exists>pre m post s1. msgs = pre @ m # post \<and> replay_ConsumeClaim u r flt pre s = (s1, None) \<and>
        replay_processMessage u r flt m s1 = (s', Some x) \<and>
        replay_marks (rs_trace s') = replay_marks (rs_trace s) @ pre \<and>
        (\<forall>err. x = Inl err \<longrightarrow> (\<exists>cause. err = errorf_ctx (replay_context m) cause \<and> errors_is err cause)))"
proof (cases e)
  case None
  with replay_claim.loop_ok_marks [of u r flt msgs s s'] assms show ?thesis by simp
next
  case (Some x)
  with replay_claim.loop_stop_split [of u r flt msgs s s' x] assms obtain pre m post s1
    where *: "msgs = pre @ m # post" "replay_ConsumeClaim u r flt pre s = (s1, None)"
      "replay_processMessage u r flt m s1 = (s', Some x)" "replay_marks (rs_trace s') = replay_marks (rs_trace s) @ pre"
    by auto
  from replay_process_counted [OF *(3)] obtain d calls where "counted m d calls (Some x)"
    "replay_invocations (rs_trace s') = replay_invocations (rs_trace s1) @ calls" by blast
  then have "\<forall>err. x = Inl err \<longrightarrow> (\<exists>cause. err = errorf_ctx (replay_context m) cause \<and> errors_is err cause)"
    by (auto simp: counted_def)
  with * Some show ?thesis by auto
qed

theorem replay_stops_at_failure_witness:
  "\<exists>s' e pre. replay_ConsumeClaim sample_unmarshal sample_replayer None
     [letter_message ''null'' 0, letter_message ''x'' 1, letter_message ''x'' 2] (sample_replay_session 0) =
     (s', Some (Inl e)) \<and> replay_marks (rs_trace s') = pre \<and> length pre < 3"
proof -
  obtain s' e where run: "replay_ConsumeClaim sample_unmarshal sample_replayer None
     [letter_message ''null'' 0, letter_message ''x'' 1, letter_message ''x'' 2] (sample_replay_session 0) = (s', Some (Inl e))"
    using sample_replay_failing by blast
  from replay_stops_at_failure [OF run] obtain pre m post
    where "[letter_message ''null'' 0, letter_message ''x'' 1, letter_message ''x'' 2] = pre @ m # post"
      "replay_marks (rs_trace s') = pre" by (auto simp: sample_replay_session_def)
  moreover from this(1) have "length pre < 3"
    by (metis length_Cons length_append add_Suc_right less_add_Suc1 list.size(3) numeral_3_eq_3)
  ultimately show ?thesis using run by blast
qed

text \<open>
  C35: The handler is called, once, for exactly the dead letters that decode, carry an envelope
  and pass the filter (without a filter every letter does); any other letter is never handed to
  it but skipped: marked and counted, unless the filter itself panicked.
\<close>

theorem replay_handler_called_iff:
  assumes "replay_processMessage u r flt msg s = (s', e)"
  shows "if \<exists>m. u (msg_Value msg) = Inr m \<and> dm_Envelope m \<noteq> None \<and>
       (case flt of None \<Rightarrow> True | Some f \<Rightarrow> fst (f m (rs_world s)) = Inr True)
    then \<exists>m out. replay_invocations (rs_trace s') = replay_invocations (rs_trace s) @ [(m, out)] \<and>
       (flt = None \<longrightarrow> u (msg_Value msg) = Inr m)
    else replay_invocations (rs_trace s') = replay_invocations (rs_trace s) \<and>
       ((\<exists>p. e = Some (Inr p)) \<or>
        e = None \<and> Stats s' = Stats s + tally_consumed + tally_skipped \<and>
          replay_marks (rs_trace s') = replay_marks (rs_trace s) @ [msg])"
proof (cases "u (msg_Value msg)")
  case (Inl err)
  with assms show ?thesis by (auto simp: replay_processMessage_def Let_def Stats_def)
next
  case (Inr m)
  show ?thesis
  proof (cases "dm_Envelope m")
    case None
    with Inr assms show ?thesis by (auto simp: replay_processMessage_def Let_def Stats_def)
  next
    case (Some env)
    note m = Inr Some
    show ?thesis
    proof (cases flt)
      case None
      with m assms have "replay_message r msg m (incrementConsumed s) = (s', e)"
        by (simp add: replay_processMessage_def Let_def)
      from replay_message_calls [OF this] m None show ?thesis by simp
    next
      case (Some f)
      obtain ans m' w' where f: "f m (rs_world s) = (ans, m', w')" by (cases "f m (rs_world s)")
      show ?thesis
      proof (cases "ans = Inr True")
        case True
        with m Some f assms have "replay_message r msg m' ((incrementConsumed s)\<lparr>rs_world := w'\<rparr>) = (s', e)"
          by (simp add: replay_processMessage_def Let_def)
        from replay_message_calls [OF this] m Some f True show ?thesis by (simp, blast)
      next
        case False
        then consider p where "ans = Inl p" | "ans = Inr False" by (cases ans) auto
        then show ?thesis
          by cases (use m Some f assms in \<open>auto simp: replay_processMessage_def Let_def Stats_def\<close>)
      qed
    qed
  qed
qed

theorem replay_handler_called_iff_witness:
  "\<exists>s' e m out. replay_processMessage sample_unmarshal sample_replayer None (letter_message ''x'' 1) (sample_replay_session 0) =
     (s', e) \<and> replay_invocations (rs_trace s') = [(sample_letter, out)]"
proof -
  obtain s' e where run: "replay_processMessage sample_unmarshal sample_replayer None (letter_message ''x'' 1)
      (sample_replay_session 0) = (s', e)" by fastforce
  from replay_handler_called_iff [OF run] obtain m out where
    "replay_invocations (rs_trace s') = [(m, out)]" "sample_unmarshal (msg_Value (letter_message ''x'' 1)) = Inr m"
    by (auto simp: sample_replay_defs sample_letter_def)
  with run show ?thesis by (auto simp: sample_unmarshal_def letter_message_def)
qed

text \<open>
  A replayer reads its topic with the same client settings as a consumer with the same
  configuration, and is constructed exactly if the configuration is valid, a topic and a handler
  are given and the consumer group can be created; a nil configuration is never accepted.
\<close>

theorem NewReplayer_accepts_iff:
  "((\<exists>r. NewReplayer NewG NewC newest oldest cfgp t hp = Inr r) \<longleftrightarrow>
      (\<exists>cfg h g. cfgp = Some cfg \<and> consumer_Config_Validate cfg = None \<and> t \<noteq> [] \<and> hp = Some h \<and>
         NewG (cc_Brokers cfg) (cc_GroupID cfg) (consumer_toSaramaConfig NewC newest oldest cfg) = Inr g \<and>
         NewReplayer NewG NewC newest oldest cfgp t hp =
           Inr \<lparr>rep_consumerGroup = g, rep_topic = t, rep_handler = h\<rparr>)) \<and>
   (\<forall>cfg. dlq_toSaramaConfig NewC newest oldest cfg = consumer_toSaramaConfig NewC newest oldest cfg)"
proof -
  have same: "dlq_toSaramaConfig NewC newest oldest cfg = consumer_toSaramaConfig NewC newest oldest cfg" for cfg
    by (simp add: dlq_toSaramaConfig_def consumer_toSaramaConfig_def)
  have none: "consumer_Config_Validate consumer_DefaultConfig \<noteq> None"
    by (simp add: consumer_Config_Validate_def consumer_DefaultConfig_def)
  show ?thesis
    using none by (cases cfgp) (auto simp: NewReplayer_def NewReplayerWithConsumerGroup_def same split: option.splits sum.splits)
qed

end
