(* ===== verification/ReplayerLifecycle.thy ===== *)
theory ReplayerLifecycle
  imports Replayer
begin

section \<open>Starting and closing a replayer (dlq/replayer.go)\<close>

text \<open>
  \<open>ReplayWithFilter\<close> and \<open>Close\<close> run in goroutines of the caller, any number of each, over
  the closed flag, the wait group and the consumer group. The flag test and \<open>wg.Add\<close> are one
  read section, the flag test and its setting one write section; neither contains a call, so
  each is one step; so no replay joins the wait group after the flag is set, and a plain counter
  models it. What \<open>Consume\<close> and the group's \<open>Close\<close> return is any error or nil, and
  the context of each replay may be cancelled at any time.
\<close>

datatype replay_pc = RInit | RLoop | RConsuming | RConsumed "go_error option" | RReturned "go_error option"

datatype rclose_pc = RCInit | RCMarked | RCWaiting "go_error option" | RCReturned "go_error option"

record replayer_life =
  rl_closed :: bool
  rl_wg :: nat
  rl_group_closes :: nat
  rl_topic :: string
  rl_replays :: "(replay_pc \<times> go_error option) list"
  rl_closes :: "rclose_pc list"

subsection \<open>The decisions of the code\<close>

definition Replay_enter :: "bool \<Rightarrow> replay_pc" where
  "Replay_enter closed = (if closed then RReturned (Some dlq_ErrReplayerClosed) else RLoop)"

text \<open>A cancelled context is represented by its cause.\<close>

definition Replay_top :: "go_error option \<Rightarrow> replay_pc" where
  "Replay_top ctx = (case ctx of Some cause \<Rightarrow> RReturned (Some cause) | None \<Rightarrow> RConsuming)"

text \<open>The test of the context after an error of \<open>Consume\<close>; without an error it is not made.\<close>

definition Replay_after_consume :: "go_error option \<Rightarrow> go_error option \<Rightarrow> replay_pc" where
  "Replay_after_consume ctx err = (case (err, ctx) of
     (Some e, Some cause) \<Rightarrow> RReturned (Some cause) | _ \<Rightarrow> RConsumed err)"

text \<open>The test of the closed flag, with and without an error.\<close>

definition Replay_is_closed :: "string \<Rightarrow> bool \<Rightarrow> go_error option \<Rightarrow> replay_pc" where
  "Replay_is_closed topic closed err =
     (if closed then RReturned None
      else case err of
        None \<Rightarrow> RLoop
      | Some e \<Rightarrow> RReturned (Some (errorf_ctx (''failed to replay dlq topic '' @ topic) e)))"

definition RClose_check :: "bool \<Rightarrow> rclose_pc" where
  "RClose_check closed = (if closed then RCReturned None else RCMarked)"

definition RClose_result :: "go_error option \<Rightarrow> rclose_pc" where
  "RClose_result err = RCReturned (map_option (errorf_ctx ''failed to close replayer'') err)"

fun replay_returned :: "replay_pc \<Rightarrow> bool" where
  "replay_returned (RReturned e) = True"
| "replay_returned _ = False"

definition replay_to :: "nat \<Rightarrow> replay_pc \<Rightarrow> replayer_life \<Rightarrow> replayer_life" where
  "replay_to i pc s = s\<lparr>rl_replays := (rl_replays s)[i := (pc, snd (rl_replays s ! i))]\<rparr>"

text \<open>A goroutine in the loop moves on; returning runs the deferred \<open>wg.Done\<close>.\<close>

definition replay_loop_to :: "nat \<Rightarrow> replay_pc \<Rightarrow> replayer_life \<Rightarrow> replayer_life" where
  "replay_loop_to i pc s = (replay_to i pc s)\<lparr>rl_wg := (if replay_returned pc then rl_wg s - 1 else rl_wg s)\<rparr>"

definition rclose_to :: "nat \<Rightarrow> rclose_pc \<Rightarrow> replayer_life \<Rightarrow> replayer_life" where
  "rclose_to j pc s = s\<lparr>rl_closes := (rl_closes s)[j := pc]\<rparr>"

definition replayer_initial :: "replayer_life \<Rightarrow> bool" where
  "replayer_initial s \<longleftrightarrow> \<not> rl_closed s \<and> rl_wg s = 0 \<and> rl_group_closes s = 0 \<and>
     list_all (\<lambda>p. fst p = RInit) (rl_replays s) \<and> list_all (\<lambda>c. c = RCInit) (rl_closes s)"

inductive replayer_step :: "replayer_life \<Rightarrow> replayer_life \<Rightarrow> bool" where
  replay_enter: "i < length (rl_replays s) \<Longrightarrow> fst (rl_replays s ! i) = RInit \<Longrightarrow>
     replayer_step s ((replay_to i (Replay_enter (rl_closed s)) s)
       \<lparr>rl_wg := (if rl_closed s then rl_wg s else Suc (rl_wg s))\<rparr>)"
| replay_top: "i < length (rl_replays s) \<Longrightarrow> rl_replays s ! i = (RLoop, ctx) \<Longrightarrow>
     replayer_step s (replay_loop_to i (Replay_top ctx) s)"
| replay_consumed: "i < length (rl_replays s) \<Longrightarrow> rl_replays s ! i = (RConsuming, ctx) \<Longrightarrow>
     replayer_step s (replay_loop_to i (Replay_after_consume ctx err) s)"
| replay_is_closed: "i < length (rl_replays s) \<Longrightarrow> rl_replays s ! i = (RConsumed err, ctx) \<Longrightarrow>
     replayer_step s (replay_loop_to i (Replay_is_closed (rl_topic s) (rl_closed s) err) s)"
| replay_cancel: "i < length (rl_replays s) \<Longrightarrow> rl_replays s ! i = (pc, None) \<Longrightarrow>
     replayer_step s (s\<lparr>rl_replays := (rl_replays s)[i := (pc, Some cause)]\<rparr>)"
| rclose_check: "j < length (rl_closes s) \<Longrightarrow> rl_closes s ! j = RCInit \<Longrightarrow>
     replayer_step s ((rclose_to j (RClose_check (rl_closed s)) s)\<lparr>rl_closed := True\<rparr>)"
| rclose_group: "j < length (rl_closes s) \<Longrightarrow> rl_closes s ! j = RCMarked \<Longrightarrow>
     replayer_step s ((rclose_to j (RCWaiting err) s)\<lparr>rl_group_closes := Suc (rl_group_closes s)\<rparr>)"
| rclose_wait: "j < length (rl_closes s) \<Longrightarrow> rl_closes s ! j = RCWaiting err \<Longrightarrow> rl_wg s = 0 \<Longrightarrow>
     replayer_step s (rclose_to j (RClose_result err) s)"

subsection \<open>The invariant\<close>

definition in_replay :: "replay_pc \<times> go_error option \<Rightarrow> bool" where
  "in_replay p \<longleftrightarrow> fst p \<noteq> RInit \<and> \<not> replay_returned (fst p)"

fun is_marked :: "rclose_pc \<Rightarrow> bool" where
  "is_marked RCMarked = True"
| "is_marked _ = False"

fun is_waiting :: "rclose_pc \<Rightarrow> bool" where
  "is_waiting (RCWaiting e) = True"
| "is_waiting _ = False"

text \<open>
  The wait group counts the replays in their loops; the closing \<open>Close\<close> is on its way to the
  group or has closed it; and when it is neither on its way nor waiting, no replay is left.
\<close>

definition replayer_inv :: "replayer_life \<Rightarrow> bool" where
  "replayer_inv s \<longleftrightarrow>
     rl_wg s = length (filter in_replay (rl_replays s)) \<and>
     length (filter is_marked (rl_closes s)) + rl_group_closes s = (if rl_closed s then 1 else 0) \<and>
     length (filter is_waiting (rl_closes s)) \<le> rl_group_closes s \<and>
     (rl_group_closes s = 1 \<and> length (filter is_waiting (rl_closes s)) = 0 \<longrightarrow> rl_wg s = 0)"

lemmas rlife_defs = replay_to_def replay_loop_to_def rclose_to_def

lemma in_replay_simps [simp]:
  "\<not> in_replay (RInit, c)" "in_replay (RLoop, c)" "in_replay (RConsuming, c)" "in_replay (RConsumed e, c)"
  "\<not> in_replay (RReturned e, c)"
  by (simp_all add: in_replay_def)

lemma Replay_enter_simps [simp]: "Replay_enter True = RReturned (Some dlq_ErrReplayerClosed)" "Replay_enter False = RLoop"
  by (simp_all add: Replay_enter_def)

lemma replay_pc_decisions:
  "Replay_top ctx \<noteq> RInit" "Replay_after_consume ctx err \<noteq> RInit" "Replay_is_closed t b err \<noteq> RInit"
  by (auto simp: Replay_top_def Replay_after_consume_def Replay_is_closed_def split: option.splits)

lemma replay_loop_to_inv:
  assumes inv: "replayer_inv s" and i: "i < length (rl_replays s)" "in_replay (rl_replays s ! i)" and pc: "pc \<noteq> RInit"
  shows "replayer_inv (replay_loop_to i pc s)"
proof (cases "replay_returned pc")
  case True
  then have "\<not> in_replay (pc, snd (rl_replays s ! i))" by (simp add: in_replay_def)
  from count_update_leave [where P = in_replay, OF i this] inv True show ?thesis
    by (auto simp: replayer_inv_def rlife_defs)
next
  case False
  with pc have "in_replay (pc, snd (rl_replays s ! i))" by (simp add: in_replay_def)
  with inv i False show ?thesis by (auto simp: replayer_inv_def rlife_defs count_update_same)
qed

lemma replayer_step_inv: "replayer_step s t \<Longrightarrow> replayer_inv s \<Longrightarrow> replayer_inv t"
proof (induction rule: replayer_step.induct)
  case (replay_enter i s)
  then have out: "\<not> in_replay (rl_replays s ! i)" by (simp add: in_replay_def)
  show ?case
  proof (cases "rl_closed s")
    case True
    with replay_enter out show ?thesis by (auto simp: replayer_inv_def rlife_defs count_update_same)
  next
    case False
    with replay_enter out show ?thesis by (auto simp add: replayer_inv_def rlife_defs count_update_enter)
  qed
next
  case (replay_cancel i s pc cause)
  then have "in_replay (pc, Some cause) = in_replay (rl_replays s ! i)" by (simp add: in_replay_def)
  with replay_cancel show ?case by (auto simp: replayer_inv_def count_update_same)
next
  case (rclose_check j s)
  then show ?case
    by (auto simp: replayer_inv_def rlife_defs RClose_check_def count_update_same count_update_enter split: if_splits)
next
  case (rclose_group j s err)
  from count_update_leave [where P = is_marked and y = "RCWaiting err", OF rclose_group.hyps(1)]
    count_update_enter [where P = is_waiting and y = "RCWaiting err", OF rclose_group.hyps(1)] rclose_group
  show ?case by (auto simp: replayer_inv_def rlife_defs split: if_splits)
next
  case (rclose_wait j s err)
  from count_update_leave [where P = is_waiting and y = "RClose_result err", OF rclose_wait.hyps(1)] rclose_wait
  show ?case by (auto simp: replayer_inv_def rlife_defs RClose_result_def count_update_same split: if_splits)
qed (auto intro!: replay_loop_to_inv simp: replay_pc_decisions)

interpretation replayer_life: step_invariant replayer_initial replayer_step replayer_inv
proof unfold_locales
  fix s assume "replayer_initial s"
  then have 1: "\<forall>p \<in> set (rl_replays s). fst p = RInit" "\<forall>c \<in> set (rl_closes s). c = RCInit"
    "\<not> rl_closed s" "rl_wg s = 0" "rl_group_closes s = 0"
    by (auto simp: replayer_initial_def list_all_iff)
  then have "filter in_replay (rl_replays s) = []" "filter is_marked (rl_closes s) = []" "filter is_waiting (rl_closes s) = []"
    by (auto simp: filter_empty_conv in_replay_def)
  with 1 show "replayer_inv s" by (simp add: replayer_inv_def)
qed (rule replayer_step_inv)

subsection \<open>Closing ends everything\<close>

fun replay_rank :: "replay_pc \<Rightarrow> nat" where
  "replay_rank RInit = 4" | "replay_rank RLoop = 3" | "replay_rank RConsuming = 2"
| "replay_rank (RConsumed e) = 1" | "replay_rank (RReturned e) = 0"

text \<open>A live context can still be cancelled, which counts as one more step.\<close>

definition replay_weight :: "replay_pc \<times> go_error option \<Rightarrow> nat" where
  "replay_weight p = replay_rank (fst p) + (if snd p = None then 1 else 0)"

fun rclose_rank :: "rclose_pc \<Rightarrow> nat" where
  "rclose_rank RCInit = 3" | "rclose_rank RCMarked = 2" | "rclose_rank (RCWaiting e) = 1" | "rclose_rank (RCReturned e) = 0"

definition replayer_rank :: "replayer_life \<Rightarrow> nat" where
  "replayer_rank s = sum_list (map replay_weight (rl_replays s)) + sum_list (map rclose_rank (rl_closes s))"

definition replayer_all_returned :: "replayer_life \<Rightarrow> bool" where
  "replayer_all_returned s \<longleftrightarrow> list_all (\<lambda>p. replay_returned (fst p)) (rl_replays s) \<and>
     list_all (\<lambda>c. rclose_rank c = 0) (rl_closes s)"

lemma rank_replay_to:
  "i < length (rl_replays s) \<Longrightarrow> replay_rank pc < replay_rank (fst (rl_replays s ! i)) \<Longrightarrow>
   sum_list (map replay_weight (rl_replays (replay_to i pc s))) < sum_list (map replay_weight (rl_replays s))"
  using sum_update_less [of i "rl_replays s" replay_weight "(pc, snd (rl_replays s ! i))"]
  by (simp add: replay_to_def replay_weight_def)

lemma rank_rclose_to:
  "j < length (rl_closes s) \<Longrightarrow> rclose_rank pc < rclose_rank (rl_closes s ! j) \<Longrightarrow>
   sum_list (map rclose_rank (rl_closes (rclose_to j pc s))) < sum_list (map rclose_rank (rl_closes s))"
  using sum_update_less [of j "rl_closes s" rclose_rank] by (simp add: rclose_to_def)

lemma rlife_fields [simp]:
  "rl_closes (replay_to i pc s) = rl_closes s" "rl_closed (replay_to i pc s) = rl_closed s"
  "rl_closes (replay_loop_to i pc s) = rl_closes s" "rl_closed (replay_loop_to i pc s) = rl_closed s"
  "rl_replays (replay_loop_to i pc s) = rl_replays (replay_to i pc s)"
  "rl_replays (rclose_to j pc' s) = rl_replays s" "rl_closed (rclose_to j pc' s) = rl_closed s"
  by (simp_all add: rlife_defs)

lemma replayer_calm_step:
  assumes "replayer_step s t" "rl_closed s"
  shows "rl_closed t \<and> replayer_rank t < replayer_rank s"
  using assms
proof (cases rule: replayer_step.cases)
  case (replay_enter i)
  with assms(2) show ?thesis by (auto simp: replayer_rank_def intro: rank_replay_to)
next
  case (replay_top i ctx)
  with assms(2) show ?thesis
    by (auto simp: replayer_rank_def Replay_top_def intro!: rank_replay_to split: option.splits)
next
  case (replay_consumed i ctx err)
  with assms(2) show ?thesis
    by (auto simp: replayer_rank_def Replay_after_consume_def intro!: rank_replay_to split: option.splits)
next
  case (replay_is_closed i err ctx)
  with assms(2) show ?thesis
    by (auto simp: replayer_rank_def Replay_is_closed_def intro!: rank_replay_to)
next
  case (replay_cancel i pc cause)
  with assms(2) show ?thesis
    using sum_update_less [of i "rl_replays s" replay_weight "(pc, Some cause)"]
    by (simp add: replayer_rank_def replay_weight_def)
next
  case (rclose_check j)
  with assms(2) show ?thesis
    using rank_rclose_to [of j s "RClose_check True"] by (simp add: replayer_rank_def RClose_check_def)
next
  case (rclose_group j err)
  with assms(2) show ?thesis using rank_rclose_to [of j s "RCWaiting err"] by (simp add: replayer_rank_def)
next
  case (rclose_wait j err)
  with assms(2) show ?thesis
    using rank_rclose_to [of j s "RClose_result err"] by (simp add: replayer_rank_def RClose_result_def)
qed

text \<open>
  \<open>replayer_step\<close> lets \<open>Consume\<close> return and contexts be cancelled at any time: both may
  happen, but a program that relied on them could wait for ever. The patient steps are those
  without them: no context is cancelled, and \<open>Consume\<close> with a live context returns only after
  the consumer group was closed.
\<close>

definition patient :: "replayer_life \<Rightarrow> replayer_life \<Rightarrow> bool" where
  "patient s t \<longleftrightarrow> (\<forall>i < length (rl_replays s).
     snd (rl_replays t ! i) = snd (rl_replays s ! i) \<and>
     (rl_replays s ! i = (RConsuming, None) \<and> rl_group_closes s = 0 \<longrightarrow> rl_replays t ! i = rl_replays s ! i))"

definition patient_step :: "replayer_life \<Rightarrow> replayer_life \<Rightarrow> bool" where
  "patient_step s t \<longleftrightarrow> replayer_step s t \<and> patient s t"

lemma patient_same: "rl_replays t = rl_replays s \<Longrightarrow> patient s t"
  by (simp add: patient_def)

lemma patient_moved:
  "rl_group_closes s \<noteq> 0 \<Longrightarrow> rl_replays t = rl_replays (replay_to i pc s) \<Longrightarrow> patient s t"
  by (cases "i < length (rl_replays s)") (auto simp: patient_def replay_to_def nth_list_update)

lemma replay_can_step:
  assumes "i < length (rl_replays s)" "\<not> replay_returned (fst (rl_replays s ! i))" "rl_group_closes s \<noteq> 0"
  shows "\<exists>t. patient_step s t"
proof (cases "rl_replays s ! i")
  case (Pair pc ctx)
  note moved = patient_moved [OF assms(3), of _ i]
  from assms Pair have "\<exists>t pc'. replayer_step s t \<and> rl_replays t = rl_replays (replay_to i pc' s)"
  proof (cases pc)
    case RInit
    with Pair assms(1) replayer_step.replay_enter [of i s] show ?thesis by (fastforce simp: replay_to_def)
  next
    case RLoop
    with Pair assms(1) replayer_step.replay_top [of i s ctx] show ?thesis by (fastforce simp: rlife_defs)
  next
    case RConsuming
    with Pair assms(1) replayer_step.replay_consumed [of i s ctx] show ?thesis by (fastforce simp: rlife_defs)
  next
    case (RConsumed err)
    with Pair assms(1) replayer_step.replay_is_closed [of i s err ctx] show ?thesis by (fastforce simp: rlife_defs)
  qed simp
  then show ?thesis using moved by (auto simp: patient_step_def)
qed

lemma rclose_can_step:
  assumes "j < length (rl_closes s)" "rclose_rank (rl_closes s ! j) \<noteq> 0" "is_waiting (rl_closes s ! j) \<longrightarrow> rl_wg s = 0"
  shows "\<exists>t. patient_step s t"
proof -
  from assms have "\<exists>t. replayer_step s t \<and> rl_replays t = rl_replays s"
    using replayer_step.rclose_check [of j s] replayer_step.rclose_group [of j s] replayer_step.rclose_wait [of j s]
    by (cases "rl_closes s ! j") (force simp: rlife_defs)+
  then show ?thesis by (auto simp: patient_step_def intro: patient_same)
qed

text \<open>
  While the closing call has not closed the group, that is its next step; afterwards each replay
  can go on; when none is left the wait group is free.
\<close>

lemma replayer_progress:
  assumes "replayer_inv s" "rl_closed s" "\<not> replayer_all_returned s"
  shows "\<exists>t. patient_step s t"
proof (cases "rl_group_closes s = 0")
  case True
  with assms(1,2) have "filter is_marked (rl_closes s) \<noteq> []" by (auto simp: replayer_inv_def)
  then obtain j where j: "j < length (rl_closes s)" "is_marked (rl_closes s ! j)"
    by (auto simp: filter_empty_conv in_set_conv_nth)
  then show ?thesis using rclose_can_step [OF j(1)] by (cases "rl_closes s ! j") auto
next
  case closed: False
  show ?thesis
  proof (cases "\<forall>i < length (rl_replays s). replay_returned (fst (rl_replays s ! i))")
    case False
    then show ?thesis using replay_can_step closed by blast
  next
    case True
    then have "\<forall>i < length (rl_replays s). \<not> in_replay (rl_replays s ! i)" by (simp add: in_replay_def)
    with assms(1) have wg: "rl_wg s = 0" using count_zero [of in_replay "rl_replays s"] by (simp add: replayer_inv_def)
    from True have "list_all (\<lambda>p. replay_returned (fst p)) (rl_replays s)" by (simp add: list_all_length)
    with assms(3) obtain j where "j < length (rl_closes s)" "rclose_rank (rl_closes s ! j) \<noteq> 0"
      by (auto simp: replayer_all_returned_def list_all_length)
    then show ?thesis using wg rclose_can_step by blast
  qed
qed

interpretation replayer_end: obliged_shutdown replayer_initial replayer_step replayer_inv rl_closed
  replayer_all_returned replayer_rank patient_step
proof unfold_locales
  show "\<exists>t. replayer_step s t" if "replayer_inv s" "rl_closed s" "\<not> replayer_all_returned s" for s
    using replayer_progress [OF that] by (auto simp: patient_step_def)
  show "replayer_step s t" if "patient_step s t" for s t
    using that by (simp add: patient_step_def)
qed (auto dest: replayer_calm_step replayer_progress)

subsection \<open>Properties\<close>

text \<open>A replayer with one replay and one \<open>Close\<close>, stepped by hand.\<close>

definition rlife_at :: "bool \<Rightarrow> nat \<Rightarrow> nat \<Rightarrow> replay_pc \<times> go_error option \<Rightarrow> rclose_pc \<Rightarrow> replayer_life" where
  "rlife_at cl wg n p c = \<lparr>rl_closed = cl, rl_wg = wg, rl_group_closes = n, rl_topic = ''rides.dlq'',
     rl_replays = [p], rl_closes = [c]\<rparr>"

lemma rlife_at_init: "reach replayer_initial replayer_step (rlife_at False 0 0 (RInit, None) RCInit)"
  by (rule reach_init) (simp add: replayer_initial_def rlife_at_def)

lemma rlife_at_enter: "replayer_step (rlife_at False wg n (RInit, x) c) (rlife_at False (Suc wg) n (RLoop, x) c)"
  using replay_enter [of 0 "rlife_at False wg n (RInit, x) c"] by (simp add: rlife_at_def rlife_defs)

lemma rlife_at_top: "replayer_step (rlife_at cl wg n (RLoop, None) c) (rlife_at cl wg n (RConsuming, None) c)"
  using replay_top [of 0 "rlife_at cl wg n (RLoop, None) c" None] by (simp add: rlife_at_def rlife_defs Replay_top_def)

lemma rlife_at_check: "replayer_step (rlife_at False wg n p RCInit) (rlife_at True wg n p RCMarked)"
  using rclose_check [of 0 "rlife_at False wg n p RCInit"] by (simp add: rlife_at_def rlife_defs RClose_check_def)

lemma rlife_at_closing: "reach replayer_initial replayer_step (rlife_at True 1 0 (RConsuming, None) RCMarked)"
proof -
  note r = reach_step [where step = replayer_step]
  show ?thesis using r [OF r [OF r [OF rlife_at_init rlife_at_enter] rlife_at_top] rlife_at_check] by simp
qed

lemma rlife_at_closed: "reach replayer_initial replayer_step (rlife_at True 0 1 (RInit, None) (RCReturned None))"
proof -
  note r = reach_step [where step = replayer_step]
  have "replayer_step (rlife_at True 0 0 (RInit, None) RCMarked) (rlife_at True 0 1 (RInit, None) (RCWaiting None))"
    using rclose_group [of 0 "rlife_at True 0 0 (RInit, None) RCMarked" None] by (simp add: rlife_at_def rlife_defs)
  moreover have "replayer_step (rlife_at True 0 1 (RInit, None) (RCWaiting None)) (rlife_at True 0 1 (RInit, None) (RCReturned None))"
    using rclose_wait [of 0 "rlife_at True 0 1 (RInit, None) (RCWaiting None)" None]
    by (simp add: rlife_at_def rlife_defs RClose_result_def)
  ultimately show ?thesis using r [OF r [OF r [OF rlife_at_init rlife_at_check]]] by blast
qed

text \<open>
  C22: In every interleaving of replays and closings the consumer group is closed at most once,
  and once the \<open>Close\<close> that closed it is done waiting, no replay is running and none will ever
  run: one that starts later gets the error that the replayer is closed.
\<close>

theorem replayer_no_replay_after_close:
  assumes "reach replayer_initial replayer_step s"
  shows "rl_group_closes s \<le> 1 \<and>
    (rl_group_closes s = 1 \<and> list_all (\<lambda>c. \<not> is_waiting c) (rl_closes s) \<longrightarrow>
      (\<forall>t. replayer_step\<^sup>*\<^sup>* s t \<longrightarrow>
         list_all (\<lambda>p. fst p = RInit \<or> replay_returned (fst p)) (rl_replays t)))"
proof -
  have inv: "replayer_inv s" by (rule replayer_life.reach_inv [OF assms])
  have keep: "rl_group_closes t = 1 \<and> list_all (\<lambda>c. \<not> is_waiting c) (rl_closes t) \<and> replayer_inv t"
    if "replayer_step\<^sup>*\<^sup>* s t" "rl_group_closes s = 1" "list_all (\<lambda>c. \<not> is_waiting c) (rl_closes s)" for t
    using that(1)
  proof (induction rule: rtranclp_induct)
    case (step t u)
    then have "replayer_inv u" by (blast intro: replayer_step_inv)
    moreover have "rl_closed t" "filter is_marked (rl_closes t) = []"
      using step.IH by (auto simp: replayer_inv_def split: if_splits)
    with step.IH have "\<forall>j < length (rl_closes t). \<not> is_marked (rl_closes t ! j) \<and> \<not> is_waiting (rl_closes t ! j)"
      by (auto simp: filter_empty_conv list_all_iff)
    with step.hyps(2) step.IH \<open>rl_closed t\<close> have "rl_group_closes u = 1 \<and> list_all (\<lambda>c. \<not> is_waiting c) (rl_closes u)"
      by (cases rule: replayer_step.cases)
        (auto simp: rlife_defs list_all_length nth_list_update RClose_check_def)
    ultimately show ?case by blast
  qed (use that inv in simp)
  have "list_all (\<lambda>p. fst p = RInit \<or> replay_returned (fst p)) (rl_replays t)"
    if "replayer_step\<^sup>*\<^sup>* s t" "rl_group_closes s = 1" "list_all (\<lambda>c. \<not> is_waiting c) (rl_closes s)" for t
  proof -
    from keep [OF that] have "filter is_waiting (rl_closes t) = []" "replayer_inv t" "rl_group_closes t = 1"
      by (auto simp: filter_empty_conv list_all_iff)
    then have "filter in_replay (rl_replays t) = []" by (auto simp: replayer_inv_def)
    then show ?thesis by (auto simp: filter_empty_conv list_all_iff in_replay_def)
  qed
  with inv show ?thesis by (auto simp: replayer_inv_def split: if_splits)
qed

theorem replayer_no_replay_after_close_witness:
  "rl_group_closes (rlife_at True 0 1 (RInit, None) (RCReturned None)) = 1 \<and>
   list_all (\<lambda>p. fst p = RInit \<or> replay_returned (fst p))
     (rl_replays (rlife_at True 0 1 (RReturned (Some dlq_ErrReplayerClosed), None) (RCReturned None)))"
proof -
  let ?s = "rlife_at True 0 1 (RInit, None) (RCReturned None)"
  have "replayer_step ?s (rlife_at True 0 1 (RReturned (Some dlq_ErrReplayerClosed), None) (RCReturned None))"
    using replay_enter [of 0 ?s] by (simp add: rlife_at_def rlife_defs)
  moreover have "rl_group_closes ?s = 1" "list_all (\<lambda>c. \<not> is_waiting c) (rl_closes ?s)"
    by (simp_all add: rlife_at_def)
  ultimately show ?thesis using replayer_no_replay_after_close [OF rlife_at_closed] by blast
qed

text \<open>
  C23: Closing a replayer needs no cancellation, and does not rely on \<open>Consume\<close> returning by
  itself: from any reachable state in which a \<open>Close\<close> has set the flag, patient steps alone (all
  contexts stay as they are, \<open>Consume\<close> with a live context returns only after the consumer group
  is closed) lead to a state in which all replays and closings have returned; a run in which no
  patient step is left has got there; and no run is infinite.
\<close>

theorem replayer_Close_ends_replays:
  assumes "reach replayer_initial replayer_step s" "rl_closed s"
  shows "(\<exists>t. patient_step\<^sup>*\<^sup>* s t \<and> replayer_all_returned t) \<and>
    (\<forall>t. replayer_step\<^sup>*\<^sup>* s t \<and> \<not> (\<exists>u. patient_step t u) \<longrightarrow> replayer_all_returned t) \<and>
    \<not> (\<exists>f. f (0::nat) = s \<and> (\<forall>n. replayer_step (f n) (f (Suc n))))"
  by (rule replayer_end.due_end [OF assms])

theorem replayer_Close_ends_replays_witness:
  "\<exists>t. patient_step\<^sup>*\<^sup>* (rlife_at True 1 0 (RConsuming, None) RCMarked) t \<and> replayer_all_returned t"
  using replayer_Close_ends_replays [OF rlife_at_closing] by (simp add: rlife_at_def)

end
