(* ===== verification/EndToEnd.thy ===== *)
theory EndToEnd
  imports ConsumerDelivery DlqHandler Replayer
begin

section \<open>From publication to replay\<close>

text \<open>
  Properties that span the producer, the consumer, the dead letter handler and the replayer,
  wired as the library documents it: the consumer's dead letter callback is the function made
  by \<open>CreateConsumerDLQHandler\<close>. The world of the consumer is then a pair: what the
  application's handlers act on, and the dead letter handler. The events travel as the JSON that
  \<open>encoding/json\<close> makes of them; only the codec of user ids is a parameter, whose round trip
  (\<open>jt_law\<close>) is a hypothesis.
\<close>

definition app_handler :: "('uid, 'v) handler \<Rightarrow> ('uid, 'v \<times> 'k dlq_handler) handler" where
  "app_handler h env w = (case h env (fst w) of (out, env', v') \<Rightarrow> (out, env', (v', snd w)))"

definition dlq_wiring ::
  "'uid json_type \<Rightarrow> go_time \<Rightarrow> string \<Rightarrow> int32 \<Rightarrow> int64 \<Rightarrow> int64 \<Rightarrow>
   ('uid, 'v \<times> 'k dlq_handler) dlq_callback" where
  "dlq_wiring uid now t p off n env err w =
     (case CreateConsumerDLQHandler uid now t p off n (Some env) (Some err) (snd w) of (panic, d') \<Rightarrow> (panic, (fst w, d')))"

lemma attempts_app_handler:
  "attempts h n env v = (outs, env', v') \<Longrightarrow> attempts (app_handler h) n env (v, d) = (outs, env', (v', d))"
proof (induction n arbitrary: env v outs env' v')
  case (Suc n)
  obtain out e1 v1 where h: "h env v = (out, e1, v1)" by (cases "h env v")
  show ?case
  proof (cases "outcome_error out")
    case None
    with Suc.prems h show ?thesis by (simp add: app_handler_def)
  next
    case (Some e)
    obtain outs2 e2 v2 where r: "attempts h n e1 v1 = (outs2, e2, v2)" by (cases "attempts h n e1 v1")
    from Suc.IH [OF r] Suc.prems h Some r show ?thesis by (simp add: app_handler_def)
  qed
qed simp

text \<open>What the wired callback does: it never panics, and it sends the dead letter if it can be encoded.\<close>

lemma dlq_wiring_effect:
  "case dlq_wiring uid now t p off n env err (v, d) of (panic, w') \<Rightarrow> panic = None \<and> fst w' = v \<and>
    sends (dh_trace (snd w')) = sends (dh_trace d) @
      (case json_Marshal_dlq uid (dlq_NewMessage now t p off (Some env) (Some err) n) of
         Inl _ \<Rightarrow> []
       | Inr data \<Rightarrow> [(dlq_producer_message t env (Some err) data,
           dlq_send_error d (dlq_producer_message t env (Some err) data))])"
proof -
  obtain d1 r where run: "dlq_Handle uid now t p off (Some env) (Some err) n d = (d1, r)" by fastforce
  show ?thesis
  proof (cases "json_Marshal_dlq uid (dlq_NewMessage now t p off (Some env) (Some err) n)")
    case (Inl e)
    from dlq_Handle_marshal_error [where h = d and uid = uid, OF Inl] obtain e' where
      "dlq_Handle uid now t p off (Some env) (Some err) n d = (d, Some e')" by blast
    with Inl show ?thesis by (simp add: dlq_wiring_def CreateConsumerDLQHandler_def)
  next
    case (Inr data)
    let ?m = "dlq_producer_message t env (Some err) data"
    from dlq_Handle_sends [where uid = uid, OF Inr run] have
      sent: "sends (dh_trace d1) = sends (dh_trace d) @ [(?m, dlq_send_error d ?m)]" by blast
    show ?thesis
      using run sent Inr by (cases r) (simp_all add: dlq_wiring_def CreateConsumerDLQHandler_def)
  qed
qed

lemma failed_message_run:
  assumes "unmarshal (msg_Value msg) = Inr env"
    and "registry_Get (con_registry c) (env_Type env) = Some (app_handler h)"
    and "con_DLQHandler c = Some (dlq_wiring uid now t p off n)"
    and "ses_world s = (v, d)"
    and "attempts h (nat (cc_MaxRetries (con_config c))) env v = (outs, env', v')"
    and "outs \<noteq> []" "outcome_error (last outs) = Some err"
  shows "\<exists>s'. processMessage unmarshal c msg s = (s', None) \<and>
    act_marks (ses_trace s') = act_marks (ses_trace s) @ [msg] \<and>
    act_deadletters (ses_trace s') = act_deadletters (ses_trace s) @ [(env', err)] \<and>
    sends (dh_trace (snd (ses_world s'))) = sends (dh_trace d) @
      (case json_Marshal_dlq uid (dlq_NewMessage now t p off (Some env') (Some err) n) of
         Inl _ \<Rightarrow> []
       | Inr data \<Rightarrow> [(dlq_producer_message t env' (Some err) data,
           dlq_send_error d (dlq_producer_message t env' (Some err) data))])"
proof -
  have at: "attempts (app_handler h) (nat (cc_MaxRetries (con_config c))) env (ses_world s) = (outs, env', (v', d))"
    using attempts_app_handler [OF assms(5)] assms(4) by simp
  have owed: "owed_deadletters c outs env' = [(env', err)]"
    using assms(3,6,7) by (simp add: owed_deadletters_def)
  from processMessage_shape [where unmarshal = unmarshal and c = c and msg = msg and s = s, OF assms(1,2) at]
  obtain s' panic pre where run: "processMessage unmarshal c msg s = (s', panic)"
    and tr: "ses_trace s' = ses_trace s @ pre @ [ADeadLetter env' err] @ (if panic = None then [AMark msg] else [])"
    and pre: "quiet pre" and cb: "(panic, ses_world s') = dlq_wiring uid now t p off n env' err (v', d)"
    unfolding owed deadletter_actions_simps using assms(3) by blast
  have eff: "panic = None"
    "sends (dh_trace (snd (ses_world s'))) = sends (dh_trace d) @
      (case json_Marshal_dlq uid (dlq_NewMessage now t p off (Some env') (Some err) n) of
         Inl _ \<Rightarrow> []
       | Inr data \<Rightarrow> [(dlq_producer_message t env' (Some err) data,
           dlq_send_error d (dlq_producer_message t env' (Some err) data))])"
    using dlq_wiring_effect [where uid = uid and now = now and t = t and p = p and off = off and n = n
        and env = env' and err = err and v = v' and d = d]
    unfolding cb [symmetric] prod.case by blast+
  with run tr pre show ?thesis by (auto simp: quiet_def)
qed

subsection \<open>A wired sample\<close>

definition sample_dlq :: "nat dlq_handler" where
  "sample_dlq = NewHandler sample_sync 0"

definition failing_handler :: "(nat, nat) handler" where
  "failing_handler env w = (Returned (Some sample_error), env, Suc w)"

definition wired_consumer :: "(nat, nat \<times> nat dlq_handler, unit) consumer" where
  "wired_consumer = \<lparr>con_client = (), con_config = consumer_DefaultConfig,
     con_registry = registry_RegisterWildcard (Some (app_handler failing_handler)) NewHandlerRegistry,
     con_DLQHandler = Some (dlq_wiring sample_uid time_zero ''txova.rides.v1'' 0 7 3)\<rparr>"

definition wired_session :: "nat dlq_handler \<Rightarrow> (nat, nat \<times> nat dlq_handler) session" where
  "wired_session d = \<lparr>ses_world = (0, d), ses_trace = []\<rparr>"

lemma wired_facts:
  "registry_Get (con_registry wired_consumer) t = Some (app_handler failing_handler)"
  "con_DLQHandler wired_consumer = Some (dlq_wiring sample_uid time_zero ''txova.rides.v1'' 0 7 3)"
  "ses_world (wired_session d) = (0, d)"
  "cc_MaxRetries (con_config wired_consumer) = 3"
  by (simp_all add: wired_consumer_def wired_session_def registry_Get_def registry_RegisterWildcard_def
      NewHandlerRegistry_def gomap.lookup_empty consumer_DefaultConfig_def)

lemma failing_attempts:
  "attempts failing_handler 3 env 0 = (replicate 3 (Returned (Some sample_error)), env, 3)"
  by (simp add: eval_nat_numeral failing_handler_def outcome_error_def)

lemma time_UTC_zero [simp]: "time_UTC time_zero = time_zero"
  by (simp add: time_UTC_def time_zero_def)

lemma sample_dlq_wire:
  assumes "dm_Envelope m = Some sample_envelope" "dm_ErrorMessage m = error_text sample_error"
    "dm_OriginalTopic m = ''txova.rides.v1''" "dm_FirstFailure m = time_UTC time_zero" "dm_LastFailure m = time_UTC time_zero"
  shows "dlq_wire d (\<lambda>_. True) m"
  using assms by (simp add: dlq_wire_def printable_time_zero sample_envelope_wire sample_error_def is_ascii_def)

subsection \<open>Properties\<close>

text \<open>
  C3: When a handler fails on every attempt, the wired consumer hands one dead letter to Kafka
  (if it can be encoded), on the dead letter topic, carrying the envelope and the text of the
  last error. It marks the message in any case: also when the encoding failed or Kafka refused
  the dead letter, so that the event is then in neither topic. The partition, offset and attempt
  count recorded are the arguments the callback was created with, whatever the message's are.
\<close>

theorem failed_event_dead_lettered_and_marked:
  assumes "unmarshal (msg_Value msg) = Inr env"
    and "registry_Get (con_registry c) (env_Type env) = Some (app_handler h)"
    and "con_DLQHandler c = Some (dlq_wiring uid now t p off n)"
    and "ses_world s = (v, d)"
    and "attempts h (nat (cc_MaxRetries (con_config c))) env v = (outs, env', v')"
    and "outs \<noteq> []" "outcome_error (last outs) = Some err"
  shows "\<exists>s' m. processMessage unmarshal c msg s = (s', None) \<and>
    act_marks (ses_trace s') = act_marks (ses_trace s) @ [msg] \<and>
    dm_Envelope m = Some env' \<and> dm_ErrorMessage m = error_text err \<and> dm_OriginalTopic m = t \<and>
    dm_OriginalPartition m = p \<and> dm_OriginalOffset m = off \<and> dm_AttemptCount m = n \<and>
    dm_FirstFailure m = time_UTC now \<and> dm_LastFailure m = time_UTC now \<and>
    (case json_Marshal_dlq uid m of
       Inl _ \<Rightarrow> sends (dh_trace (snd (ses_world s'))) = sends (dh_trace d)
     | Inr data \<Rightarrow> (\<exists>pm res. sends (dh_trace (snd (ses_world s'))) = sends (dh_trace d) @ [(pm, res)] \<and>
         res = dlq_send_error d pm \<and> pm_Value pm = data \<and> pm_Topic pm = Topic_DLQ t \<and> pm_Key pm = env_ID env'))"
proof -
  let ?m = "dlq_NewMessage now t p off (Some env') (Some err) n"
  from failed_message_run [where unmarshal = unmarshal and uid = uid, OF assms] obtain s' where
    run: "processMessage unmarshal c msg s = (s', None)" "act_marks (ses_trace s') = act_marks (ses_trace s) @ [msg]"
    and sent: "sends (dh_trace (snd (ses_world s'))) = sends (dh_trace d) @
      (case json_Marshal_dlq uid ?m of Inl _ \<Rightarrow> [] | Inr data \<Rightarrow> [(dlq_producer_message t env' (Some err) data,
           dlq_send_error d (dlq_producer_message t env' (Some err) data))])" by blast
  have "case json_Marshal_dlq uid ?m of
       Inl _ \<Rightarrow> sends (dh_trace (snd (ses_world s'))) = sends (dh_trace d)
     | Inr data \<Rightarrow> (\<exists>pm res. sends (dh_trace (snd (ses_world s'))) = sends (dh_trace d) @ [(pm, res)] \<and>
         res = dlq_send_error d pm \<and> pm_Value pm = data \<and> pm_Topic pm = Topic_DLQ t \<and> pm_Key pm = env_ID env')"
    using sent by (auto simp: dlq_producer_message_def Topic_String_def split: sum.splits)
  with run show ?thesis by (intro exI [of _ s'] exI [of _ ?m]) simp
qed

text \<open>The witness: a Kafka producer that has already taken two messages refuses the dead letter.\<close>

theorem failed_event_dead_lettered_and_marked_witness:
  "\<exists>s' pm. processMessage (\<lambda>b. Inr sample_envelope) wired_consumer sample_message (wired_session (sample_dlq\<lparr>dh_client := 2\<rparr>)) = (s', None) \<and>
     act_marks (ses_trace s') = [sample_message] \<and>
     sends (dh_trace (snd (ses_world s'))) = [(pm, Some (ErrValue ''kafka'' ''ErrOut'' ''out''))]"
proof -
  let ?d = "sample_dlq\<lparr>dh_client := 2\<rparr>"
  have at: "attempts failing_handler (nat (cc_MaxRetries (con_config wired_consumer))) sample_envelope 0 =
      (replicate 3 (Returned (Some sample_error)), sample_envelope, 3)"
    by (simp add: wired_facts failing_attempts)
  have "replicate 3 (Returned (Some sample_error)) \<noteq> []"
    "outcome_error (last (replicate 3 (Returned (Some sample_error)))) = Some sample_error"
    by (simp_all add: outcome_error_def)
  from failed_event_dead_lettered_and_marked [where unmarshal = "\<lambda>b. Inr sample_envelope" and msg = sample_message
      and uid = sample_uid and c = wired_consumer and s = "wired_session ?d", OF refl wired_facts(1,2,3) at this]
  obtain s' m where r: "processMessage (\<lambda>b. Inr sample_envelope) wired_consumer sample_message (wired_session ?d) = (s', None)"
    "act_marks (ses_trace s') = act_marks (ses_trace (wired_session ?d)) @ [sample_message]"
    and m: "dm_Envelope m = Some sample_envelope" "dm_ErrorMessage m = error_text sample_error"
      "dm_OriginalTopic m = ''txova.rides.v1''" "dm_FirstFailure m = time_UTC time_zero" "dm_LastFailure m = time_UTC time_zero"
    and sent: "case json_Marshal_dlq sample_uid m of
       Inl _ \<Rightarrow> sends (dh_trace (snd (ses_world s'))) = sends (dh_trace ?d)
     | Inr data \<Rightarrow> (\<exists>pm res. sends (dh_trace (snd (ses_world s'))) = sends (dh_trace ?d) @ [(pm, res)] \<and>
         res = dlq_send_error ?d pm \<and> pm_Value pm = data \<and> pm_Topic pm = Topic_DLQ ''txova.rides.v1'' \<and>
         pm_Key pm = env_ID sample_envelope)"
    by blast
  from m have "dlq_wire 0 (\<lambda>_. True) m" by (rule sample_dlq_wire)
  from dlq_message_roundtrip [OF sample_uid_law [of 0] _ this] obtain data where "json_Marshal_dlq sample_uid m = Inr data"
    by (auto simp: maxNestingDepth_def)
  with sent obtain pm where "sends (dh_trace (snd (ses_world s'))) = sends (dh_trace ?d) @ [(pm, dlq_send_error ?d pm)]"
    by auto
  with r show ?thesis
    by (intro exI [of _ s'] exI [of _ pm])
      (simp add: wired_session_def sample_dlq_def NewHandler_def dlq_send_error_def sample_sync_def)
qed

text \<open>
  C14: What Kafka accepted as a dead letter comes back: a replayer without filter that receives
  it and decodes it calls the replay handler with the envelope the failing handler left, and
  with the text of its last error and the original coordinates beside it, for an envelope, error
  text and clock that JSON can carry.
\<close>

theorem dead_letter_replayed:
  assumes "jt_law d P uid" "Suc (Suc (Suc d)) \<le> maxNestingDepth"
    and "envelope_wire d P env" "valid_utf8 t" "valid_utf8 (error_text err)" "printable_time (time_UTC now)"
    and "dlq_Handle uid now t p off (Some env) (Some err) n dh = (dh', None)"
  shows "\<exists>pm. sends (dh_trace dh') = sends (dh_trace dh) @ [(pm, None)] \<and>
    (\<forall>msg r s s' e. msg_Value msg = pm_Value pm \<and> replay_processMessage (json_Unmarshal_dlq uid) r None msg s = (s', e) \<longrightarrow>
      (\<exists>m out. replay_invocations (rs_trace s') = replay_invocations (rs_trace s) @ [(m, out)] \<and>
         dm_Envelope m = Some env \<and> dm_ErrorMessage m = error_text err \<and> dm_OriginalTopic m = t \<and>
         dm_OriginalPartition m = p \<and> dm_OriginalOffset m = off \<and> dm_AttemptCount m = n))"
proof -
  let ?m = "dlq_NewMessage now t p off (Some env) (Some err) n"
  have "dlq_wire d P ?m" using assms(3-6) by (simp add: dlq_wire_def)
  from dlq_message_roundtrip [OF assms(1,2) this] obtain data where
    enc: "json_Marshal_dlq uid ?m = Inr data" "json_Unmarshal_dlq uid data = Inr ?m" by blast
  let ?pm = "dlq_producer_message t env (Some err) data"
  from dlq_Handle_sends [where uid = uid, OF enc(1) assms(7)]
  have sent: "sends (dh_trace dh') = sends (dh_trace dh) @ [(?pm, None)]" by auto
  have "\<exists>m out. replay_invocations (rs_trace s') = replay_invocations (rs_trace s) @ [(m, out)] \<and>
         dm_Envelope m = Some env \<and> dm_ErrorMessage m = error_text err \<and> dm_OriginalTopic m = t \<and>
         dm_OriginalPartition m = p \<and> dm_OriginalOffset m = off \<and> dm_AttemptCount m = n"
    if "msg_Value msg = pm_Value ?pm" "replay_processMessage (json_Unmarshal_dlq uid) r None msg s = (s', e)" for msg r s s' e
  proof -
    from that(1) enc(2) have "json_Unmarshal_dlq uid (msg_Value msg) = Inr ?m" by (simp add: dlq_producer_message_def)
    with that(2) have "replay_message r msg ?m (incrementConsumed s) = (s', e)"
      by (simp add: replay_processMessage_def Let_def)
    from replay_message_calls [OF this] show ?thesis by (auto intro!: exI [of _ ?m])
  qed
  with sent show ?thesis by (intro exI [of _ ?pm]) blast
qed

theorem dead_letter_replayed_witness:
  "\<exists>pm dh'. dlq_Handle sample_uid time_zero ''txova.rides.v1'' 0 7 (Some sample_envelope) (Some sample_error) 3 sample_dlq =
      (dh', None) \<and> sends (dh_trace dh') = [(pm, None)] \<and>
    (\<exists>s' e m out. replay_processMessage (json_Unmarshal_dlq sample_uid)
         sample_replayer None (letter_message (pm_Value pm) 0) (sample_replay_session 1) = (s', e) \<and>
       replay_invocations (rs_trace s') = [(m, out)] \<and> dm_Envelope m = Some sample_envelope)"
proof -
  let ?m = "dlq_NewMessage time_zero ''txova.rides.v1'' 0 7 (Some sample_envelope) (Some sample_error) 3"
  have "dlq_wire 0 (\<lambda>_. True) ?m" by (rule sample_dlq_wire) simp_all
  from dlq_message_roundtrip [OF sample_uid_law [of 0] _ this] obtain data where enc: "json_Marshal_dlq sample_uid ?m = Inr data"
    by (auto simp: maxNestingDepth_def)
  obtain dh' r where run: "dlq_Handle sample_uid time_zero ''txova.rides.v1'' 0 7 (Some sample_envelope)
      (Some sample_error) 3 sample_dlq = (dh', r)" by fastforce
  from dlq_Handle_sends [where uid = sample_uid, OF enc run] have "r = None"
    by (simp add: dlq_send_error_def sample_dlq_def NewHandler_def sample_sync_def)
  with run have ok: "dlq_Handle sample_uid time_zero ''txova.rides.v1'' 0 7 (Some sample_envelope)
      (Some sample_error) 3 sample_dlq = (dh', None)" by simp
  have pre: "Suc (Suc (Suc 0)) \<le> maxNestingDepth" "valid_utf8 ''txova.rides.v1''" "valid_utf8 (error_text sample_error)"
    "printable_time (time_UTC time_zero)"
    by (simp_all add: maxNestingDepth_def is_ascii_def sample_error_def printable_time_zero)
  from dead_letter_replayed [OF sample_uid_law pre(1) sample_envelope_wire pre(2,3,4) ok] obtain pm where
    pm: "sends (dh_trace dh') = sends (dh_trace sample_dlq) @ [(pm, None)]"
    and rep: "\<And>msg r s s' e. msg_Value msg = pm_Value pm \<Longrightarrow>
      replay_processMessage (json_Unmarshal_dlq sample_uid) (r :: (nat, nat, unit) replayer) None msg s = (s', e) \<Longrightarrow>
      \<exists>m out. replay_invocations (rs_trace s') = replay_invocations (rs_trace s) @ [(m, out)] \<and> dm_Envelope m = Some sample_envelope"
    by blast
  obtain s' e where r: "replay_processMessage (json_Unmarshal_dlq sample_uid) sample_replayer None (letter_message (pm_Value pm) 0)
      (sample_replay_session 1) = (s', e)" by fastforce
  have "msg_Value (letter_message (pm_Value pm) 0) = pm_Value pm" by (simp add: letter_message_def)
  from rep [OF this r] obtain m out where "replay_invocations (rs_trace s') = [(m, out)]" "dm_Envelope m = Some sample_envelope"
    by (auto simp: sample_replay_session_def)
  moreover have "sends (dh_trace dh') = [(pm, None)]" using pm by (simp add: sample_dlq_def NewHandler_def)
  ultimately show ?thesis using ok r by blast
qed

text \<open>
  C13: What a producer published reaches the handler: an envelope that \<open>Publish\<close> accepted,
  received by a consumer that has a handler for the event's type and at least one attempt, is what
  the handler is first called with, before anything else is done for the message: the JSON of an
  envelope whose texts are UTF-8, whose time JSON can print and whose payload is compact is
  decoded to the same envelope.
\<close>

theorem published_event_reaches_handler:
  assumes "jt_law d P uid" "Suc (Suc d) \<le> maxNestingDepth" "envelope_wire d P env"
    and "Publish (marshal_envelope uid) (Some env) key p = (p', None)"
    and "registry_Get (con_registry c) (env_Type env) = Some h" "1 \<le> cc_MaxRetries (con_config c)"
  shows "\<exists>pm. sends (prod_trace p') = sends (prod_trace p) @ [(pm, None)] \<and> Topic_Valid (pm_Topic pm) \<and>
    (\<forall>msg s. msg_Value msg = pm_Value pm \<longrightarrow>
      (\<exists>s' panic rest. processMessage (unmarshal_envelope uid) c msg s = (s', panic) \<and>
         ses_trace s' = ses_trace s @ AInvoke env (fst (h env (ses_world s))) # rest))"
proof -
  from envelope_roundtrip [OF assms(1-3)] obtain data where
    enc: "marshal_envelope uid env = Inr data" "unmarshal_envelope uid data = Inr env" by blast
  let ?pm = "message_for (marshal_envelope uid) (ForEventType (env_Type env)) env key"
  from Publish_ok [OF assms(4)] have t: "ForEventType (env_Type env) \<noteq> []" "deliverable (marshal_envelope uid) (Some env) p"
    and sent: "sends (prod_trace p') = sends (prod_trace p) @ [(?pm, None)]"
    by auto
  have "unmarshal_envelope uid (msg_Value msg) = Inr env" if "msg_Value msg = pm_Value ?pm" for msg
    using that enc by (simp add: message_for_def envelope_message_def)
  note run = processMessage_first_call [where unmarshal = "unmarshal_envelope uid", OF this assms(5,6)]
  have "Topic_Valid (pm_Topic ?pm)"
    using t ForEventType_Topic_Valid_iff [of "env_Type env"]
    by (simp add: message_for_def envelope_message_def Topic_String_def)
  with sent run show ?thesis by (intro exI [of _ ?pm]) blast
qed

theorem published_event_reaches_handler_witness:
  "\<exists>p' pm s' panic rest. Publish (marshal_envelope sample_uid) (Some sample_envelope) ''k'' sample_producer = (p', None) \<and>
     sends (prod_trace p') = [(pm, None)] \<and>
     processMessage (unmarshal_envelope sample_uid) (sample_consumer 3 None) (sample_message\<lparr>msg_Value := pm_Value pm\<rparr>)
       sample_session = (s', panic) \<and>
     ses_trace s' = AInvoke sample_envelope (Returned (Some sample_error)) # rest"
proof -
  let ?u = "unmarshal_envelope sample_uid" and ?m = "marshal_envelope sample_uid"
  have t: "ForEventType (env_Type sample_envelope) \<noteq> []"
    by (simp add: sample_envelope_def ForEventType_def EventType_Domain_takeWhile Rides_def)
  have del: "deliverable ?m (Some sample_envelope) sample_producer"
    using sample_envelope_ok sample_envelope_json by (auto simp: deliverable_def sample_producer_def)
  obtain p' r where run: "Publish ?m (Some sample_envelope) ''k'' sample_producer = (p', r)" by fastforce
  with t have "PublishToTopic ?m (ForEventType (env_Type sample_envelope)) (Some sample_envelope) ''k'' sample_producer = (p', r)"
    by (simp add: Publish_Some)
  from PublishToTopic_deliverable(2) [OF del this] have "r = None"
    by (simp add: send_error_def sample_producer_def sample_sync_def)
  with run have ok: "Publish ?m (Some sample_envelope) ''k'' sample_producer = (p', None)" by simp
  have max: "1 \<le> cc_MaxRetries (con_config (sample_consumer 3 None))" "Suc (Suc 0) \<le> maxNestingDepth"
    by (simp_all add: maxNestingDepth_def)
  from published_event_reaches_handler [OF sample_uid_law max(2) sample_envelope_wire ok sample_Get max(1)]
  obtain pm where pm: "sends (prod_trace p') = sends (prod_trace sample_producer) @ [(pm, None)]"
    and con: "\<And>msg s. msg_Value msg = pm_Value pm \<Longrightarrow>
      \<exists>s' panic rest. processMessage ?u (sample_consumer 3 None) msg s = (s', panic) \<and>
         ses_trace s' = ses_trace s @ AInvoke sample_envelope (fst (flaky_handler sample_envelope (ses_world s))) # rest"
    by blast
  have "msg_Value (sample_message\<lparr>msg_Value := pm_Value pm\<rparr>) = pm_Value pm" by simp
  from con [OF this, of sample_session] obtain s' panic rest where
    "processMessage ?u (sample_consumer 3 None) (sample_message\<lparr>msg_Value := pm_Value pm\<rparr>) sample_session = (s', panic)"
    "ses_trace s' = AInvoke sample_envelope (Returned (Some sample_error)) # rest"
    by (auto simp: flaky_handler_def)
  moreover have "sends (prod_trace p') = [(pm, None)]" using pm by (simp add: sample_producer_def)
  ultimately show ?thesis using ok by blast
qed

end
