(* ===== verification/JsonArray.thy ===== *)
theory JsonArray
  imports JsonTypes
begin

section \<open>JSON arrays\<close>

text \<open>How a slice is printed and read: the text of an array, its elements, and the round-trip law.\<close>

fun json_elems :: "bytes list \<Rightarrow> bytes" where
  "json_elems [] = []"
| "json_elems [v] = v"
| "json_elems (v # w # vs) = v @ CHR '','' # json_elems (w # vs)"

definition json_array :: "bytes list \<Rightarrow> bytes" where
  "json_array vs = CHR ''['' # json_elems vs @ [CHR '']'']"

text \<open>The loop of the decoder after the opening bracket; \<open>None\<close> is the out-of-sync panic.\<close>

function read_elems :: "bytes \<Rightarrow> bytes list option" where
  "read_elems s =
     (let (v, r) = next_value s in
      case skip_space r of
        [] \<Rightarrow> None
      | c # r1 \<Rightarrow>
         if c = CHR '']'' then Some [v]
         else if c = CHR '','' then map_option (Cons v) (read_elems r1)
         else None)"
  by pat_completeness auto
termination
proof (relation "measure length", goal_cases)
  case (2 s p v r c r1)
  then have "next_value s = (v, r)" by auto
  from next_value_length [OF this] 2 skip_space_length [of r] show ?case by auto
qed simp

declare read_elems.simps [simp del]

definition arr_elems :: "bytes \<Rightarrow> bytes list option" where
  "arr_elems s = (case skip_space s of
     [] \<Rightarrow> None
   | c # r \<Rightarrow>
      if c \<noteq> CHR ''['' then None
      else (case skip_space r of
          [] \<Rightarrow> None
        | e # _ \<Rightarrow> if e = CHR '']'' then Some [] else read_elems r))"

fun enc_all :: "('a \<Rightarrow> go_error + bytes) \<Rightarrow> 'a list \<Rightarrow> go_error + bytes list" where
  "enc_all f [] = Inr []"
| "enc_all f (x # xs) = (case f x of
     Inl e \<Rightarrow> Inl e
   | Inr v \<Rightarrow> (case enc_all f xs of Inl e \<Rightarrow> Inl e | Inr vs \<Rightarrow> Inr (v # vs)))"

text \<open>
  An element is decoded into the slice's present element, or into a new zero one. Where the
  decoding is given up, the present elements behind it stay.
\<close>

fun dec_all :: "'a json_type \<Rightarrow> json_ctx \<Rightarrow> bytes list \<Rightarrow> 'a list \<Rightarrow> 'a list \<times> dec_status" where
  "dec_all T ctx [] cur = ([], DecOk)"
| "dec_all T ctx (v # vs) cur =
     (case jt_dec T ctx v (case cur of [] \<Rightarrow> jt_zero T | c # _ \<Rightarrow> c) of
        (a, DecAbort e) \<Rightarrow> (a # tl cur, DecAbort e)
      | (a, st) \<Rightarrow> (case dec_all T ctx vs (tl cur) of (as, st2) \<Rightarrow> (a # as, dec_then st st2)))"

text \<open>A slice may be nil, which is printed as \<open>null\<close>.\<close>

definition jt_slice :: "string \<Rightarrow> 'a json_type \<Rightarrow> 'a list option json_type" where
  "jt_slice ty T = \<lparr>jt_enc = (\<lambda>p. case p of
        None \<Rightarrow> Inr ''null''
      | Some xs \<Rightarrow> map_sum id json_array (enc_all (jt_enc T) xs)),
     jt_dec = (\<lambda>ctx v p. case value_kind v of
        KNull \<Rightarrow> (None, DecOk)
      | KArray \<Rightarrow> (case arr_elems v of
            None \<Rightarrow> (p, DecAbort json_phase_error)
          | Some vs \<Rightarrow> (case dec_all T ctx vs (case p of None \<Rightarrow> [] | Some xs \<Rightarrow> xs) of (xs, st) \<Rightarrow> (Some xs, st)))
      | k \<Rightarrow> (p, DecSaved (json_type_error (kind_name k) ty ctx))),
     jt_zero = None\<rparr>"

lemma jt_zero_slice [simp]: "jt_zero (jt_slice ty T) = None"
  by (simp add: jt_slice_def)

subsection \<open>What is printed is clean\<close>

lemma kept_brackets [simp]: "kept (CHR ''['') s" "kept (CHR '']'') s"
  by (simp_all add: kept_def html_char_def json_space_def)

lemma clean_value_first:
  assumes "clean_value d v"
  shows "\<exists>c r. v = c # r \<and> \<not> json_space c \<and> c \<noteq> CHR '']''"
proof -
  obtain c r where v: "v = c # r" "\<not> json_space c" using clean_value_head [OF assms] by blast
  with assms have "scan_step c (BeginValue, []) \<noteq> None" by (auto simp: clean_value_def split: if_splits option.splits)
  with v(2) have "c \<noteq> CHR '']''" by (auto simp: begin_value_def scalar_start_def digit19_def)
  with v show ?thesis by blast
qed

lemma clean_first:
  assumes "clean_value d v"
  shows "clean_run k v (BeginValueOrEmpty, stk) = clean_run k v (BeginValue, stk)"
proof -
  obtain c r where "v = c # r" "\<not> json_space c" "c \<noteq> CHR '']''" using clean_value_first [OF assms] by blast
  then show ?thesis by (simp add: kept_def)
qed

lemma elems_run:
  "vs \<noteq> [] \<Longrightarrow> list_all (clean_value d) vs \<Longrightarrow> Suc d \<le> maxNestingDepth \<Longrightarrow> st = BeginValue \<or> st = BeginValueOrEmpty \<Longrightarrow>
   \<exists>s. clean_run (Suc d) (json_elems vs) (st, [ArrayValue]) = Some (lift [ArrayValue] s) \<and> value_end s"
proof (induction vs arbitrary: st rule: json_elems.induct)
  case (2 v)
  then obtain s where "clean_run (d + 1) v (BeginValue, [ArrayValue]) = Some (lift [ArrayValue] s)" "value_end s"
    using clean_value_in_context [of d v "[ArrayValue]"] by auto
  with 2 clean_first [of d v "Suc d" "[ArrayValue]"] show ?case by (intro exI [of _ s]) auto
next
  case (3 v w vs)
  then obtain s where s: "clean_run (d + 1) v (BeginValue, [ArrayValue]) = Some (lift [ArrayValue] s)" "value_end s"
    using clean_value_in_context [of d v "[ArrayValue]"] by auto
  with 3 clean_first [of d v "Suc d" "[ArrayValue]"] have
    run: "clean_run (Suc d) v (st, [ArrayValue]) = Some (lift [ArrayValue] s)" by auto
  from value_end_delim [OF s(2), of "CHR '',''" "[ArrayValue]"]
  have step: "scan_step (CHR '','') (lift [ArrayValue] s) = Some (BeginValue, [ArrayValue])" by (simp add: end_value_def)
  from 3 obtain s2 where s2: "clean_run (Suc d) (json_elems (w # vs)) (BeginValue, [ArrayValue]) = Some (lift [ArrayValue] s2)"
    "value_end s2" by fastforce
  have "clean_run (Suc d) (json_elems (v # w # vs)) (st, [ArrayValue]) = Some (lift [ArrayValue] s2)"
    using run step s2(1) by (simp add: clean_run_append)
  with s2(2) show ?case by blast
qed simp

lemma no_sep_elems: "list_all (clean_value d) vs \<Longrightarrow> no_sep (json_elems vs @ [CHR '']''])"
proof (induction vs rule: json_elems.induct)
  case (2 v)
  then have "no_sep v" by (simp add: clean_value_def)
  then show ?case by (simp, intro no_sep_append) (simp_all add: sep_at_def is_ascii_def)
next
  case (3 v w vs)
  then have "no_sep v" "no_sep (json_elems (w # vs) @ [CHR '']''])" by (simp_all add: clean_value_def)
  then have "no_sep (v @ CHR '','' # json_elems (w # vs) @ [CHR '']''])"
    by (intro no_sep_append) (simp_all add: sep_at_def is_ascii_def split: list.splits)
  then show ?case by simp
qed (simp add: sep_at_def)

lemma clean_array:
  assumes "list_all (clean_value d) vs" "Suc d \<le> maxNestingDepth"
  shows "clean_value (Suc d) (json_array vs)"
proof -
  have open_arr: "scan_step (CHR ''['') (BeginValue, []) = Some (BeginValueOrEmpty, [ArrayValue])"
    using assms(2) by (simp add: begin_value_def push_state_def json_space_def)
  have "clean_run (Suc d) (json_array vs) (BeginValue, []) = Some (EndTop, [])"
  proof (cases "vs = []")
    case True
    with open_arr show ?thesis by (simp add: json_array_def end_value_def pop_state_def)
  next
    case False
    from elems_run [OF False assms, of BeginValueOrEmpty] obtain s where
      s: "clean_run (Suc d) (json_elems vs) (BeginValueOrEmpty, [ArrayValue]) = Some (lift [ArrayValue] s)" "value_end s"
      by auto
    from value_end_delim [OF s(2), of "CHR '']''" "[ArrayValue]"]
    have "scan_step (CHR '']'') (lift [ArrayValue] s) = Some (EndTop, [])" by (simp add: end_value_def pop_state_def)
    with open_arr s show ?thesis by (simp add: json_array_def clean_run_append)
  qed
  moreover have "no_sep (json_array vs)"
    using no_sep_elems [OF assms(1)] by (simp add: json_array_def sep_at_def split: list.splits)
  ultimately show ?thesis by (simp add: clean_value_def value_end_def)
qed

subsection \<open>What is printed is read\<close>

lemma read_elems_printed:
  "vs \<noteq> [] \<Longrightarrow> list_all (clean_value d) vs \<Longrightarrow> read_elems (json_elems vs @ CHR '']'' # rest) = Some vs"
proof (induction vs rule: json_elems.induct)
  case (2 v)
  then have "next_value (v @ CHR '']'' # rest) = (v, CHR '']'' # rest)" by (intro next_value_clean) auto
  then show ?case by (simp add: read_elems.simps [of "v @ CHR '']'' # rest"])
next
  case (3 v w vs)
  let ?r = "json_elems (w # vs) @ CHR '']'' # rest"
  from 3 have "next_value (v @ CHR '','' # ?r) = (v, CHR '','' # ?r)" by (intro next_value_clean) auto
  with 3 show ?case by (simp add: read_elems.simps [of "v @ CHR '','' # ?r"])
qed simp

lemma arr_elems_printed: "list_all (clean_value d) vs \<Longrightarrow> arr_elems (json_array vs) = Some vs"
proof -
  assume vs: "list_all (clean_value d) vs"
  show ?thesis
  proof (cases vs)
    case Nil
    then show ?thesis by (simp add: arr_elems_def json_array_def json_space_def)
  next
    case (Cons v ws)
    with vs have v: "clean_value d v" by simp
    obtain c r where c: "v = c # r" "\<not> json_space c" and nb: "c \<noteq> CHR '']''" using clean_value_first [OF v] by blast
    obtain r2 where "json_elems vs @ [CHR '']''] = c # r2" using c(1) Cons by (cases ws) auto
    with c(2) nb have "arr_elems (json_array vs) = read_elems (json_elems vs @ [CHR '']''])"
      by (simp add: arr_elems_def json_array_def json_space_def)
    with read_elems_printed [of vs d "[]"] vs Cons show ?thesis by simp
  qed
qed

lemma enc_all_law:
  "jt_law d P T \<Longrightarrow> list_all P xs \<Longrightarrow> \<exists>vs. enc_all (jt_enc T) xs = Inr vs \<and> list_all (clean_value d) vs \<and>
     (\<forall>ctx. dec_all T ctx vs [] = (xs, DecOk))"
proof (induction xs)
  case (Cons x xs)
  then obtain v where v: "jt_enc T x = Inr v" "clean_value d v" "\<And>ctx. jt_dec T ctx v (jt_zero T) = (x, DecOk)"
    using jt_lawD [OF Cons.prems(1), of x] by auto
  from Cons obtain vs where "enc_all (jt_enc T) xs = Inr vs" "list_all (clean_value d) vs"
    "\<And>ctx. dec_all T ctx vs [] = (xs, DecOk)" by auto
  with v show ?case by simp
qed simp

lemma slice_law:
  assumes "jt_law d P T" "Suc d \<le> maxNestingDepth"
  shows "jt_law (Suc d) (\<lambda>p. case p of None \<Rightarrow> True | Some xs \<Rightarrow> list_all P xs) (jt_slice ty T)"
  unfolding jt_law_def
proof (intro allI impI)
  fix p assume p: "case p of None \<Rightarrow> True | Some xs \<Rightarrow> list_all P xs"
  show "\<exists>v. jt_enc (jt_slice ty T) p = Inr v \<and> clean_value (Suc d) v \<and>
    (\<forall>ctx. jt_dec (jt_slice ty T) ctx v (jt_zero (jt_slice ty T)) = (p, DecOk))"
  proof (cases p)
    case None
    then show ?thesis by (simp add: jt_slice_def clean_null value_kind_def)
  next
    case (Some xs)
    with p enc_all_law [OF assms(1), of xs] obtain vs where vs: "enc_all (jt_enc T) xs = Inr vs" "list_all (clean_value d) vs"
      "\<And>ctx. dec_all T ctx vs [] = (xs, DecOk)" by auto
    have "value_kind (json_array vs) = KArray" by (simp add: json_array_def value_kind_def)
    with Some vs clean_array [OF vs(2) assms(2)] arr_elems_printed [OF vs(2)] show ?thesis
      by (simp add: jt_slice_def)
  qed
qed

end
