(* ===== verification/EventCodec.thy ===== *)
theory EventCodec
  imports JsonTime JsonArray EventTypes
begin

section \<open>What the payload codecs share\<close>

text \<open>
  The round-trip law at one value, for the field types that the event payloads use, and the rule
  by which a struct inherits it from its fields.
\<close>

lemma law_at_mono: "law_at d T a \<Longrightarrow> d \<le> d' \<Longrightarrow> law_at d' T a"
  unfolding law_at_def by (meson clean_value_mono)

lemma string_at: "valid_utf8 s \<Longrightarrow> law_at d (jt_string ty) s"
  by (rule law_atI [OF string_law])

lemma int_at: "law_at d (jt_int ty :: 'w :: len word json_type) w"
  by (rule law_atI [OF int_law TrueI])

lemma time_at: "printable_time t \<Longrightarrow> law_at d jt_time t"
  by (rule law_atI [OF time_law])

definition nonnull_at :: "'a json_type \<Rightarrow> 'a \<Rightarrow> bool" where
  "nonnull_at T a \<longleftrightarrow> (\<forall>v. jt_enc T a = Inr v \<longrightarrow> value_kind v \<noteq> KNull)"

lemma ptr_at:
  assumes "\<And>a. p = Some a \<Longrightarrow> law_at d T a \<and> nonnull_at T a"
  shows "law_at d (jt_ptr T) p"
proof -
  have "jt_law d (\<lambda>a. p = Some a) T" "jt_nonnull (\<lambda>a. p = Some a) T"
    using assms by (auto simp: jt_law_def law_at_def jt_nonnull_def nonnull_at_def)
  from law_atI [OF ptr_law [OF this], of p] show ?thesis by (simp split: option.splits)
qed

lemma slice_at:
  assumes "\<And>xs. p = Some xs \<Longrightarrow> \<forall>x \<in> set xs. law_at d T x" "Suc (Suc d) \<le> maxNestingDepth"
  shows "law_at (Suc d) (jt_slice ty T) p"
proof -
  have "jt_law d (law_at d T) T" by (simp add: jt_law_def law_at_def)
  from assms(2) law_atI [OF slice_law [OF this], of p] show ?thesis
    using assms(1) by (simp add: list_all_iff split: option.splits)
qed

lemma string_slice_at:
  assumes "\<And>xs. p = Some xs \<Longrightarrow> \<forall>x \<in> set xs. valid_utf8 x" "Suc (Suc d) \<le> maxNestingDepth"
  shows "law_at (Suc d) (jt_slice ty (jt_string ty')) p"
  using assms string_at by (blast intro: slice_at)

lemmas payload_rules = fields_ok_rules string_at int_at time_at ptr_at string_slice_at slice_at

lemma struct_at:
  assumes "fields_ok d r fs zero r'" "r' = r" "distinct (map fl_name fs)" "list_all (valid_utf8 \<circ> fl_name) fs"
    "Suc d \<le> maxNestingDepth"
  shows "law_at (Suc d) (jt_struct pkg sname fs zero) r"
proof -
  have "jt_law (Suc d) ((=) r) (jt_struct pkg sname fs zero)"
    using fields_lawI [OF assms(1-4)] by (intro struct_law assms(5)) auto
  then show ?thesis by (rule law_atI) simp
qed

text \<open>The law at a value is the round trip through the two entry points.\<close>

lemma law_at_Unmarshal:
  assumes "law_at d T a"
  shows "\<exists>v. json_Marshal T a = Inr v \<and> clean_value d v \<and> json_Unmarshal T v (jt_zero T) = (None, a)"
proof -
  have "jt_law d ((=) a) T" using assms by (auto simp: jt_law_def law_at_def)
  from Unmarshal_Marshal [OF this] show ?thesis by blast
qed

end
