(* ===== verification/UserEvents.thy ===== *)
theory UserEvents
  imports EventCodec
begin

section \<open>User event payloads (events/user.go)\<close>

text \<open>
  The payloads of the events about users, their JSON form by their struct tags, and that a payload
  whose parts JSON can carry is read back as it was printed. The identifiers, enumerations and
  values of other modules are type parameters with their codecs.
\<close>

record ('uid, 'phone, 'utype, 'email) UserRegistered =
  UserRegistered_UserID :: 'uid
  UserRegistered_Phone :: 'phone
  UserRegistered_UserType :: 'utype
  UserRegistered_Email :: "'email option"
  UserRegistered_Name :: string

definition UserRegistered_fields ::
  "'uid json_type \<Rightarrow> 'phone json_type \<Rightarrow> 'utype json_type \<Rightarrow> 'email json_type \<Rightarrow> ('uid, 'phone, 'utype, 'email) UserRegistered json_field list" where
  "UserRegistered_fields user_id phone_number user_type email =
    [field ''user_id'' user_id UserRegistered_UserID UserRegistered_UserID_update,
     field ''phone'' phone_number UserRegistered_Phone UserRegistered_Phone_update,
     field ''user_type'' user_type UserRegistered_UserType UserRegistered_UserType_update,
     field_omitempty ''email'' (jt_ptr email) UserRegistered_Email UserRegistered_Email_update,
     field_omitempty ''name'' (jt_string ''string'') UserRegistered_Name UserRegistered_Name_update]"

definition UserRegistered_type ::
  "'uid json_type \<Rightarrow> 'phone json_type \<Rightarrow> 'utype json_type \<Rightarrow> 'email json_type \<Rightarrow> ('uid, 'phone, 'utype, 'email) UserRegistered json_type" where
  "UserRegistered_type user_id phone_number user_type email =
    jt_struct ''events'' ''UserRegistered'' (UserRegistered_fields user_id phone_number user_type email)
    \<lparr>UserRegistered_UserID = jt_zero user_id, UserRegistered_Phone = jt_zero phone_number, UserRegistered_UserType = jt_zero user_type,
     UserRegistered_Email = None, UserRegistered_Name = []\<rparr>"

definition VerificationTypePhone :: string where "VerificationTypePhone = ''phone''"

definition VerificationTypeEmail :: string where "VerificationTypeEmail = ''email''"

definition VerificationTypeID :: string where "VerificationTypeID = ''id''"

record 'uid UserVerified =
  UserVerified_UserID :: 'uid
  UserVerified_VerificationType :: string

definition UserVerified_fields ::
  "'uid json_type \<Rightarrow> 'uid UserVerified json_field list" where
  "UserVerified_fields user_id =
    [field ''user_id'' user_id UserVerified_UserID UserVerified_UserID_update,
     field ''verification_type'' (jt_string ''events.VerificationType'') UserVerified_VerificationType UserVerified_VerificationType_update]"

definition UserVerified_type ::
  "'uid json_type \<Rightarrow> 'uid UserVerified json_type" where
  "UserVerified_type user_id =
    jt_struct ''events'' ''UserVerified'' (UserVerified_fields user_id)
    \<lparr>UserVerified_UserID = jt_zero user_id, UserVerified_VerificationType = []\<rparr>"

record 'uid UserProfileUpdated =
  UserProfileUpdated_UserID :: 'uid
  UserProfileUpdated_ChangedFields :: "string list option"

definition UserProfileUpdated_fields ::
  "'uid json_type \<Rightarrow> 'uid UserProfileUpdated json_field list" where
  "UserProfileUpdated_fields user_id =
    [field ''user_id'' user_id UserProfileUpdated_UserID UserProfileUpdated_UserID_update,
     field ''changed_fields'' (jt_slice ''[]string'' (jt_string ''string'')) UserProfileUpdated_ChangedFields UserProfileUpdated_ChangedFields_update]"

definition UserProfileUpdated_type ::
  "'uid json_type \<Rightarrow> 'uid UserProfileUpdated json_type" where
  "UserProfileUpdated_type user_id =
    jt_struct ''events'' ''UserProfileUpdated'' (UserProfileUpdated_fields user_id)
    \<lparr>UserProfileUpdated_UserID = jt_zero user_id, UserProfileUpdated_ChangedFields = None\<rparr>"

record 'uid UserSuspended =
  UserSuspended_UserID :: 'uid
  UserSuspended_Reason :: string
  UserSuspended_SuspendedBy :: "'uid option"

definition UserSuspended_fields ::
  "'uid json_type \<Rightarrow> 'uid UserSuspended json_field list" where
  "UserSuspended_fields user_id =
    [field ''user_id'' user_id UserSuspended_UserID UserSuspended_UserID_update,
     field ''reason'' (jt_string ''string'') UserSuspended_Reason UserSuspended_Reason_update,
     field_omitempty ''suspended_by'' (jt_ptr user_id) UserSuspended_SuspendedBy UserSuspended_SuspendedBy_update]"

definition UserSuspended_type ::
  "'uid json_type \<Rightarrow> 'uid UserSuspended json_type" where
  "UserSuspended_type user_id =
    jt_struct ''events'' ''UserSuspended'' (UserSuspended_fields user_id)
    \<lparr>UserSuspended_UserID = jt_zero user_id, UserSuspended_Reason = [], UserSuspended_SuspendedBy = None\<rparr>"

definition DeletionTypeUserRequested :: string where "DeletionTypeUserRequested = ''user_requested''"

definition DeletionTypeAdminAction :: string where "DeletionTypeAdminAction = ''admin_action''"

definition DeletionTypeInactivity :: string where "DeletionTypeInactivity = ''inactivity''"

record 'uid UserDeleted =
  UserDeleted_UserID :: 'uid
  UserDeleted_DeletionType :: string

definition UserDeleted_fields ::
  "'uid json_type \<Rightarrow> 'uid UserDeleted json_field list" where
  "UserDeleted_fields user_id =
    [field ''user_id'' user_id UserDeleted_UserID UserDeleted_UserID_update,
     field ''deletion_type'' (jt_string ''events.DeletionType'') UserDeleted_DeletionType UserDeleted_DeletionType_update]"

definition UserDeleted_type ::
  "'uid json_type \<Rightarrow> 'uid UserDeleted json_type" where
  "UserDeleted_type user_id =
    jt_struct ''events'' ''UserDeleted'' (UserDeleted_fields user_id)
    \<lparr>UserDeleted_UserID = jt_zero user_id, UserDeleted_DeletionType = []\<rparr>"

subsection \<open>Round trips\<close>

lemma UserRegistered_at:
  assumes "Suc d \<le> maxNestingDepth" "law_at d user_id (UserRegistered_UserID p)"
    "law_at d phone_number (UserRegistered_Phone p)" "law_at d user_type (UserRegistered_UserType p)"
    "\<And>a. UserRegistered_Email p = Some a \<Longrightarrow> law_at d email a \<and> nonnull_at email a"
    "valid_utf8 (UserRegistered_Name p)"
  shows "law_at (Suc d) (UserRegistered_type user_id phone_number user_type email) p"
  unfolding UserRegistered_type_def UserRegistered_fields_def
  by (rule struct_at, (rule payload_rules assms | simp add: is_ascii_def assms)+)

lemma UserVerified_at:
  assumes "Suc d \<le> maxNestingDepth" "law_at d user_id (UserVerified_UserID p)"
    "valid_utf8 (UserVerified_VerificationType p)"
  shows "law_at (Suc d) (UserVerified_type user_id) p"
  unfolding UserVerified_type_def UserVerified_fields_def
  by (rule struct_at, (rule payload_rules assms | simp add: is_ascii_def assms)+)

lemma UserProfileUpdated_at:
  assumes "Suc (Suc d) \<le> maxNestingDepth" "law_at (Suc d) user_id (UserProfileUpdated_UserID p)"
    "\<And>xs. UserProfileUpdated_ChangedFields p = Some xs \<Longrightarrow> \<forall>x \<in> set xs. valid_utf8 x"
  shows "law_at (Suc (Suc d)) (UserProfileUpdated_type user_id) p"
  unfolding UserProfileUpdated_type_def UserProfileUpdated_fields_def
  by (rule struct_at, (rule payload_rules assms | simp add: is_ascii_def assms)+)

lemma UserSuspended_at:
  assumes "Suc d \<le> maxNestingDepth" "law_at d user_id (UserSuspended_UserID p)"
    "valid_utf8 (UserSuspended_Reason p)"
    "\<And>a. UserSuspended_SuspendedBy p = Some a \<Longrightarrow> law_at d user_id a \<and> nonnull_at user_id a"
  shows "law_at (Suc d) (UserSuspended_type user_id) p"
  unfolding UserSuspended_type_def UserSuspended_fields_def
  by (rule struct_at, (rule payload_rules assms | simp add: is_ascii_def assms)+)

lemma UserDeleted_at:
  assumes "Suc d \<le> maxNestingDepth" "law_at d user_id (UserDeleted_UserID p)"
    "valid_utf8 (UserDeleted_DeletionType p)"
  shows "law_at (Suc d) (UserDeleted_type user_id) p"
  unfolding UserDeleted_type_def UserDeleted_fields_def
  by (rule struct_at, (rule payload_rules assms | simp add: is_ascii_def assms)+)

end
