(* ===== verification/RideEvents.thy ===== *)
theory RideEvents
  imports EventCodec
begin

section \<open>Ride event payloads (events/ride.go)\<close>

text \<open>
  The payloads of the events about rides, their JSON form by their struct tags, and that a payload
  whose parts JSON can carry is read back as it was printed. The identifiers, enumerations and
  values of other modules are type parameters with their codecs.
\<close>

record ('ride, 'uid, 'loc, 'svc) RideRequested =
  RideRequested_RideID :: 'ride
  RideRequested_RiderID :: 'uid
  RideRequested_Pickup :: 'loc
  RideRequested_Dropoff :: 'loc
  RideRequested_ServiceType :: 'svc

definition RideRequested_fields ::
  "'ride json_type \<Rightarrow> 'uid json_type \<Rightarrow> 'loc json_type \<Rightarrow> 'svc json_type \<Rightarrow> ('ride, 'uid, 'loc, 'svc) RideRequested json_field list" where
  "RideRequested_fields ride_id user_id location service_type =
    [field ''ride_id'' ride_id RideRequested_RideID RideRequested_RideID_update,
     field ''rider_id'' user_id RideRequested_RiderID RideRequested_RiderID_update,
     field ''pickup'' location RideRequested_Pickup RideRequested_Pickup_update,
     field ''dropoff'' location RideRequested_Dropoff RideRequested_Dropoff_update,
     field ''service_type'' service_type RideRequested_ServiceType RideRequested_ServiceType_update]"

definition RideRequested_type ::
  "'ride json_type \<Rightarrow> 'uid json_type \<Rightarrow> 'loc json_type \<Rightarrow> 'svc json_type \<Rightarrow> ('ride, 'uid, 'loc, 'svc) RideRequested json_type" where
  "RideRequested_type ride_id user_id location service_type =
    jt_struct ''events'' ''RideRequested'' (RideRequested_fields ride_id user_id location service_type)
    \<lparr>RideRequested_RideID = jt_zero ride_id, RideRequested_RiderID = jt_zero user_id, RideRequested_Pickup = jt_zero location,
     RideRequested_Dropoff = jt_zero location, RideRequested_ServiceType = jt_zero service_type\<rparr>"

record ('ride, 'did, 'vid) RideDriverAssigned =
  RideDriverAssigned_RideID :: 'ride
  RideDriverAssigned_DriverID :: 'did
  RideDriverAssigned_VehicleID :: 'vid
  RideDriverAssigned_ETAMinutes :: int64

definition RideDriverAssigned_fields ::
  "'ride json_type \<Rightarrow> 'did json_type \<Rightarrow> 'vid json_type \<Rightarrow> ('ride, 'did, 'vid) RideDriverAssigned json_field list" where
  "RideDriverAssigned_fields ride_id driver_id vehicle_id =
    [field ''ride_id'' ride_id RideDriverAssigned_RideID RideDriverAssigned_RideID_update,
     field ''driver_id'' driver_id RideDriverAssigned_DriverID RideDriverAssigned_DriverID_update,
     field ''vehicle_id'' vehicle_id RideDriverAssigned_VehicleID RideDriverAssigned_VehicleID_update,
     field ''eta_minutes'' (jt_int ''int'') RideDriverAssigned_ETAMinutes RideDriverAssigned_ETAMinutes_update]"

definition RideDriverAssigned_type ::
  "'ride json_type \<Rightarrow> 'did json_type \<Rightarrow> 'vid json_type \<Rightarrow> ('ride, 'did, 'vid) RideDriverAssigned json_type" where
  "RideDriverAssigned_type ride_id driver_id vehicle_id =
    jt_struct ''events'' ''RideDriverAssigned'' (RideDriverAssigned_fields ride_id driver_id vehicle_id)
    \<lparr>RideDriverAssigned_RideID = jt_zero ride_id, RideDriverAssigned_DriverID = jt_zero driver_id, RideDriverAssigned_VehicleID = jt_zero vehicle_id,
     RideDriverAssigned_ETAMinutes = 0\<rparr>"

record 'ride RideDriverArrived =
  RideDriverArrived_RideID :: 'ride
  RideDriverArrived_ArrivalTime :: go_time

definition RideDriverArrived_fields ::
  "'ride json_type \<Rightarrow> 'ride RideDriverArrived json_field list" where
  "RideDriverArrived_fields ride_id =
    [field ''ride_id'' ride_id RideDriverArrived_RideID RideDriverArrived_RideID_update,
     field ''arrival_time'' jt_time RideDriverArrived_ArrivalTime RideDriverArrived_ArrivalTime_update]"

definition RideDriverArrived_type ::
  "'ride json_type \<Rightarrow> 'ride RideDriverArrived json_type" where
  "RideDriverArrived_type ride_id =
    jt_struct ''events'' ''RideDriverArrived'' (RideDriverArrived_fields ride_id)
    \<lparr>RideDriverArrived_RideID = jt_zero ride_id, RideDriverArrived_ArrivalTime = time_zero\<rparr>"

record ('ride, 'loc) RideStarted =
  RideStarted_RideID :: 'ride
  RideStarted_StartTime :: go_time
  RideStarted_StartLocation :: 'loc

definition RideStarted_fields ::
  "'ride json_type \<Rightarrow> 'loc json_type \<Rightarrow> ('ride, 'loc) RideStarted json_field list" where
  "RideStarted_fields ride_id location =
    [field ''ride_id'' ride_id RideStarted_RideID RideStarted_RideID_update,
     field ''start_time'' jt_time RideStarted_StartTime RideStarted_StartTime_update,
     field ''start_location'' location RideStarted_StartLocation RideStarted_StartLocation_update]"

definition RideStarted_type ::
  "'ride json_type \<Rightarrow> 'loc json_type \<Rightarrow> ('ride, 'loc) RideStarted json_type" where
  "RideStarted_type ride_id location =
    jt_struct ''events'' ''RideStarted'' (RideStarted_fields ride_id location)
    \<lparr>RideStarted_RideID = jt_zero ride_id, RideStarted_StartTime = time_zero, RideStarted_StartLocation = jt_zero location\<rparr>"

record ('ride, 'f) RideCompleted =
  RideCompleted_RideID :: 'ride
  RideCompleted_EndTime :: go_time
  RideCompleted_DistanceKM :: 'f
  RideCompleted_DurationMins :: int64
  RideCompleted_Fare :: int64

definition RideCompleted_fields ::
  "'ride json_type \<Rightarrow> 'f json_type \<Rightarrow> ('ride, 'f) RideCompleted json_field list" where
  "RideCompleted_fields ride_id float64 =
    [field ''ride_id'' ride_id RideCompleted_RideID RideCompleted_RideID_update,
     field ''end_time'' jt_time RideCompleted_EndTime RideCompleted_EndTime_update,
     field ''distance_km'' float64 RideCompleted_DistanceKM RideCompleted_DistanceKM_update,
     field ''duration_mins'' (jt_int ''int'') RideCompleted_DurationMins RideCompleted_DurationMins_update,
     field ''fare'' (jt_int ''int64'') RideCompleted_Fare RideCompleted_Fare_update]"

definition RideCompleted_type ::
  "'ride json_type \<Rightarrow> 'f json_type \<Rightarrow> ('ride, 'f) RideCompleted json_type" where
  "RideCompleted_type ride_id float64 =
    jt_struct ''events'' ''RideCompleted'' (RideCompleted_fields ride_id float64)
    \<lparr>RideCompleted_RideID = jt_zero ride_id, RideCompleted_EndTime = time_zero, RideCompleted_DistanceKM = jt_zero float64,
     RideCompleted_DurationMins = 0, RideCompleted_Fare = 0\<rparr>"

definition CancelledByRider :: string where "CancelledByRider = ''rider''"

definition CancelledByDriver :: string where "CancelledByDriver = ''driver''"

definition CancelledBySystem :: string where "CancelledBySystem = ''system''"

record ('ride, 'reason) RideCancelled =
  RideCancelled_RideID :: 'ride
  RideCancelled_CancelledBy :: string
  RideCancelled_Reason :: 'reason
  RideCancelled_CancellationFee :: int64

definition RideCancelled_fields ::
  "'ride json_type \<Rightarrow> 'reason json_type \<Rightarrow> ('ride, 'reason) RideCancelled json_field list" where
  "RideCancelled_fields ride_id cancellation_reason =
    [field ''ride_id'' ride_id RideCancelled_RideID RideCancelled_RideID_update,
     field ''cancelled_by'' (jt_string ''events.CancelledBy'') RideCancelled_CancelledBy RideCancelled_CancelledBy_update,
     field ''reason'' cancellation_reason RideCancelled_Reason RideCancelled_Reason_update,
     field ''cancellation_fee'' (jt_int ''int64'') RideCancelled_CancellationFee RideCancelled_CancellationFee_update]"

definition RideCancelled_type ::
  "'ride json_type \<Rightarrow> 'reason json_type \<Rightarrow> ('ride, 'reason) RideCancelled json_type" where
  "RideCancelled_type ride_id cancellation_reason =
    jt_struct ''events'' ''RideCancelled'' (RideCancelled_fields ride_id cancellation_reason)
    \<lparr>RideCancelled_RideID = jt_zero ride_id, RideCancelled_CancelledBy = [], RideCancelled_Reason = jt_zero cancellation_reason,
     RideCancelled_CancellationFee = 0\<rparr>"

definition RatedByRider :: string where "RatedByRider = ''rider''"

definition RatedByDriver :: string where "RatedByDriver = ''driver''"

record 'ride RideRated =
  RideRated_RideID :: 'ride
  RideRated_Rating :: int64
  RideRated_RatedBy :: string
  RideRated_Review :: string

definition RideRated_fields ::
  "'ride json_type \<Rightarrow> 'ride RideRated json_field list" where
  "RideRated_fields ride_id =
    [field ''ride_id'' ride_id RideRated_RideID RideRated_RideID_update,
     field ''rating'' (jt_int ''int'') RideRated_Rating RideRated_Rating_update,
     field ''rated_by'' (jt_string ''events.RatedBy'') RideRated_RatedBy RideRated_RatedBy_update,
     field_omitempty ''review'' (jt_string ''string'') RideRated_Review RideRated_Review_update]"

definition RideRated_type ::
  "'ride json_type \<Rightarrow> 'ride RideRated json_type" where
  "RideRated_type ride_id =
    jt_struct ''events'' ''RideRated'' (RideRated_fields ride_id)
    \<lparr>RideRated_RideID = jt_zero ride_id, RideRated_Rating = 0, RideRated_RatedBy = [],
     RideRated_Review = []\<rparr>"

subsection \<open>Round trips\<close>

lemma RideRequested_at:
  assumes "Suc d \<le> maxNestingDepth" "law_at d ride_id (RideRequested_RideID p)"
    "law_at d user_id (RideRequested_RiderID p)" "law_at d location (RideRequested_Pickup p)"
    "law_at d location (RideRequested_Dropoff p)" "law_at d service_type (RideRequested_ServiceType p)"
  shows "law_at (Suc d) (RideRequested_type ride_id user_id location service_type) p"
  unfolding RideRequested_type_def RideRequested_fields_def
  by (rule struct_at, (rule payload_rules assms | simp add: is_ascii_def assms)+)

lemma RideDriverAssigned_at:
  assumes "Suc d \<le> maxNestingDepth" "law_at d ride_id (RideDriverAssigned_RideID p)"
    "law_at d driver_id (RideDriverAssigned_DriverID p)"
    "law_at d vehicle_id (RideDriverAssigned_VehicleID p)"
  shows "law_at (Suc d) (RideDriverAssigned_type ride_id driver_id vehicle_id) p"
  unfolding RideDriverAssigned_type_def RideDriverAssigned_fields_def
  by (rule struct_at, (rule payload_rules assms | simp add: is_ascii_def assms)+)

lemma RideDriverArrived_at:
  assumes "Suc d \<le> maxNestingDepth" "law_at d ride_id (RideDriverArrived_RideID p)"
    "printable_time (RideDriverArrived_ArrivalTime p)"
  shows "law_at (Suc d) (RideDriverArrived_type ride_id) p"
  unfolding RideDriverArrived_type_def RideDriverArrived_fields_def
  by (rule struct_at, (rule payload_rules assms | simp add: is_ascii_def assms)+)

lemma RideStarted_at:
  assumes "Suc d \<le> maxNestingDepth" "law_at d ride_id (RideStarted_RideID p)"
    "printable_time (RideStarted_StartTime p)" "law_at d location (RideStarted_StartLocation p)"
  shows "law_at (Suc d) (RideStarted_type ride_id location) p"
  unfolding RideStarted_type_def RideStarted_fields_def
  by (rule struct_at, (rule payload_rules assms | simp add: is_ascii_def assms)+)

lemma RideCompleted_at:
  assumes "Suc d \<le> maxNestingDepth" "law_at d ride_id (RideCompleted_RideID p)"
    "printable_time (RideCompleted_EndTime p)" "law_at d float64 (RideCompleted_DistanceKM p)"
  shows "law_at (Suc d) (RideCompleted_type ride_id float64) p"
  unfolding RideCompleted_type_def RideCompleted_fields_def
  by (rule struct_at, (rule payload_rules assms | simp add: is_ascii_def assms)+)

lemma RideCancelled_at:
  assumes "Suc d \<le> maxNestingDepth" "law_at d ride_id (RideCancelled_RideID p)"
    "valid_utf8 (RideCancelled_CancelledBy p)" "law_at d cancellation_reason (RideCancelled_Reason p)"
  shows "law_at (Suc d) (RideCancelled_type ride_id cancellation_reason) p"
  unfolding RideCancelled_type_def RideCancelled_fields_def
  by (rule struct_at, (rule payload_rules assms | simp add: is_ascii_def assms)+)

lemma RideRated_at:
  assumes "Suc d \<le> maxNestingDepth" "law_at d ride_id (RideRated_RideID p)" "valid_utf8 (RideRated_RatedBy p)"
    "valid_utf8 (RideRated_Review p)"
  shows "law_at (Suc d) (RideRated_type ride_id) p"
  unfolding RideRated_type_def RideRated_fields_def
  by (rule struct_at, (rule payload_rules assms | simp add: is_ascii_def assms)+)

end
