(* ===== verification/PaymentEvents.thy ===== *)
theory PaymentEvents
  imports EventCodec
begin

section \<open>Payment event payloads (events/payment.go)\<close>

text \<open>
  The payloads of the events about payments and payouts, their JSON form by their struct tags, and that a payload
  whose parts JSON can carry is read back as it was printed. The identifiers, enumerations and
  values of other modules are type parameters with their codecs.
\<close>

text \<open>
  A payout id embeds the UUID type of another module and has its JSON methods; a new one is made
  by that module's generator, whose result is the argument.
\<close>

record 'uuid PayoutID =
  PayoutID_UUID :: 'uuid

definition PayoutID_type :: "'uuid json_type \<Rightarrow> 'uuid PayoutID json_type" where
  "PayoutID_type uuid = \<lparr>jt_enc = (\<lambda>p. jt_enc uuid (PayoutID_UUID p)),
     jt_dec = (\<lambda>ctx v p. case jt_dec uuid ctx v (PayoutID_UUID p) of (u, st) \<Rightarrow> (p\<lparr>PayoutID_UUID := u\<rparr>, st)),
     jt_zero = \<lparr>PayoutID_UUID = jt_zero uuid\<rparr>\<rparr>"

definition NewPayoutID :: "go_error + 'uuid \<Rightarrow> go_error + 'uuid PayoutID" where
  "NewPayoutID ids_NewUUID = (case ids_NewUUID of
     Inl err \<Rightarrow> Inl (errorf_ctx ''failed to generate payout ID'' err)
   | Inr uuid \<Rightarrow> Inr \<lparr>PayoutID_UUID = uuid\<rparr>)"

definition MustNewPayoutID :: "go_error + 'uuid \<Rightarrow> 'uuid PayoutID go_result" where
  "MustNewPayoutID ids_NewUUID = (case NewPayoutID ids_NewUUID of
     Inl err \<Rightarrow> Panic (error_text err)
   | Inr payoutID \<Rightarrow> Val payoutID)"

lemma MustNewPayoutID_panics_iff:
  "(\<exists>m. MustNewPayoutID g = Panic m) \<longleftrightarrow> (\<exists>e. g = Inl e)"
  "MustNewPayoutID g = Val p \<Longrightarrow> NewPayoutID g = Inr p"
  by (auto simp: MustNewPayoutID_def NewPayoutID_def split: sum.splits)

lemma PayoutID_at: "law_at d uuid (PayoutID_UUID p) \<Longrightarrow> law_at d (PayoutID_type uuid) p"
  by (auto simp: law_at_def PayoutID_type_def)

record ('pid, 'ride, 'meth) PaymentInitiated =
  PaymentInitiated_PaymentID :: 'pid
  PaymentInitiated_RideID :: 'ride
  PaymentInitiated_Amount :: int64
  PaymentInitiated_Method :: 'meth

definition PaymentInitiated_fields ::
  "'pid json_type \<Rightarrow> 'ride json_type \<Rightarrow> 'meth json_type \<Rightarrow> ('pid, 'ride, 'meth) PaymentInitiated json_field list" where
  "PaymentInitiated_fields payment_id ride_id payment_method =
    [field ''payment_id'' payment_id PaymentInitiated_PaymentID PaymentInitiated_PaymentID_update,
     field ''ride_id'' ride_id PaymentInitiated_RideID PaymentInitiated_RideID_update,
     field ''amount'' (jt_int ''int64'') PaymentInitiated_Amount PaymentInitiated_Amount_update,
     field ''method'' payment_method PaymentInitiated_Method PaymentInitiated_Method_update]"

definition PaymentInitiated_type ::
  "'pid json_type \<Rightarrow> 'ride json_type \<Rightarrow> 'meth json_type \<Rightarrow> ('pid, 'ride, 'meth) PaymentInitiated json_type" where
  "PaymentInitiated_type payment_id ride_id payment_method =
    jt_struct ''events'' ''PaymentInitiated'' (PaymentInitiated_fields payment_id ride_id payment_method)
    \<lparr>PaymentInitiated_PaymentID = jt_zero payment_id, PaymentInitiated_RideID = jt_zero ride_id, PaymentInitiated_Amount = 0,
     PaymentInitiated_Method = jt_zero payment_method\<rparr>"

record 'pid PaymentCompleted =
  PaymentCompleted_PaymentID :: 'pid
  PaymentCompleted_TransactionRef :: string

definition PaymentCompleted_fields ::
  "'pid json_type \<Rightarrow> 'pid PaymentCompleted json_field list" where
  "PaymentCompleted_fields payment_id =
    [field ''payment_id'' payment_id PaymentCompleted_PaymentID PaymentCompleted_PaymentID_update,
     field ''transaction_ref'' (jt_string ''string'') PaymentCompleted_TransactionRef PaymentCompleted_TransactionRef_update]"

definition PaymentCompleted_type ::
  "'pid json_type \<Rightarrow> 'pid PaymentCompleted json_type" where
  "PaymentCompleted_type payment_id =
    jt_struct ''events'' ''PaymentCompleted'' (PaymentCompleted_fields payment_id)
    \<lparr>PaymentCompleted_PaymentID = jt_zero payment_id, PaymentCompleted_TransactionRef = []\<rparr>"

record 'pid PaymentFailed =
  PaymentFailed_PaymentID :: 'pid
  PaymentFailed_ErrorCode :: string
  PaymentFailed_ErrorMessage :: string

definition PaymentFailed_fields ::
  "'pid json_type \<Rightarrow> 'pid PaymentFailed json_field list" where
  "PaymentFailed_fields payment_id =
    [field ''payment_id'' payment_id PaymentFailed_PaymentID PaymentFailed_PaymentID_update,
     field ''error_code'' (jt_string ''string'') PaymentFailed_ErrorCode PaymentFailed_ErrorCode_update,
     field ''error_message'' (jt_string ''string'') PaymentFailed_ErrorMessage PaymentFailed_ErrorMessage_update]"

definition PaymentFailed_type ::
  "'pid json_type \<Rightarrow> 'pid PaymentFailed json_type" where
  "PaymentFailed_type payment_id =
    jt_struct ''events'' ''PaymentFailed'' (PaymentFailed_fields payment_id)
    \<lparr>PaymentFailed_PaymentID = jt_zero payment_id, PaymentFailed_ErrorCode = [], PaymentFailed_ErrorMessage = []\<rparr>"

record 'pid PaymentRefunded =
  PaymentRefunded_PaymentID :: 'pid
  PaymentRefunded_RefundAmount :: int64
  PaymentRefunded_Reason :: string

definition PaymentRefunded_fields ::
  "'pid json_type \<Rightarrow> 'pid PaymentRefunded json_field list" where
  "PaymentRefunded_fields payment_id =
    [field ''payment_id'' payment_id PaymentRefunded_PaymentID PaymentRefunded_PaymentID_update,
     field ''refund_amount'' (jt_int ''int64'') PaymentRefunded_RefundAmount PaymentRefunded_RefundAmount_update,
     field ''reason'' (jt_string ''string'') PaymentRefunded_Reason PaymentRefunded_Reason_update]"

definition PaymentRefunded_type ::
  "'pid json_type \<Rightarrow> 'pid PaymentRefunded json_type" where
  "PaymentRefunded_type payment_id =
    jt_struct ''events'' ''PaymentRefunded'' (PaymentRefunded_fields payment_id)
    \<lparr>PaymentRefunded_PaymentID = jt_zero payment_id, PaymentRefunded_RefundAmount = 0, PaymentRefunded_Reason = []\<rparr>"

record ('uuid, 'did) PayoutRequested =
  PayoutRequested_PayoutID :: "'uuid PayoutID"
  PayoutRequested_DriverID :: 'did
  PayoutRequested_Amount :: int64

definition PayoutRequested_fields ::
  "'uuid json_type \<Rightarrow> 'did json_type \<Rightarrow> ('uuid, 'did) PayoutRequested json_field list" where
  "PayoutRequested_fields uuid driver_id =
    [field ''payout_id'' (PayoutID_type uuid) PayoutRequested_PayoutID PayoutRequested_PayoutID_update,
     field ''driver_id'' driver_id PayoutRequested_DriverID PayoutRequested_DriverID_update,
     field ''amount'' (jt_int ''int64'') PayoutRequested_Amount PayoutRequested_Amount_update]"

definition PayoutRequested_type ::
  "'uuid json_type \<Rightarrow> 'did json_type \<Rightarrow> ('uuid, 'did) PayoutRequested json_type" where
  "PayoutRequested_type uuid driver_id =
    jt_struct ''events'' ''PayoutRequested'' (PayoutRequested_fields uuid driver_id)
    \<lparr>PayoutRequested_PayoutID = jt_zero (PayoutID_type uuid), PayoutRequested_DriverID = jt_zero driver_id, PayoutRequested_Amount = 0\<rparr>"

record 'uuid PayoutCompleted =
  PayoutCompleted_PayoutID :: "'uuid PayoutID"
  PayoutCompleted_TransactionRef :: string

definition PayoutCompleted_fields ::
  "'uuid json_type \<Rightarrow> 'uuid PayoutCompleted json_field list" where
  "PayoutCompleted_fields uuid =
    [field ''payout_id'' (PayoutID_type uuid) PayoutCompleted_PayoutID PayoutCompleted_PayoutID_update,
     field ''transaction_ref'' (jt_string ''string'') PayoutCompleted_TransactionRef PayoutCompleted_TransactionRef_update]"

definition PayoutCompleted_type ::
  "'uuid json_type \<Rightarrow> 'uuid PayoutCompleted json_type" where
  "PayoutCompleted_type uuid =
    jt_struct ''events'' ''PayoutCompleted'' (PayoutCompleted_fields uuid)
    \<lparr>PayoutCompleted_PayoutID = jt_zero (PayoutID_type uuid), PayoutCompleted_TransactionRef = []\<rparr>"

subsection \<open>Round trips\<close>

lemma PaymentInitiated_at:
  assumes "Suc d \<le> maxNestingDepth" "law_at d payment_id (PaymentInitiated_PaymentID p)"
    "law_at d ride_id (PaymentInitiated_RideID p)" "law_at d payment_method (PaymentInitiated_Method p)"
  shows "law_at (Suc d) (PaymentInitiated_type payment_id ride_id payment_method) p"
  unfolding PaymentInitiated_type_def PaymentInitiated_fields_def
  by (rule struct_at, (rule payload_rules assms | simp add: is_ascii_def assms)+)

lemma PaymentCompleted_at:
  assumes "Suc d \<le> maxNestingDepth" "law_at d payment_id (PaymentCompleted_PaymentID p)"
    "valid_utf8 (PaymentCompleted_TransactionRef p)"
  shows "law_at (Suc d) (PaymentCompleted_type payment_id) p"
  unfolding PaymentCompleted_type_def PaymentCompleted_fields_def
  by (rule struct_at, (rule payload_rules assms | simp add: is_ascii_def assms)+)

lemma PaymentFailed_at:
  assumes "Suc d \<le> maxNestingDepth" "law_at d payment_id (PaymentFailed_PaymentID p)"
    "valid_utf8 (PaymentFailed_ErrorCode p)" "valid_utf8 (PaymentFailed_ErrorMessage p)"
  shows "law_at (Suc d) (PaymentFailed_type payment_id) p"
  unfolding PaymentFailed_type_def PaymentFailed_fields_def
  by (rule struct_at, (rule payload_rules assms | simp add: is_ascii_def assms)+)

lemma PaymentRefunded_at:
  assumes "Suc d \<le> maxNestingDepth" "law_at d payment_id (PaymentRefunded_PaymentID p)"
    "valid_utf8 (PaymentRefunded_Reason p)"
  shows "law_at (Suc d) (PaymentRefunded_type payment_id) p"
  unfolding PaymentRefunded_type_def PaymentRefunded_fields_def
  by (rule struct_at, (rule payload_rules assms | simp add: is_ascii_def assms)+)

lemma PayoutRequested_at:
  assumes "Suc d \<le> maxNestingDepth" "law_at d (PayoutID_type uuid) (PayoutRequested_PayoutID p)"
    "law_at d driver_id (PayoutRequested_DriverID p)"
  shows "law_at (Suc d) (PayoutRequested_type uuid driver_id) p"
  unfolding PayoutRequested_type_def PayoutRequested_fields_def
  by (rule struct_at, (rule payload_rules assms | simp add: is_ascii_def assms)+)

lemma PayoutCompleted_at:
  assumes "Suc d \<le> maxNestingDepth" "law_at d (PayoutID_type uuid) (PayoutCompleted_PayoutID p)"
    "valid_utf8 (PayoutCompleted_TransactionRef p)"
  shows "law_at (Suc d) (PayoutCompleted_type uuid) p"
  unfolding PayoutCompleted_type_def PayoutCompleted_fields_def
  by (rule struct_at, (rule payload_rules assms | simp add: is_ascii_def assms)+)

end
