(* ===== verification/DriverEvents.thy ===== *)
theory DriverEvents
  imports EventCodec
begin

section \<open>Driver event payloads (events/driver.go)\<close>

text \<open>
  The payloads of the events about drivers, their JSON form by their struct tags, and that a payload
  whose parts JSON can carry is read back as it was printed. The identifiers, enumerations and
  values of other modules are type parameters with their codecs.
\<close>

record ('did, 'uid) DriverApplicationSubmitted =
  DriverApplicationSubmitted_DriverID :: 'did
  DriverApplicationSubmitted_UserID :: 'uid

definition DriverApplicationSubmitted_fields ::
  "'did json_type \<Rightarrow> 'uid json_type \<Rightarrow> ('did, 'uid) DriverApplicationSubmitted json_field list" where
  "DriverApplicationSubmitted_fields driver_id user_id =
    [field ''driver_id'' driver_id DriverApplicationSubmitted_DriverID DriverApplicationSubmitted_DriverID_update,
     field ''user_id'' user_id DriverApplicationSubmitted_UserID DriverApplicationSubmitted_UserID_update]"

definition DriverApplicationSubmitted_type ::
  "'did json_type \<Rightarrow> 'uid json_type \<Rightarrow> ('did, 'uid) DriverApplicationSubmitted json_type" where
  "DriverApplicationSubmitted_type driver_id user_id =
    jt_struct ''events'' ''DriverApplicationSubmitted'' (DriverApplicationSubmitted_fields driver_id user_id)
    \<lparr>DriverApplicationSubmitted_DriverID = jt_zero driver_id, DriverApplicationSubmitted_UserID = jt_zero user_id\<rparr>"

record ('did, 'doc) DriverDocumentsSubmitted =
  DriverDocumentsSubmitted_DriverID :: 'did
  DriverDocumentsSubmitted_DocumentTypes :: "'doc list option"

definition DriverDocumentsSubmitted_fields ::
  "'did json_type \<Rightarrow> 'doc json_type \<Rightarrow> ('did, 'doc) DriverDocumentsSubmitted json_field list" where
  "DriverDocumentsSubmitted_fields driver_id document_type =
    [field ''driver_id'' driver_id DriverDocumentsSubmitted_DriverID DriverDocumentsSubmitted_DriverID_update,
     field ''document_types'' (jt_slice ''[]enums.DocumentType'' document_type) DriverDocumentsSubmitted_DocumentTypes DriverDocumentsSubmitted_DocumentTypes_update]"

definition DriverDocumentsSubmitted_type ::
  "'did json_type \<Rightarrow> 'doc json_type \<Rightarrow> ('did, 'doc) DriverDocumentsSubmitted json_type" where
  "DriverDocumentsSubmitted_type driver_id document_type =
    jt_struct ''events'' ''DriverDocumentsSubmitted'' (DriverDocumentsSubmitted_fields driver_id document_type)
    \<lparr>DriverDocumentsSubmitted_DriverID = jt_zero driver_id, DriverDocumentsSubmitted_DocumentTypes = None\<rparr>"

record ('did, 'uid) DriverApproved =
  DriverApproved_DriverID :: 'did
  DriverApproved_ApprovedBy :: 'uid

definition DriverApproved_fields ::
  "'did json_type \<Rightarrow> 'uid json_type \<Rightarrow> ('did, 'uid) DriverApproved json_field list" where
  "DriverApproved_fields driver_id user_id =
    [field ''driver_id'' driver_id DriverApproved_DriverID DriverApproved_DriverID_update,
     field ''approved_by'' user_id DriverApproved_ApprovedBy DriverApproved_ApprovedBy_update]"

definition DriverApproved_type ::
  "'did json_type \<Rightarrow> 'uid json_type \<Rightarrow> ('did, 'uid) DriverApproved json_type" where
  "DriverApproved_type driver_id user_id =
    jt_struct ''events'' ''DriverApproved'' (DriverApproved_fields driver_id user_id)
    \<lparr>DriverApproved_DriverID = jt_zero driver_id, DriverApproved_ApprovedBy = jt_zero user_id\<rparr>"

record ('did, 'uid) DriverRejected =
  DriverRejected_DriverID :: 'did
  DriverRejected_Reason :: string
  DriverRejected_RejectedBy :: 'uid

definition DriverRejected_fields ::
  "'did json_type \<Rightarrow> 'uid json_type \<Rightarrow> ('did, 'uid) DriverRejected json_field list" where
  "DriverRejected_fields driver_id user_id =
    [field ''driver_id'' driver_id DriverRejected_DriverID DriverRejected_DriverID_update,
     field ''reason'' (jt_string ''string'') DriverRejected_Reason DriverRejected_Reason_update,
     field ''rejected_by'' user_id DriverRejected_RejectedBy DriverRejected_RejectedBy_update]"

definition DriverRejected_type ::
  "'did json_type \<Rightarrow> 'uid json_type \<Rightarrow> ('did, 'uid) DriverRejected json_type" where
  "DriverRejected_type driver_id user_id =
    jt_struct ''events'' ''DriverRejected'' (DriverRejected_fields driver_id user_id)
    \<lparr>DriverRejected_DriverID = jt_zero driver_id, DriverRejected_Reason = [], DriverRejected_RejectedBy = jt_zero user_id\<rparr>"

record ('did, 'loc, 'vid) DriverWentOnline =
  DriverWentOnline_DriverID :: 'did
  DriverWentOnline_Location :: 'loc
  DriverWentOnline_VehicleID :: 'vid

definition DriverWentOnline_fields ::
  "'did json_type \<Rightarrow> 'loc json_type \<Rightarrow> 'vid json_type \<Rightarrow> ('did, 'loc, 'vid) DriverWentOnline json_field list" where
  "DriverWentOnline_fields driver_id location vehicle_id =
    [field ''driver_id'' driver_id DriverWentOnline_DriverID DriverWentOnline_DriverID_update,
     field ''location'' location DriverWentOnline_Location DriverWentOnline_Location_update,
     field ''vehicle_id'' vehicle_id DriverWentOnline_VehicleID DriverWentOnline_VehicleID_update]"

definition DriverWentOnline_type ::
  "'did json_type \<Rightarrow> 'loc json_type \<Rightarrow> 'vid json_type \<Rightarrow> ('did, 'loc, 'vid) DriverWentOnline json_type" where
  "DriverWentOnline_type driver_id location vehicle_id =
    jt_struct ''events'' ''DriverWentOnline'' (DriverWentOnline_fields driver_id location vehicle_id)
    \<lparr>DriverWentOnline_DriverID = jt_zero driver_id, DriverWentOnline_Location = jt_zero location, DriverWentOnline_VehicleID = jt_zero vehicle_id\<rparr>"

definition OfflineReasonManual :: string where "OfflineReasonManual = ''manual''"

definition OfflineReasonTimeout :: string where "OfflineReasonTimeout = ''timeout''"

definition OfflineReasonEndOfShift :: string where "OfflineReasonEndOfShift = ''end_of_shift''"

definition OfflineReasonAppClosed :: string where "OfflineReasonAppClosed = ''app_closed''"

definition OfflineReasonLowBattery :: string where "OfflineReasonLowBattery = ''low_battery''"

definition OfflineReasonAdminAction :: string where "OfflineReasonAdminAction = ''admin_action''"

record 'did DriverWentOffline =
  DriverWentOffline_DriverID :: 'did
  DriverWentOffline_Reason :: string

definition DriverWentOffline_fields ::
  "'did json_type \<Rightarrow> 'did DriverWentOffline json_field list" where
  "DriverWentOffline_fields driver_id =
    [field ''driver_id'' driver_id DriverWentOffline_DriverID DriverWentOffline_DriverID_update,
     field ''reason'' (jt_string ''events.OfflineReason'') DriverWentOffline_Reason DriverWentOffline_Reason_update]"

definition DriverWentOffline_type ::
  "'did json_type \<Rightarrow> 'did DriverWentOffline json_type" where
  "DriverWentOffline_type driver_id =
    jt_struct ''events'' ''DriverWentOffline'' (DriverWentOffline_fields driver_id)
    \<lparr>DriverWentOffline_DriverID = jt_zero driver_id, DriverWentOffline_Reason = []\<rparr>"

record ('did, 'loc, 'f) DriverLocationUpdated =
  DriverLocationUpdated_DriverID :: 'did
  DriverLocationUpdated_Location :: 'loc
  DriverLocationUpdated_Heading :: 'f
  DriverLocationUpdated_Speed :: 'f

definition DriverLocationUpdated_fields ::
  "'did json_type \<Rightarrow> 'loc json_type \<Rightarrow> 'f json_type \<Rightarrow> ('did, 'loc, 'f) DriverLocationUpdated json_field list" where
  "DriverLocationUpdated_fields driver_id location float64 =
    [field ''driver_id'' driver_id DriverLocationUpdated_DriverID DriverLocationUpdated_DriverID_update,
     field ''location'' location DriverLocationUpdated_Location DriverLocationUpdated_Location_update,
     field ''heading'' float64 DriverLocationUpdated_Heading DriverLocationUpdated_Heading_update,
     field ''speed'' float64 DriverLocationUpdated_Speed DriverLocationUpdated_Speed_update]"

definition DriverLocationUpdated_type ::
  "'did json_type \<Rightarrow> 'loc json_type \<Rightarrow> 'f json_type \<Rightarrow> ('did, 'loc, 'f) DriverLocationUpdated json_type" where
  "DriverLocationUpdated_type driver_id location float64 =
    jt_struct ''events'' ''DriverLocationUpdated'' (DriverLocationUpdated_fields driver_id location float64)
    \<lparr>DriverLocationUpdated_DriverID = jt_zero driver_id, DriverLocationUpdated_Location = jt_zero location, DriverLocationUpdated_Heading = jt_zero float64,
     DriverLocationUpdated_Speed = jt_zero float64\<rparr>"

subsection \<open>Round trips\<close>

lemma DriverApplicationSubmitted_at:
  assumes "Suc d \<le> maxNestingDepth" "law_at d driver_id (DriverApplicationSubmitted_DriverID p)"
    "law_at d user_id (DriverApplicationSubmitted_UserID p)"
  shows "law_at (Suc d) (DriverApplicationSubmitted_type driver_id user_id) p"
  unfolding DriverApplicationSubmitted_type_def DriverApplicationSubmitted_fields_def
  by (rule struct_at, (rule payload_rules assms | simp add: is_ascii_def assms)+)

lemma DriverDocumentsSubmitted_at:
  assumes "Suc (Suc d) \<le> maxNestingDepth" "law_at (Suc d) driver_id (DriverDocumentsSubmitted_DriverID p)"
    "\<And>xs. DriverDocumentsSubmitted_DocumentTypes p = Some xs \<Longrightarrow> \<forall>x \<in> set xs. law_at d document_type x"
  shows "law_at (Suc (Suc d)) (DriverDocumentsSubmitted_type driver_id document_type) p"
  unfolding DriverDocumentsSubmitted_type_def DriverDocumentsSubmitted_fields_def
  by (rule struct_at, (rule payload_rules assms | simp add: is_ascii_def assms)+)

lemma DriverApproved_at:
  assumes "Suc d \<le> maxNestingDepth" "law_at d driver_id (DriverApproved_DriverID p)"
    "law_at d user_id (DriverApproved_ApprovedBy p)"
  shows "law_at (Suc d) (DriverApproved_type driver_id user_id) p"
  unfolding DriverApproved_type_def DriverApproved_fields_def
  by (rule struct_at, (rule payload_rules assms | simp add: is_ascii_def assms)+)

lemma DriverRejected_at:
  assumes "Suc d \<le> maxNestingDepth" "law_at d driver_id (DriverRejected_DriverID p)"
    "valid_utf8 (DriverRejected_Reason p)" "law_at d user_id (DriverRejected_RejectedBy p)"
  shows "law_at (Suc d) (DriverRejected_type driver_id user_id) p"
  unfolding DriverRejected_type_def DriverRejected_fields_def
  by (rule struct_at, (rule payload_rules assms | simp add: is_ascii_def assms)+)

lemma DriverWentOnline_at:
  assumes "Suc d \<le> maxNestingDepth" "law_at d driver_id (DriverWentOnline_DriverID p)"
    "law_at d location (DriverWentOnline_Location p)" "law_at d vehicle_id (DriverWentOnline_VehicleID p)"
  shows "law_at (Suc d) (DriverWentOnline_type driver_id location vehicle_id) p"
  unfolding DriverWentOnline_type_def DriverWentOnline_fields_def
  by (rule struct_at, (rule payload_rules assms | simp add: is_ascii_def assms)+)

lemma DriverWentOffline_at:
  assumes "Suc d \<le> maxNestingDepth" "law_at d driver_id (DriverWentOffline_DriverID p)"
    "valid_utf8 (DriverWentOffline_Reason p)"
  shows "law_at (Suc d) (DriverWentOffline_type driver_id) p"
  unfolding DriverWentOffline_type_def DriverWentOffline_fields_def
  by (rule struct_at, (rule payload_rules assms | simp add: is_ascii_def assms)+)

lemma DriverLocationUpdated_at:
  assumes "Suc d \<le> maxNestingDepth" "law_at d driver_id (DriverLocationUpdated_DriverID p)"
    "law_at d location (DriverLocationUpdated_Location p)"
    "law_at d float64 (DriverLocationUpdated_Heading p)" "law_at d float64 (DriverLocationUpdated_Speed p)"
  shows "law_at (Suc d) (DriverLocationUpdated_type driver_id location float64) p"
  unfolding DriverLocationUpdated_type_def DriverLocationUpdated_fields_def
  by (rule struct_at, (rule payload_rules assms | simp add: is_ascii_def assms)+)

end
