(* ===== verification/SafetyEvents.thy ===== *)
theory SafetyEvents
  imports EventCodec
begin

section \<open>Safety event payloads (events/safety.go)\<close>

text \<open>
  The payloads of the events about safety, their JSON form by their struct tags, and that a payload
  whose parts JSON can carry is read back as it was printed. The identifiers, enumerations and
  values of other modules are type parameters with their codecs.
\<close>

record ('ride, 'uid, 'loc, 'emg) SafetyEmergencyTriggered =
  SafetyEmergencyTriggered_RideID :: 'ride
  SafetyEmergencyTriggered_UserID :: 'uid
  SafetyEmergencyTriggered_Location :: 'loc
  SafetyEmergencyTriggered_EmergencyType :: 'emg

definition SafetyEmergencyTriggered_fields ::
  "'ride json_type \<Rightarrow> 'uid json_type \<Rightarrow> 'loc json_type \<Rightarrow> 'emg json_type \<Rightarrow> ('ride, 'uid, 'loc, 'emg) SafetyEmergencyTriggered json_field list" where
  "SafetyEmergencyTriggered_fields ride_id user_id location emergency_type =
    [field ''ride_id'' ride_id SafetyEmergencyTriggered_RideID SafetyEmergencyTriggered_RideID_update,
     field ''user_id'' user_id SafetyEmergencyTriggered_UserID SafetyEmergencyTriggered_UserID_update,
     field ''location'' location SafetyEmergencyTriggered_Location SafetyEmergencyTriggered_Location_update,
     field ''emergency_type'' emergency_type SafetyEmergencyTriggered_EmergencyType SafetyEmergencyTriggered_EmergencyType_update]"

definition SafetyEmergencyTriggered_type ::
  "'ride json_type \<Rightarrow> 'uid json_type \<Rightarrow> 'loc json_type \<Rightarrow> 'emg json_type \<Rightarrow> ('ride, 'uid, 'loc, 'emg) SafetyEmergencyTriggered json_type" where
  "SafetyEmergencyTriggered_type ride_id user_id location emergency_type =
    jt_struct ''events'' ''SafetyEmergencyTriggered'' (SafetyEmergencyTriggered_fields ride_id user_id location emergency_type)
    \<lparr>SafetyEmergencyTriggered_RideID = jt_zero ride_id, SafetyEmergencyTriggered_UserID = jt_zero user_id, SafetyEmergencyTriggered_Location = jt_zero location,
     SafetyEmergencyTriggered_EmergencyType = jt_zero emergency_type\<rparr>"

record ('iid, 'uid, 'ride, 'sev) SafetyIncidentReported =
  SafetyIncidentReported_IncidentID :: 'iid
  SafetyIncidentReported_ReporterID :: 'uid
  SafetyIncidentReported_RideID :: 'ride
  SafetyIncidentReported_Severity :: 'sev

definition SafetyIncidentReported_fields ::
  "'iid json_type \<Rightarrow> 'uid json_type \<Rightarrow> 'ride json_type \<Rightarrow> 'sev json_type \<Rightarrow> ('iid, 'uid, 'ride, 'sev) SafetyIncidentReported json_field list" where
  "SafetyIncidentReported_fields incident_id user_id ride_id incident_severity =
    [field ''incident_id'' incident_id SafetyIncidentReported_IncidentID SafetyIncidentReported_IncidentID_update,
     field ''reporter_id'' user_id SafetyIncidentReported_ReporterID SafetyIncidentReported_ReporterID_update,
     field ''ride_id'' ride_id SafetyIncidentReported_RideID SafetyIncidentReported_RideID_update,
     field ''severity'' incident_severity SafetyIncidentReported_Severity SafetyIncidentReported_Severity_update]"

definition SafetyIncidentReported_type ::
  "'iid json_type \<Rightarrow> 'uid json_type \<Rightarrow> 'ride json_type \<Rightarrow> 'sev json_type \<Rightarrow> ('iid, 'uid, 'ride, 'sev) SafetyIncidentReported json_type" where
  "SafetyIncidentReported_type incident_id user_id ride_id incident_severity =
    jt_struct ''events'' ''SafetyIncidentReported'' (SafetyIncidentReported_fields incident_id user_id ride_id incident_severity)
    \<lparr>SafetyIncidentReported_IncidentID = jt_zero incident_id, SafetyIncidentReported_ReporterID = jt_zero user_id, SafetyIncidentReported_RideID = jt_zero ride_id,
     SafetyIncidentReported_Severity = jt_zero incident_severity\<rparr>"

record ('ride, 'phone) SafetyTripShared =
  SafetyTripShared_RideID :: 'ride
  SafetyTripShared_SharedWithPhone :: 'phone

definition SafetyTripShared_fields ::
  "'ride json_type \<Rightarrow> 'phone json_type \<Rightarrow> ('ride, 'phone) SafetyTripShared json_field list" where
  "SafetyTripShared_fields ride_id phone_number =
    [field ''ride_id'' ride_id SafetyTripShared_RideID SafetyTripShared_RideID_update,
     field ''shared_with_phone'' phone_number SafetyTripShared_SharedWithPhone SafetyTripShared_SharedWithPhone_update]"

definition SafetyTripShared_type ::
  "'ride json_type \<Rightarrow> 'phone json_type \<Rightarrow> ('ride, 'phone) SafetyTripShared json_type" where
  "SafetyTripShared_type ride_id phone_number =
    jt_struct ''events'' ''SafetyTripShared'' (SafetyTripShared_fields ride_id phone_number)
    \<lparr>SafetyTripShared_RideID = jt_zero ride_id, SafetyTripShared_SharedWithPhone = jt_zero phone_number\<rparr>"

subsection \<open>Round trips\<close>

lemma SafetyEmergencyTriggered_at:
  assumes "Suc d \<le> maxNestingDepth" "law_at d ride_id (SafetyEmergencyTriggered_RideID p)"
    "law_at d user_id (SafetyEmergencyTriggered_UserID p)"
    "law_at d location (SafetyEmergencyTriggered_Location p)"
    "law_at d emergency_type (SafetyEmergencyTriggered_EmergencyType p)"
  shows "law_at (Suc d) (SafetyEmergencyTriggered_type ride_id user_id location emergency_type) p"
  unfolding SafetyEmergencyTriggered_type_def SafetyEmergencyTriggered_fields_def
  by (rule struct_at, (rule payload_rules assms | simp add: is_ascii_def assms)+)

lemma SafetyIncidentReported_at:
  assumes "Suc d \<le> maxNestingDepth" "law_at d incident_id (SafetyIncidentReported_IncidentID p)"
    "law_at d user_id (SafetyIncidentReported_ReporterID p)"
    "law_at d ride_id (SafetyIncidentReported_RideID p)"
    "law_at d incident_severity (SafetyIncidentReported_Severity p)"
  shows "law_at (Suc d) (SafetyIncidentReported_type incident_id user_id ride_id incident_severity) p"
  unfolding SafetyIncidentReported_type_def SafetyIncidentReported_fields_def
  by (rule struct_at, (rule payload_rules assms | simp add: is_ascii_def assms)+)

lemma SafetyTripShared_at:
  assumes "Suc d \<le> maxNestingDepth" "law_at d ride_id (SafetyTripShared_RideID p)"
    "law_at d phone_number (SafetyTripShared_SharedWithPhone p)"
  shows "law_at (Suc d) (SafetyTripShared_type ride_id phone_number) p"
  unfolding SafetyTripShared_type_def SafetyTripShared_fields_def
  by (rule struct_at, (rule payload_rules assms | simp add: is_ascii_def assms)+)

end
