(* ===== verification/EventJourney.thy ===== *)
theory EventJourney
  imports EndToEnd UserEvents RideEvents PaymentEvents DriverEvents SafetyEvents
begin

section \<open>A typed payload from creation to handling\<close>

text \<open>
  An event payload is marshalled by \<open>New\<close>, travels inside the envelope as raw JSON and is read
  by the handler with \<open>UnmarshalPayload\<close>. The lemmas compose the round trips of the payload and
  of the envelope.
\<close>

text \<open>\<open>json.Unmarshal\<close> as \<open>UnmarshalPayload\<close> calls it.\<close>

definition unmarshal_into :: "'p json_type \<Rightarrow> bytes \<Rightarrow> 'p \<Rightarrow> 'p \<times> go_error option" where
  "unmarshal_into T data p = (case json_Unmarshal T data p of (e, p') \<Rightarrow> (p', e))"

definition config_wire :: "('uid \<Rightarrow> bool) \<Rightarrow> ('uid, 'p) envelope_config \<Rightarrow> bool" where
  "config_wire P cfg \<longleftrightarrow> list_all valid_utf8 [ecfg_Type cfg, ecfg_Version cfg, ecfg_Source cfg, ecfg_CorrelationID cfg,
      ecfg_CausationID cfg] \<and> (case ecfg_Actor cfg of None \<Rightarrow> True | Some a \<Rightarrow> actor_wire P a)"

lemma New_payload:
  assumes "envelope_New d (Some cfg) = Inr e" "ecfg_Payload cfg = Some p" "marshal_payload d = json_Marshal T"
    and "law_at k T p"
  shows "\<exists>v. env_Payload e = Some v \<and> clean_value k v \<and> unmarshal_into T v (jt_zero T) = (p, None)"
proof -
  from law_at_Unmarshal [OF assms(4)] obtain v where
    v: "json_Marshal T p = Inr v" "clean_value k v" "json_Unmarshal T v (jt_zero T) = (None, p)" by blast
  from assms(1-3) v(1) have "env_Payload e = Some v" by (auto simp: envelope_New_Inr_iff)
  with v show ?thesis by (auto simp: unmarshal_into_def)
qed

lemma New_wire:
  assumes "envelope_New d (Some cfg) = Inr e" "config_wire P cfg" "\<And>u. valid_utf8 (UserID_String d u)"
    and "printable_time (time_UTC (time_Now d))" "clean_raw (Suc k) (env_Payload e)"
  shows "envelope_wire k P e"
proof -
  from assms(1) obtain u b where "e = \<lparr>env_ID = UserID_String d u, env_Type = ecfg_Type cfg, env_Version = ecfg_Version cfg,
      env_Source = ecfg_Source cfg, env_Timestamp = time_UTC (time_Now d), env_CorrelationID = ecfg_CorrelationID cfg,
      env_CausationID = ecfg_CausationID cfg, env_Actor = ecfg_Actor cfg, env_Payload = Some b\<rparr>"
    by (auto simp: envelope_New_Inr_iff)
  with assms show ?thesis by (simp add: envelope_wire_def config_wire_def)
qed

subsection \<open>Properties\<close>

text \<open>
  C5: A payload survives the journey: what \<open>New\<close> makes of a configuration is encoded, is
  decoded on the other side to the same envelope, and \<open>UnmarshalPayload\<close> into a zero value of
  the payload's type then gives the payload that was put in, for every payload type whose
  values JSON can carry.
\<close>

theorem payload_survives_journey:
  assumes "jt_law k P uid" "Suc (Suc k) \<le> maxNestingDepth" "law_at (Suc k) T p"
    and "marshal_payload d = json_Marshal T" "\<And>u. valid_utf8 (UserID_String d u)"
    and "printable_time (time_UTC (time_Now d))"
    and "config_wire P cfg" "ecfg_Payload cfg = Some p" "envelope_New d (Some cfg) = Inr e"
  shows "\<exists>data. marshal_envelope uid e = Inr data \<and> unmarshal_envelope uid data = Inr e \<and>
    UnmarshalPayload (unmarshal_into T) e (Some (jt_zero T)) = (Some p, None)"
proof -
  from New_payload [OF assms(9,8,4,3)] obtain v where
    v: "env_Payload e = Some v" "clean_value (Suc k) v" "unmarshal_into T v (jt_zero T) = (p, None)" by blast
  then have "clean_raw (Suc k) (env_Payload e)" by (simp add: clean_raw_def)
  from envelope_roundtrip [OF assms(1,2) New_wire [OF assms(9,7,5,6) this]] obtain data where
    "marshal_envelope uid e = Inr data" "unmarshal_envelope uid data = Inr e" by blast
  moreover have "UnmarshalPayload (unmarshal_into T) e (Some (jt_zero T)) = (Some p, None)"
    using v clean_value_nonempty [OF v(2)] by (simp add: UnmarshalPayload_def payload_bytes_def)
  ultimately show ?thesis by blast
qed

text \<open>The witness: a completed ride, with a numeric codec for the distance.\<close>

definition sample_ride :: "(nat, int64) RideCompleted" where
  "sample_ride = \<lparr>RideCompleted_RideID = 12, RideCompleted_EndTime = time_zero, RideCompleted_DistanceKM = 7,
     RideCompleted_DurationMins = -3, RideCompleted_Fare = 4200\<rparr>"

definition ride_codec :: "(nat, int64) RideCompleted json_type" where
  "ride_codec = RideCompleted_type sample_uid (jt_int ''float64'')"

lemma sample_ride_at: "law_at 1 ride_codec sample_ride"
proof -
  have "Suc 0 \<le> maxNestingDepth" "printable_time (RideCompleted_EndTime sample_ride)"
    by (simp_all add: maxNestingDepth_def sample_ride_def printable_time_zero)
  from RideCompleted_at [OF this(1) law_atI [OF sample_uid_law TrueI] this(2) int_at] show ?thesis
    by (simp add: ride_codec_def)
qed

definition ride_deps :: "(nat, (nat, int64) RideCompleted) envelope_deps" where
  "ride_deps = \<lparr>ids_NewUserID = Inr 7, UserID_String = (\<lambda>u. itoa (int u)),
     time_Now = \<lparr>t_sec = 63900000000, t_nsec = 5, t_off = 7200\<rparr>, marshal_payload = json_Marshal ride_codec\<rparr>"

definition ride_config :: "(nat, (nat, int64) RideCompleted) envelope_config" where
  "ride_config = \<lparr>ecfg_Type = EventTypeRideCompleted, ecfg_Version = VersionLatest, ecfg_Source = ''ride-service'',
     ecfg_CorrelationID = ''corr-1'', ecfg_CausationID = [], ecfg_Actor = Some \<lparr>actor_ID = 3, actor_Type = ActorTypeUser\<rparr>,
     ecfg_Payload = Some sample_ride\<rparr>"

theorem payload_survives_journey_witness:
  "\<exists>e data. envelope_New ride_deps (Some ride_config) = Inr e \<and> marshal_envelope sample_uid e = Inr data \<and>
     unmarshal_envelope sample_uid data = Inr e \<and>
     UnmarshalPayload (unmarshal_into ride_codec) e (Some (jt_zero ride_codec)) = (Some sample_ride, None)"
proof -
  have cfg: "validateConfig (Some ride_config) = None"
    by (simp add: validateConfig_def ride_config_def EventTypeRideCompleted_def VersionLatest_def semverRegex_def
        RPlus_def RChar_def is_digit_def)
  obtain v where "json_Marshal ride_codec sample_ride = Inr v" using law_at_Unmarshal [OF sample_ride_at] by blast
  with cfg obtain e where e: "envelope_New ride_deps (Some ride_config) = Inr e"
    by (auto simp: envelope_New_def generateEventID_def ride_deps_def ride_config_def)
  have "printable_time (time_UTC (time_Now ride_deps))"
    by (simp add: ride_deps_def time_UTC_def printable_time_def civil_date_def civil_year_def Let_def month_lengths_def leap_year_def)
  moreover have "valid_utf8 (UserID_String ride_deps u)" for u
    by (simp add: ride_deps_def itoa_def valid_utf8_digits nat_digits_all)
  moreover have "config_wire (\<lambda>_. True) ride_config"
    by (simp add: config_wire_def ride_config_def EventTypeRideCompleted_def VersionLatest_def ActorTypeUser_def actor_wire_def is_ascii_def)
  moreover have "Suc (Suc 0) \<le> maxNestingDepth" "law_at (Suc 0) ride_codec sample_ride"
    "marshal_payload ride_deps = json_Marshal ride_codec" "ecfg_Payload ride_config = Some sample_ride"
    using sample_ride_at by (simp_all add: maxNestingDepth_def ride_deps_def ride_config_def)
  ultimately show ?thesis
    using payload_survives_journey [where T = ride_codec and e = e, OF sample_uid_law] e by blast
qed

end
