(* ===== verification/PayloadRoundtrips.thy ===== *)
theory PayloadRoundtrips
  imports UserEvents RideEvents PaymentEvents DriverEvents SafetyEvents EnvelopeJson Topics
begin

section \<open>Event payloads are read as they were written\<close>

text \<open>
  The round trips of the payloads, stated on the two entry points of the JSON package. A payload
  is carried if its parts are: its identifiers and values of other modules by their own codecs
  (\<open>law_at\<close>), its texts if they are UTF-8, its times if they have a four-digit year and a zone in
  whole minutes; integers always are.
\<close>

definition read_back :: "'a json_type \<Rightarrow> 'a \<Rightarrow> bool" where
  "read_back T a \<longleftrightarrow> (\<exists>v. json_Marshal T a = Inr v \<and> json_valid v \<and> json_Unmarshal T v (jt_zero T) = (None, a))"

lemma read_backI: "law_at d T a \<Longrightarrow> read_back T a"
  using law_at_Unmarshal [of d T a] clean_value_valid by (auto simp: read_back_def)

text \<open>
  C18: The payloads of a ride's life (request, assignment, arrival, start, completion,
  cancellation, rating) are read back as they were written, whatever their integers are: fares,
  durations, ratings and minutes keep their value over the whole width of the type.
\<close>

theorem ride_payloads_roundtrip:
  assumes "Suc d \<le> maxNestingDepth"
    and "jt_law d Ride ride_id" "jt_law d User user_id" "jt_law d Loc location" "jt_law d Driver driver_id"
  shows "(\<forall>p. Ride (RideRequested_RideID p) \<and> User (RideRequested_RiderID p) \<and> Loc (RideRequested_Pickup p) \<and>
        Loc (RideRequested_Dropoff p) \<and> law_at d service_type (RideRequested_ServiceType p) \<longrightarrow>
      read_back (RideRequested_type ride_id user_id location service_type) p) \<and>
    (\<forall>p. Ride (RideDriverAssigned_RideID p) \<and> Driver (RideDriverAssigned_DriverID p) \<and>
        law_at d vehicle_id (RideDriverAssigned_VehicleID p) \<longrightarrow>
      read_back (RideDriverAssigned_type ride_id driver_id vehicle_id) p) \<and>
    (\<forall>p. Ride (RideDriverArrived_RideID p) \<and> printable_time (RideDriverArrived_ArrivalTime p) \<longrightarrow>
      read_back (RideDriverArrived_type ride_id) p) \<and>
    (\<forall>p. Ride (RideStarted_RideID p) \<and> printable_time (RideStarted_StartTime p) \<and> Loc (RideStarted_StartLocation p) \<longrightarrow>
      read_back (RideStarted_type ride_id location) p) \<and>
    (\<forall>p. Ride (RideCompleted_RideID p) \<and> printable_time (RideCompleted_EndTime p) \<and>
        law_at d float64 (RideCompleted_DistanceKM p) \<longrightarrow>
      read_back (RideCompleted_type ride_id float64) p) \<and>
    (\<forall>p. Ride (RideCancelled_RideID p) \<and> valid_utf8 (RideCancelled_CancelledBy p) \<and>
        law_at d cancellation_reason (RideCancelled_Reason p) \<longrightarrow>
      read_back (RideCancelled_type ride_id cancellation_reason) p) \<and>
    (\<forall>p. Ride (RideRated_RideID p) \<and> valid_utf8 (RideRated_RatedBy p) \<and> valid_utf8 (RideRated_Review p) \<longrightarrow>
      read_back (RideRated_type ride_id) p)"
proof -
  note l = law_atI [OF assms(2)] law_atI [OF assms(3)] law_atI [OF assms(4)] law_atI [OF assms(5)]
  show ?thesis
    by (intro conjI allI impI; elim conjE; rule read_backI)
      (assumption | rule RideRequested_at RideDriverAssigned_at RideDriverArrived_at RideStarted_at RideCompleted_at
         RideCancelled_at RideRated_at assms(1) l)+
qed

lemmas fifth_on = conjunct2 [THEN conjunct2, THEN conjunct2, THEN conjunct2]

theorem ride_payloads_roundtrip_witness:
  "read_back (RideCompleted_type sample_uid (jt_int ''float64'' :: int64 json_type))
     \<lparr>RideCompleted_RideID = 12, RideCompleted_EndTime = time_zero, RideCompleted_DistanceKM = 7,
      RideCompleted_DurationMins = -3, RideCompleted_Fare = 4200\<rparr> \<and>
   read_back (RideRated_type sample_uid)
     \<lparr>RideRated_RideID = 12, RideRated_Rating = 5, RideRated_RatedBy = ''rider'', RideRated_Review = ''fast & <kind>''\<rparr>"
proof -
  have d: "Suc 0 \<le> maxNestingDepth" by (simp add: maxNestingDepth_def)
  note all = ride_payloads_roundtrip [OF d sample_uid_law sample_uid_law sample_uid_law sample_uid_law, THEN fifth_on]
  show ?thesis
    by (rule conjI, rule all [THEN conjunct1, THEN spec, THEN mp], simp add: printable_time_zero int_at,
        rule all [THEN conjunct2, THEN conjunct2, THEN spec, THEN mp], simp add: is_ascii_def)
qed

lemma PayoutID_read_back: "read_back (PayoutID_type uuid) p \<longleftrightarrow> read_back uuid (PayoutID_UUID p)"
  by (cases p) (auto simp: read_back_def PayoutID_type_def json_Marshal_def json_Unmarshal_def
      split: sum.splits prod.splits dec_status.splits)

text \<open>
  C19: The payloads of payments and payouts are read back as they were written, a payout's if the
  UUID in its id, a type of another module, and its other parts are; and a payout id, which embeds
  that UUID and its JSON methods, is itself read back exactly when the UUID is.
\<close>

theorem payment_payloads_roundtrip:
  assumes "Suc d \<le> maxNestingDepth"
    and "jt_law d Payment payment_id" "jt_law d Uuid uuid" "jt_law d Driver driver_id"
  shows "(\<forall>p. Payment (PaymentInitiated_PaymentID p) \<and> law_at d ride_id (PaymentInitiated_RideID p) \<and>
        law_at d payment_method (PaymentInitiated_Method p) \<longrightarrow>
      read_back (PaymentInitiated_type payment_id ride_id payment_method) p) \<and>
    (\<forall>p. Payment (PaymentCompleted_PaymentID p) \<and> valid_utf8 (PaymentCompleted_TransactionRef p) \<longrightarrow>
      read_back (PaymentCompleted_type payment_id) p) \<and>
    (\<forall>p. Payment (PaymentFailed_PaymentID p) \<and> valid_utf8 (PaymentFailed_ErrorCode p) \<and>
        valid_utf8 (PaymentFailed_ErrorMessage p) \<longrightarrow>
      read_back (PaymentFailed_type payment_id) p) \<and>
    (\<forall>p. Payment (PaymentRefunded_PaymentID p) \<and> valid_utf8 (PaymentRefunded_Reason p) \<longrightarrow>
      read_back (PaymentRefunded_type payment_id) p) \<and>
    (\<forall>p. Uuid (PayoutID_UUID (PayoutRequested_PayoutID p)) \<and> Driver (PayoutRequested_DriverID p) \<longrightarrow>
      read_back (PayoutRequested_type uuid driver_id) p) \<and>
    (\<forall>p. Uuid (PayoutID_UUID (PayoutCompleted_PayoutID p)) \<and> valid_utf8 (PayoutCompleted_TransactionRef p) \<longrightarrow>
      read_back (PayoutCompleted_type uuid) p) \<and>
    (\<forall>p. read_back (PayoutID_type uuid) p \<longleftrightarrow> read_back uuid (PayoutID_UUID p))"
proof -
  note l = law_atI [OF assms(2)] law_atI [OF assms(3)] law_atI [OF assms(4)]
  show ?thesis
    by (intro conjI allI PayoutID_read_back; (intro impI; (elim conjE)?; rule read_backI)?)
      (assumption | rule PaymentInitiated_at PaymentCompleted_at PaymentFailed_at PaymentRefunded_at PayoutRequested_at
         PayoutCompleted_at PayoutID_at assms(1) l)+
qed

theorem payment_payloads_roundtrip_witness:
  "read_back (PaymentRefunded_type sample_uid)
     \<lparr>PaymentRefunded_PaymentID = 9, PaymentRefunded_RefundAmount = -1, PaymentRefunded_Reason = ''duplicate''\<rparr> \<and>
   read_back (PayoutRequested_type sample_uid sample_uid)
     \<lparr>PayoutRequested_PayoutID = \<lparr>PayoutID_UUID = 77\<rparr>, PayoutRequested_DriverID = 3, PayoutRequested_Amount = 150000\<rparr>"
proof -
  have d: "Suc 0 \<le> maxNestingDepth" by (simp add: maxNestingDepth_def)
  note all = payment_payloads_roundtrip [OF d sample_uid_law sample_uid_law sample_uid_law, THEN conjunct2, THEN conjunct2, THEN conjunct2]
  show ?thesis
    by (rule conjI, rule all [THEN conjunct1, THEN spec, THEN mp], simp add: is_ascii_def,
        rule all [THEN conjunct2, THEN conjunct1, THEN spec, THEN mp], simp)
qed

text \<open>
  C20: Optional and repeated fields are read back as they were written: an e-mail address or a
  suspending administrator that is absent stays absent (the field is left out), and a list of
  changed fields or documents keeps its order and repetitions, the nil list and the empty list
  staying different.
\<close>

theorem optional_and_list_payloads_roundtrip:
  assumes "Suc (Suc d) \<le> maxNestingDepth" "jt_law d User user_id" "jt_nonnull User user_id"
    and "jt_law d Mail email" "jt_nonnull Mail email"
  shows "(\<forall>p. User (UserRegistered_UserID p) \<and> law_at d phone_number (UserRegistered_Phone p) \<and>
        law_at d user_type (UserRegistered_UserType p) \<and> valid_utf8 (UserRegistered_Name p) \<and>
        (\<forall>a. UserRegistered_Email p = Some a \<longrightarrow> Mail a) \<longrightarrow>
      read_back (UserRegistered_type user_id phone_number user_type email) p) \<and>
    (\<forall>p. User (UserSuspended_UserID p) \<and> valid_utf8 (UserSuspended_Reason p) \<and>
        (\<forall>a. UserSuspended_SuspendedBy p = Some a \<longrightarrow> User a) \<longrightarrow>
      read_back (UserSuspended_type user_id) p) \<and>
    (\<forall>p. User (UserProfileUpdated_UserID p) \<and>
        (\<forall>xs. UserProfileUpdated_ChangedFields p = Some xs \<longrightarrow> list_all valid_utf8 xs) \<longrightarrow>
      read_back (UserProfileUpdated_type user_id) p) \<and>
    (\<forall>p. law_at d driver_id (DriverDocumentsSubmitted_DriverID p) \<and>
        (\<forall>xs. DriverDocumentsSubmitted_DocumentTypes p = Some xs \<longrightarrow> list_all (law_at d document_type) xs) \<longrightarrow>
      read_back (DriverDocumentsSubmitted_type driver_id document_type) p)"
proof -
  have d: "Suc d \<le> maxNestingDepth" using assms(1) by simp
  have nonnull: "nonnull_at user_id a" if "User a" for a
    using assms(3) that by (auto simp: jt_nonnull_def nonnull_at_def)
  have nonnull_mail: "nonnull_at email a" if "Mail a" for a
    using assms(5) that by (auto simp: jt_nonnull_def nonnull_at_def)
  note l = law_atI [OF assms(2)] law_atI [OF assms(4)]
  have "read_back (UserRegistered_type user_id phone_number user_type email) p"
    if "User (UserRegistered_UserID p)" "law_at d phone_number (UserRegistered_Phone p)"
      "law_at d user_type (UserRegistered_UserType p)" "valid_utf8 (UserRegistered_Name p)"
      "\<forall>a. UserRegistered_Email p = Some a \<longrightarrow> Mail a" for p
    by (rule read_backI, rule UserRegistered_at) (use that d l nonnull_mail in blast)+
  moreover have "read_back (UserSuspended_type user_id) p"
    if "User (UserSuspended_UserID p)" "valid_utf8 (UserSuspended_Reason p)"
      "\<forall>a. UserSuspended_SuspendedBy p = Some a \<longrightarrow> User a" for p
    by (rule read_backI, rule UserSuspended_at) (use that d l nonnull in blast)+
  moreover have "read_back (UserProfileUpdated_type user_id) p"
    if "User (UserProfileUpdated_UserID p)"
      "\<forall>xs. UserProfileUpdated_ChangedFields p = Some xs \<longrightarrow> list_all valid_utf8 xs" for p
    by (rule read_backI, rule UserProfileUpdated_at [OF assms(1)])
      (use that law_at_mono [OF l(1), of _ "Suc d"] in \<open>auto simp: list_all_iff\<close>)
  moreover have "read_back (DriverDocumentsSubmitted_type driver_id document_type) p"
    if "law_at d driver_id (DriverDocumentsSubmitted_DriverID p)"
      "\<forall>xs. DriverDocumentsSubmitted_DocumentTypes p = Some xs \<longrightarrow> list_all (law_at d document_type) xs" for p
    by (rule read_backI, rule DriverDocumentsSubmitted_at [OF assms(1)])
      (use that law_at_mono [of d _ _ "Suc d"] in \<open>auto simp: list_all_iff\<close>)
  ultimately show ?thesis by blast
qed

theorem optional_and_list_payloads_roundtrip_witness:
  "read_back (UserSuspended_type sample_uid)
     \<lparr>UserSuspended_UserID = 5, UserSuspended_Reason = ''fraud'', UserSuspended_SuspendedBy = None\<rparr> \<and>
   read_back (UserProfileUpdated_type sample_uid)
     \<lparr>UserProfileUpdated_UserID = 5, UserProfileUpdated_ChangedFields = Some [''name'', ''phone'', ''name'']\<rparr>"
proof -
  have d: "Suc (Suc 0) \<le> maxNestingDepth" by (simp add: maxNestingDepth_def)
  have ne: "jt_nonnull (\<lambda>_. True) sample_uid" by (auto simp: jt_nonnull_def sample_uid_def)
  note all = optional_and_list_payloads_roundtrip [OF d sample_uid_law ne sample_uid_law ne, THEN conjunct2]
  show ?thesis
    by (rule conjI, rule all [THEN conjunct1, THEN spec, THEN mp], simp add: is_ascii_def,
        rule all [THEN conjunct2, THEN conjunct1, THEN spec, THEN mp], simp add: is_ascii_def)
qed

subsection \<open>The partition key of a payload\<close>

lemma event_keys:
  "PartitionKey (ForEventType EventTypeUserRegistered) = ''user_id''"
  "PartitionKey (ForEventType EventTypeUserVerified) = ''user_id''"
  "PartitionKey (ForEventType EventTypeUserProfileUpdated) = ''user_id''"
  "PartitionKey (ForEventType EventTypeUserSuspended) = ''user_id''"
  "PartitionKey (ForEventType EventTypeUserDeleted) = ''user_id''"
  "PartitionKey (ForEventType EventTypeDriverApplicationSubmitted) = ''driver_id''"
  "PartitionKey (ForEventType EventTypeDriverDocumentsSubmitted) = ''driver_id''"
  "PartitionKey (ForEventType EventTypeDriverApproved) = ''driver_id''"
  "PartitionKey (ForEventType EventTypeDriverRejected) = ''driver_id''"
  "PartitionKey (ForEventType EventTypeDriverWentOnline) = ''driver_id''"
  "PartitionKey (ForEventType EventTypeDriverWentOffline) = ''driver_id''"
  "PartitionKey (ForEventType EventTypeDriverLocationUpdated) = ''driver_id''"
  "PartitionKey (ForEventType EventTypeRideRequested) = ''ride_id''"
  "PartitionKey (ForEventType EventTypeRideDriverAssigned) = ''ride_id''"
  "PartitionKey (ForEventType EventTypeRideDriverArrived) = ''ride_id''"
  "PartitionKey (ForEventType EventTypeRideStarted) = ''ride_id''"
  "PartitionKey (ForEventType EventTypeRideCompleted) = ''ride_id''"
  "PartitionKey (ForEventType EventTypeRideCancelled) = ''ride_id''"
  "PartitionKey (ForEventType EventTypeRideRated) = ''ride_id''"
  "PartitionKey (ForEventType EventTypePaymentInitiated) = ''payment_id''"
  "PartitionKey (ForEventType EventTypePaymentCompleted) = ''payment_id''"
  "PartitionKey (ForEventType EventTypePaymentFailed) = ''payment_id''"
  "PartitionKey (ForEventType EventTypePaymentRefunded) = ''payment_id''"
  "PartitionKey (ForEventType EventTypePayoutRequested) = ''payment_id''"
  "PartitionKey (ForEventType EventTypePayoutCompleted) = ''payment_id''"
  "PartitionKey (ForEventType EventTypeSafetyEmergencyTriggered) = ''incident_id''"
  "PartitionKey (ForEventType EventTypeSafetyIncidentReported) = ''incident_id''"
  "PartitionKey (ForEventType EventTypeSafetyTripShared) = ''incident_id''"
  by (simp_all add: ForEventType_def PartitionKey_def Let_def event_type EventType_Domain_takeWhile topic_name)

lemmas payload_fields_defs =
  UserRegistered_fields_def UserVerified_fields_def UserProfileUpdated_fields_def UserSuspended_fields_def
  UserDeleted_fields_def DriverApplicationSubmitted_fields_def DriverDocumentsSubmitted_fields_def DriverApproved_fields_def
  DriverRejected_fields_def DriverWentOnline_fields_def DriverWentOffline_fields_def DriverLocationUpdated_fields_def
  RideRequested_fields_def RideDriverAssigned_fields_def RideDriverArrived_fields_def RideStarted_fields_def
  RideCompleted_fields_def RideCancelled_fields_def RideRated_fields_def PaymentInitiated_fields_def
  PaymentCompleted_fields_def PaymentFailed_fields_def PaymentRefunded_fields_def PayoutRequested_fields_def
  PayoutCompleted_fields_def SafetyEmergencyTriggered_fields_def SafetyIncidentReported_fields_def SafetyTripShared_fields_def

text \<open>
  C15: Every known event type has its payload, and for 24 of the 28 the first field of the payload
  is the one that the topic of the event names as its partition key. The payloads of the two payout
  events have no payment id, and those of an emergency and of a shared trip no incident id: on the
  topics these events are routed to, the key that the topic asks for cannot be taken from them.
\<close>

theorem partition_key_field_in_payload:
  "let keyed =
      [(EventTypeUserRegistered, map fl_name (UserRegistered_fields user_id phone_number user_type email)),
       (EventTypeUserVerified, map fl_name (UserVerified_fields user_id)),
       (EventTypeUserProfileUpdated, map fl_name (UserProfileUpdated_fields user_id)),
       (EventTypeUserSuspended, map fl_name (UserSuspended_fields user_id)),
       (EventTypeUserDeleted, map fl_name (UserDeleted_fields user_id)),
       (EventTypeDriverApplicationSubmitted, map fl_name (DriverApplicationSubmitted_fields driver_id user_id)),
       (EventTypeDriverDocumentsSubmitted, map fl_name (DriverDocumentsSubmitted_fields driver_id document_type)),
       (EventTypeDriverApproved, map fl_name (DriverApproved_fields driver_id user_id)),
       (EventTypeDriverRejected, map fl_name (DriverRejected_fields driver_id user_id)),
       (EventTypeDriverWentOnline, map fl_name (DriverWentOnline_fields driver_id location vehicle_id)),
       (EventTypeDriverWentOffline, map fl_name (DriverWentOffline_fields driver_id)),
       (EventTypeDriverLocationUpdated, map fl_name (DriverLocationUpdated_fields driver_id location float64)),
       (EventTypeRideRequested, map fl_name (RideRequested_fields ride_id user_id location service_type)),
       (EventTypeRideDriverAssigned, map fl_name (RideDriverAssigned_fields ride_id driver_id vehicle_id)),
       (EventTypeRideDriverArrived, map fl_name (RideDriverArrived_fields ride_id)),
       (EventTypeRideStarted, map fl_name (RideStarted_fields ride_id location)),
       (EventTypeRideCompleted, map fl_name (RideCompleted_fields ride_id float64)),
       (EventTypeRideCancelled, map fl_name (RideCancelled_fields ride_id cancellation_reason)),
       (EventTypeRideRated, map fl_name (RideRated_fields ride_id)),
       (EventTypePaymentInitiated, map fl_name (PaymentInitiated_fields payment_id ride_id payment_method)),
       (EventTypePaymentCompleted, map fl_name (PaymentCompleted_fields payment_id)),
       (EventTypePaymentFailed, map fl_name (PaymentFailed_fields payment_id)),
       (EventTypePaymentRefunded, map fl_name (PaymentRefunded_fields payment_id)),
       (EventTypeSafetyIncidentReported, map fl_name (SafetyIncidentReported_fields incident_id user_id ride_id incident_severity))];
     unkeyed =
      [(EventTypePayoutRequested, map fl_name (PayoutRequested_fields uuid driver_id)),
       (EventTypePayoutCompleted, map fl_name (PayoutCompleted_fields uuid)),
       (EventTypeSafetyEmergencyTriggered, map fl_name (SafetyEmergencyTriggered_fields ride_id user_id location emergency_type)),
       (EventTypeSafetyTripShared, map fl_name (SafetyTripShared_fields ride_id phone_number))]
   in (\<forall>e. EventType_Valid e \<longleftrightarrow> e \<in> set (map fst (keyed @ unkeyed))) \<and>
      list_all (\<lambda>(e, names). hd names = PartitionKey (ForEventType e)) keyed \<and>
      list_all (\<lambda>(e, names). PartitionKey (ForEventType e) \<notin> set names) unkeyed"
  unfolding Let_def
  by (intro conjI allI, fastforce simp: EventType_Valid_def)
    (simp_all add: payload_fields_defs event_keys)

end
