(* ===== verification/JsonProgress.thy ===== *)
theory JsonProgress
  imports JsonArray JsonTime
begin

section \<open>The decoder keeps step with the scanner\<close>

text \<open>
  The decoder walks over a text that the scanner has accepted and relies on it: where the text
  did not have the expected shape it would panic. The lemmas show that it cannot: every value
  the decoder delimits inside an accepted text is a complete value, the members of an object and
  the elements of an array are found, and every key and string can be unquoted.
\<close>

definition accepted :: "bytes \<Rightarrow> scanner \<Rightarrow> bool" where
  "accepted r q \<longleftrightarrow> (case scan_run r q of None \<Rightarrow> False | Some s \<Rightarrow> scan_eof s)"

definition complete_value :: "bytes \<Rightarrow> bool" where
  "complete_value v \<longleftrightarrow> (case scan_run v (BeginValue, []) of None \<Rightarrow> False | Some s \<Rightarrow> value_end s) \<and>
     v \<noteq> [] \<and> \<not> json_space (hd v) \<and> \<not> json_space (last v)"

lemma accepted_Cons: "accepted (x # xs) q \<longleftrightarrow> (\<exists>t. scan_step x q = Some t \<and> accepted xs t)"
  by (auto simp: accepted_def split: option.splits)

lemma accepted_Nil: "accepted [] q \<longleftrightarrow> scan_eof q"
  by (simp add: accepted_def)

lemma accepted_nonempty: "accepted r q \<Longrightarrow> scanner_wf q \<Longrightarrow> \<not> value_end q \<Longrightarrow> \<exists>x xs. r = x # xs"
  by (cases r) (auto simp: accepted_Nil dest: scan_eof_value_end)

text \<open>Space that a state skips.\<close>

lemma accepted_skip_space:
  assumes "accepted r q" "scanner_wf q" "\<not> value_end q" "\<And>x. json_space x \<Longrightarrow> scan_step x q = Some q"
  shows "\<exists>x xs. skip_space r = x # xs \<and> \<not> json_space x \<and> accepted (x # xs) q"
  using assms(1)
proof (induction r)
  case Nil
  with accepted_nonempty [OF Nil assms(2,3)] show ?case by simp
next
  case (Cons x xs)
  show ?case
  proof (cases "json_space x")
    case True
    with Cons assms(4) [OF True] show ?thesis by (simp add: accepted_Cons skip_space_def)
  qed (use Cons.prems in \<open>simp add: skip_space_def\<close>)
qed

lemma accepted_end_value:
  assumes "accepted r (EndValue, p # ps)"
  shows "\<exists>c r3. skip_space r = c # r3 \<and> \<not> json_space c \<and> accepted (c # r3) (EndValue, p # ps)"
  by (rule accepted_skip_space [OF assms]) (auto simp: scanner_wf_def value_end_def end_value_def)

subsection \<open>Delimiting a value\<close>

lemma unlift_end_value:
  assumes "end_value x (stk @ ctx) = Some t'" "stk \<noteq> []" "ctx \<noteq> []"
  shows "\<exists>t. end_value x stk = Some t \<and> t' = lift ctx t"
  using assms by (cases stk; cases "hd stk") (auto simp: end_value_def pop_state_def split: if_splits)

lemma unlift_push:
  assumes "push_state st p (stk @ ctx) = Some t'" "st \<noteq> EndTop"
  shows "\<exists>t. push_state st p stk = Some t \<and> t' = lift ctx t"
  using assms by (auto simp: push_state_def split: if_splits)

lemma unlift_begin_value:
  assumes "begin_value x (stk @ ctx) = Some t'"
  shows "\<exists>t. begin_value x stk = Some t \<and> t' = lift ctx t"
proof -
  consider "json_space x" | "\<not> json_space x" "x = CHR ''{''" | "\<not> json_space x" "x = CHR ''[''"
    | "\<not> json_space x" "x \<noteq> CHR ''{''" "x \<noteq> CHR ''[''" by blast
  then show ?thesis
  proof cases
    case 2
    with assms unlift_push show ?thesis by (simp add: begin_value_def)
  next
    case 3
    with assms unlift_push show ?thesis by (simp add: begin_value_def)
  next
    case 4
    with assms scalar_start_states [of x] show ?thesis by (auto simp: begin_value_def)
  qed (use assms in \<open>auto simp: begin_value_def\<close>)
qed

lemma unlift_begin_string:
  "begin_string x (stk @ ctx) = Some t' \<Longrightarrow> \<exists>t. begin_string x stk = Some t \<and> t' = lift ctx t"
  by (auto simp: begin_string_def split: if_splits)

lemma unlift_expect: "expect b st (stk @ ctx) = Some t' \<Longrightarrow> st \<noteq> EndTop \<Longrightarrow> \<exists>t. expect b st stk = Some t \<and> t' = lift ctx t"
  by (auto simp: expect_def split: if_splits)

text \<open>A state in which the value may be over, before a byte that could close it in its context.\<close>

lemma unlift_finished:
  assumes "end_value x (stk @ ctx) = Some t'" "ctx \<noteq> []"
  shows "(\<exists>t. end_value x stk = Some t \<and> t' = lift ctx t) \<or> (end_value x stk = None \<and> stk = [] \<and> end_value x ctx = Some t')"
proof (cases "stk = []")
  case True
  obtain p ps where ctx: "ctx = p # ps" using assms(2) by (cases ctx) auto
  show ?thesis
  proof (cases "json_space x")
    case True
    with \<open>stk = []\<close> assms(1) ctx show ?thesis by (simp add: end_value_def end_top_def)
  next
    case False
    with True assms show ?thesis by (simp add: end_value_def end_top_def)
  qed
qed (use unlift_end_value assms in blast)

lemma unlift_state_0:
  assumes "state_0 x (stk @ ctx) = Some t'" "ctx \<noteq> []"
  shows "(\<exists>t. state_0 x stk = Some t \<and> t' = lift ctx t) \<or> (state_0 x stk = None \<and> stk = [] \<and> end_value x ctx = Some t')"
  using assms unlift_finished [of x stk ctx t'] by (auto simp: state_0_def split: if_splits)

lemma unlift_step:
  assumes "scan_step x (lift ctx q) = Some t'" "scanner_wf q" "ctx \<noteq> []"
  shows "(\<exists>t. scan_step x q = Some t \<and> t' = lift ctx t) \<or>
    (scan_step x q = None \<and> value_end q \<and> end_value x ctx = Some t')"
proof -
  obtain st stk where q: "q = (st, stk)" by (cases q)
  show ?thesis
  proof (cases st)
    case EndTop
    with assms q have "stk = []" by (simp add: scanner_wf_def)
    with EndTop q assms unlift_finished [of x "[]" ctx t'] show ?thesis
      by (auto simp: value_end_def end_value_def)
  next
    case EndValue
    with q assms unlift_finished [of x stk ctx t'] show ?thesis by (auto simp: value_end_def)
  next
    case St1
    with q assms unlift_state_0 [of x stk ctx t'] show ?thesis
      by (auto simp: value_end_def number_end_def split: if_splits)
  next
    case St0
    with q assms unlift_state_0 [of x stk ctx t'] show ?thesis by (auto simp: value_end_def number_end_def)
  next
    case StDot0
    with q assms unlift_finished [of x stk ctx t'] show ?thesis
      by (auto simp: value_end_def number_end_def split: if_splits)
  next
    case StE0
    with q assms unlift_finished [of x stk ctx t'] show ?thesis
      by (auto simp: value_end_def number_end_def split: if_splits)
  next
    case BeginStringOrEmpty
    with q assms have ne: "stk \<noteq> []" by (simp add: scanner_wf_def)
    then have "tl (stk @ ctx) = tl stk @ ctx" by simp
    with BeginStringOrEmpty q assms ne unlift_end_value [of x "ObjectValue # tl stk" ctx t'] unlift_begin_string [of x stk ctx t']
    show ?thesis by (auto split: if_splits)
  next
    case BeginValueOrEmpty
    with q assms have "stk \<noteq> []" by (simp add: scanner_wf_def)
    with BeginValueOrEmpty q assms unlift_end_value [of x stk ctx t'] unlift_begin_value [of x stk ctx t'] show ?thesis
      by (auto split: if_splits)
  qed (use q assms unlift_begin_value [of x stk ctx t'] unlift_begin_string [of x stk ctx t'] unlift_expect in
      \<open>auto split: if_splits\<close>)
qed

definition value_over :: "scanner \<Rightarrow> char \<Rightarrow> bool" where
  "value_over q x \<longleftrightarrow> fst q = EndTop \<or> snd q = [] \<and> (fst q = EndValue \<or> number_end (fst q) \<and> json_space x)"

lemma scan_value_Cons: "scan_value (x # xs) q =
    (if value_over q x then ([], x # xs)
     else (case scan_step x q of None \<Rightarrow> ([], x # xs) | Some t \<Rightarrow> (case scan_value xs t of (v, r) \<Rightarrow> (x # v, r))))"
  by (simp add: value_over_def)

lemma value_over_end: "value_over q x \<Longrightarrow> scanner_wf q \<Longrightarrow> value_end q"
  by (auto simp: value_over_def value_end_def scanner_wf_def)

lemma space_ends_value:
  assumes "json_space x" "scan_step x q = Some t" "value_end t"
  shows "value_over q x"
proof -
  obtain st stk where q: "q = (st, stk)" by (cases q)
  have ev: "end_value x stk = Some t \<Longrightarrow> stk = []"
    using assms(1,3) by (cases stk) (auto simp: end_value_def value_end_def)
  have s0: "state_0 x stk = end_value x stk" "\<not> is_digit x" "\<not> digit19 x" "\<not> is_hex x"
    using assms(1) by (auto simp: json_space_def state_0_def is_digit_def digit19_def is_hex_def)
  have bv: "begin_value x stk = Some (BeginValue, stk)" "begin_string x stk = Some (BeginString, stk)"
    using assms(1) by (simp_all add: begin_value_def begin_string_def)
  have ns: "x \<noteq> CHR 0x22" "x \<noteq> CHR 0x5C" "x \<noteq> CHR ''.''" "x \<noteq> CHR ''e''" "x \<noteq> CHR ''E''" "x \<noteq> CHR ''u''" "x \<noteq> CHR ''-''"
    "x \<noteq> CHR ''+''" "x \<noteq> CHR ''0''" "x \<noteq> CHR ''r''" "x \<noteq> CHR ''a''" "x \<noteq> CHR ''l''" "x \<noteq> CHR ''s''" "x \<noteq> CHR ''b''" "x \<noteq> CHR ''f''" "x \<noteq> CHR ''n''" "x \<noteq> CHR ''t''" "x \<noteq> CHR ''/''"
    using assms(1) by (auto simp: json_space_def)
  show ?thesis
    using assms(2,3) ev
    by (cases st; simp add: q s0 bv ns assms(1) expect_def value_over_def value_end_def number_end_def split: if_splits)
      (auto simp: value_end_def number_end_def)
qed

text \<open>A value inside an object or array: its text is complete, and the context goes on behind it.\<close>

lemma value_extent:
  assumes "accepted r (lift (p # ps) q)" "scanner_wf q"
  shows "\<exists>v r2 s. scan_value r q = (v, r2) \<and> scan_run v q = Some s \<and> value_end s \<and> (v = [] \<or> \<not> json_space (last v)) \<and>
    (\<exists>c r3. skip_space r2 = c # r3 \<and> \<not> json_space c \<and> accepted (c # r3) (EndValue, p # ps))"
  using assms
proof (induction r arbitrary: q)
  case Nil
  have "scanner_wf (lift (p # ps) q)" using Nil.prems(2) by (auto simp: scanner_wf_def lift_def)
  with Nil.prems(1) have "value_end (lift (p # ps) q)" by (simp add: accepted_Nil scan_eof_value_end)
  then show ?case by (simp add: value_end_def lift_def)
next
  case (Cons x xs)
  let ?ctx = "p # ps"
  from Cons.prems(1) obtain t' where t': "scan_step x (lift ?ctx q) = Some t'" "accepted xs t'" by (auto simp: accepted_Cons)
  have behind: "\<exists>c r3. skip_space (x # xs) = c # r3 \<and> \<not> json_space c \<and> accepted (c # r3) (EndValue, ?ctx)"
    if "end_value x ?ctx = Some t'"
    using that t'(2) by (intro accepted_end_value) (simp add: accepted_Cons)
  show ?case
  proof (cases "value_over q x")
    case True
    have "end_value x ?ctx = Some t'"
    proof (cases "fst q = EndTop \<or> fst q = EndValue")
      case True
      with \<open>value_over q x\<close> Cons.prems(2) have "lift ?ctx q = (EndValue, ?ctx)"
        by (cases q) (auto simp: value_over_def scanner_wf_def number_end_def)
      with t'(1) show ?thesis by simp
    next
      case False
      with True have sp: "json_space x" "snd q = []" "number_end (fst q)" by (auto simp: value_over_def)
      then have "\<not> is_digit x" "state_0 x ?ctx = end_value x ?ctx" "x \<noteq> CHR ''e''" "x \<noteq> CHR ''E''"
        by (auto simp: json_space_def is_digit_def state_0_def)
      with sp t'(1) show ?thesis by (cases q) (auto simp: number_end_def)
    qed
    from behind [OF this] True value_over_end [OF True Cons.prems(2)] show ?thesis
      by (intro exI [of _ "[]"] exI [of _ "x # xs"] exI [of _ q]) (simp add: scan_value_Cons del: scan_value.simps)
  next
    case False
    from unlift_step [OF t'(1) Cons.prems(2)] consider
      t where "scan_step x q = Some t" "t' = lift ?ctx t"
      | "scan_step x q = None" "value_end q" "end_value x ?ctx = Some t'" by auto
    then show ?thesis
    proof cases
      case 1
      from Cons.IH [of t] t'(2) 1 scan_step_wf [OF 1(1) Cons.prems(2)] obtain v r2 s where
        ih: "scan_value xs t = (v, r2)" "scan_run v t = Some s" "value_end s" "v = [] \<or> \<not> json_space (last v)"
        "\<exists>c r3. skip_space r2 = c # r3 \<and> \<not> json_space c \<and> accepted (c # r3) (EndValue, ?ctx)" by blast
      have "\<not> json_space (last (x # v))"
      proof (cases "v = []")
        case True
        with ih(2,3) space_ends_value [OF _ 1(1)] False show ?thesis by auto
      qed (use ih(4) in simp)
      with False 1 ih show ?thesis by (simp add: scan_value_Cons del: scan_value.simps split_paired_Ex)
    next
      case 2
      with False behind show ?thesis by (simp add: scan_value_Cons del: scan_value.simps split_paired_Ex)
    qed
  qed
qed

lemma top_value_extent:
  assumes "accepted r q" "scanner_wf q"
  shows "\<exists>v r2 s. scan_value r q = (v, r2) \<and> scan_run v q = Some s \<and> value_end s \<and> (v = [] \<or> \<not> json_space (last v))"
  using assms
proof (induction r arbitrary: q)
  case Nil
  then show ?case by (intro exI [of _ "[]"] exI [of _ q]) (simp add: accepted_Nil scan_eof_value_end)
next
  case (Cons x xs)
  show ?case
  proof (cases "value_over q x")
    case True
    with value_over_end [OF True Cons.prems(2)] show ?thesis
      by (intro exI [of _ "[]"] exI [of _ "x # xs"] exI [of _ q]) (simp add: scan_value_Cons del: scan_value.simps)
  next
    case False
    from Cons.prems obtain t where t: "scan_step x q = Some t" "accepted xs t" by (auto simp: accepted_Cons)
    from Cons.IH [OF t(2) scan_step_wf [OF t(1) Cons.prems(2)]] obtain v r2 s where
      ih: "scan_value xs t = (v, r2)" "scan_run v t = Some s" "value_end s" "v = [] \<or> \<not> json_space (last v)" by blast
    have "\<not> json_space (last (x # v))"
    proof (cases "v = []")
      case True
      with ih(2,3) space_ends_value [OF _ t(1)] False show ?thesis by auto
    qed (use ih(4) in simp)
    with False t ih show ?thesis by (simp add: scan_value_Cons del: scan_value.simps split_paired_Ex)
  qed
qed

lemma begin_value_space: "json_space x \<Longrightarrow> scan_step x (BeginValue, stk) = Some (BeginValue, stk)"
  by (simp add: begin_value_def)

lemma not_value_end_start: "\<not> value_end (BeginValue, stk)" "\<not> value_end (InString, stk)"
  by (simp_all add: value_end_def number_end_def)

lemma next_value_complete:
  assumes "accepted r (BeginValue, p # ps)"
  shows "\<exists>v r2. next_value r = (v, r2) \<and> complete_value v \<and>
    (\<exists>c r3. skip_space r2 = c # r3 \<and> \<not> json_space c \<and> accepted (c # r3) (EndValue, p # ps))"
proof -
  from accepted_skip_space [OF assms scanner_wf_start not_value_end_start(1) begin_value_space] obtain x xs where
    x: "skip_space r = x # xs" "\<not> json_space x" "accepted (x # xs) (BeginValue, p # ps)" by blast
  then have "accepted (x # xs) (lift (p # ps) (BeginValue, []))" by simp
  from value_extent [OF this scanner_wf_start] obtain v r2 s where
    v: "scan_value (x # xs) (BeginValue, []) = (v, r2)" "scan_run v (BeginValue, []) = Some s" "value_end s"
    "v = [] \<or> \<not> json_space (last v)"
    "\<exists>c r3. skip_space r2 = c # r3 \<and> \<not> json_space c \<and> accepted (c # r3) (EndValue, p # ps)" by blast
  have "v \<noteq> []" using v(2,3) not_value_end_start(1) [of "[]"] by auto
  with scan_value_split [OF v(1)] have "hd v = x" by (cases v) auto
  with v x \<open>v \<noteq> []\<close> show ?thesis by (simp add: next_value_def complete_value_def)
qed

lemma next_value_top:
  assumes "json_valid data"
  shows "complete_value (fst (next_value data))"
proof -
  from assms have "accepted data (BeginValue, [])" by (simp add: json_valid_def accepted_def)
  from accepted_skip_space [OF this scanner_wf_start not_value_end_start(1) begin_value_space] obtain x xs where
    x: "skip_space data = x # xs" "\<not> json_space x" "accepted (x # xs) (BeginValue, [])" by blast
  from top_value_extent [OF x(3) scanner_wf_start] obtain v r2 s where
    v: "scan_value (x # xs) (BeginValue, []) = (v, r2)" "scan_run v (BeginValue, []) = Some s" "value_end s"
    "v = [] \<or> \<not> json_space (last v)" by blast
  have "v \<noteq> []" using v(2,3) not_value_end_start(1) [of "[]"] by auto
  with scan_value_split [OF v(1)] have "hd v = x" by (cases v) auto
  with v x \<open>v \<noteq> []\<close> show ?thesis by (simp add: next_value_def complete_value_def)
qed

subsection \<open>Members and elements\<close>

lemma next_key:
  assumes "accepted r (st, ObjectKey # ps)" "st = BeginString \<or> st = BeginStringOrEmpty"
    "\<forall>x xs. skip_space r = x # xs \<longrightarrow> x \<noteq> CHR ''}''"
  shows "\<exists>k r2 r3. next_value r = (k, r2) \<and> complete_value k \<and> value_kind k = KString \<and> skip_space r2 = CHR '':'' # r3 \<and>
    accepted r3 (BeginValue, ObjectValue # ps)"
proof -
  have wf: "scanner_wf (st, ObjectKey # ps)" "\<not> value_end (st, ObjectKey # ps)"
    using assms(2) by (auto simp: scanner_wf_def value_end_def)
  have sp: "scan_step y (st, ObjectKey # ps) = Some (st, ObjectKey # ps)" if "json_space y" for y
    using assms(2) that by (auto simp: begin_string_def)
  from accepted_skip_space [OF assms(1) wf sp] obtain x xs where
    x: "skip_space r = x # xs" "\<not> json_space x" "accepted (x # xs) (st, ObjectKey # ps)" by blast
  with assms(2,3) have x22: "x = CHR 0x22" "accepted xs (InString, ObjectKey # ps)"
    by (auto simp: accepted_Cons begin_string_def split: if_splits)
  then have "accepted xs (lift (ObjectKey # ps) (InString, []))" by simp
  from value_extent [OF this] obtain v r2 s where
    v: "scan_value xs (InString, []) = (v, r2)" "scan_run v (InString, []) = Some s" "value_end s" "v = [] \<or> \<not> json_space (last v)"
    "\<exists>c r3. skip_space r2 = c # r3 \<and> \<not> json_space c \<and> accepted (c # r3) (EndValue, ObjectKey # ps)"
    by (auto simp: scanner_wf_def)
  have "v \<noteq> []" using v(2,3) not_value_end_start(2) [of "[]"] by auto
  have "scan_value (x # xs) (BeginValue, []) = (x # v, r2)"
    using v(1) by (simp add: x22 value_over_def scan_value_Cons begin_value_def scalar_start_def number_end_def del: scan_value.simps)
  moreover have "complete_value (x # v)"
    using v \<open>v \<noteq> []\<close> by (simp add: complete_value_def x22 begin_value_def scalar_start_def)
  moreover have "value_kind (x # v) = KString" by (simp add: x22 value_kind_def)
  moreover from v(5) obtain c r3 where "skip_space r2 = c # r3" "\<not> json_space c" "accepted (c # r3) (EndValue, ObjectKey # ps)" by blast
  ultimately show ?thesis using x(1) by (auto simp: next_value_def accepted_Cons end_value_def split: if_splits)
qed

definition members_complete :: "(bytes \<times> bytes) list \<Rightarrow> bool" where
  "members_complete ms \<longleftrightarrow> list_all (\<lambda>(k, v). complete_value k \<and> value_kind k = KString \<and> complete_value v) ms"

lemma read_members_complete:
  "accepted r (st, [ObjectKey]) \<Longrightarrow> st = BeginString \<or> st = BeginStringOrEmpty \<Longrightarrow>
   (st = BeginStringOrEmpty \<longrightarrow> (\<forall>x xs. skip_space r = x # xs \<longrightarrow> x \<noteq> CHR ''}'')) \<Longrightarrow>
   \<exists>ms. read_members r = Some ms \<and> members_complete ms"
proof (induction "length r" arbitrary: r st rule: less_induct)
  case (less r)
  note 1 = less
  have nb: "\<forall>x xs. skip_space r = x # xs \<longrightarrow> x \<noteq> CHR ''}''"
  proof (intro allI impI notI)
    fix x xs assume that: "skip_space r = x # xs" and x: "x = CHR ''}''"
    with 1(3,4) that have st: "st = BeginString" by blast
    have "scanner_wf (st, [ObjectKey])" "\<not> value_end (st, [ObjectKey])"
      "\<And>y. json_space y \<Longrightarrow> scan_step y (st, [ObjectKey]) = Some (st, [ObjectKey])"
      using st by (simp_all add: scanner_wf_def value_end_def begin_string_def)
    from accepted_skip_space [OF 1(2) this] that x st show False by (auto simp: accepted_Cons begin_string_def)
  qed
  from next_key [OF 1(2,3) nb] obtain k r2 r3 where
    k: "next_value r = (k, r2)" "complete_value k" "value_kind k = KString" "skip_space r2 = CHR '':'' # r3"
    "accepted r3 (BeginValue, [ObjectValue])" by blast
  from next_value_complete [OF k(5)] obtain v r4 c r5 where
    v: "next_value r3 = (v, r4)" "complete_value v" "skip_space r4 = c # r5" "\<not> json_space c"
    "accepted (c # r5) (EndValue, [ObjectValue])" by blast
  consider "c = CHR ''}''" | "c = CHR '',''" "accepted r5 (BeginString, [ObjectKey])"
    using v(4,5) by (auto simp: accepted_Cons end_value_def split: if_splits)
  then show ?case
  proof cases
    case 1
    with k v show ?thesis by (simp add: read_members.simps [of r] members_complete_def)
  next
    case 2
    have "length r5 < length r"
      using next_value_length [OF k(1)] next_value_length [OF v(1)] skip_space_length [of r2] skip_space_length [of r4] k(4) v(3)
      by simp
    with less.hyps [of r5 BeginString] 2(2) obtain ms where "read_members r5 = Some ms" "members_complete ms" by auto
    with 2 k v show ?thesis by (auto simp: read_members.simps [of r] members_complete_def)
  qed
qed

lemma complete_value_Cons: "complete_value v \<Longrightarrow> \<exists>c r t. v = c # r \<and> scan_step c (BeginValue, []) = Some t \<and> accepted r t"
proof -
  assume v: "complete_value v"
  then have "accepted v (BeginValue, [])" by (auto simp: complete_value_def accepted_def value_end_eof split: option.splits)
  moreover have "v \<noteq> []" using v by (simp add: complete_value_def)
  ultimately show ?thesis by (cases v) (auto simp: accepted_Cons)
qed

lemma value_kind_char: "v \<noteq> [] \<Longrightarrow> value_kind v = KObject \<longleftrightarrow> hd v = CHR ''{''" "v \<noteq> [] \<Longrightarrow> value_kind v = KArray \<longleftrightarrow> hd v = CHR ''[''"
  by (cases v; simp add: value_kind_def)+

lemma obj_members_complete:
  assumes "complete_value v" "value_kind v = KObject"
  shows "\<exists>ms. obj_members v = Some ms \<and> members_complete ms"
proof -
  from complete_value_Cons [OF assms(1)] assms(2) value_kind_char(1) [of v] obtain r t where
    r: "v = CHR ''{'' # r" "scan_step (CHR ''{'') (BeginValue, []) = Some t" "accepted r t" by auto
  then have acc: "accepted r (BeginStringOrEmpty, [ObjectKey])"
    by (auto simp: begin_value_def push_state_def split: if_splits)
  have "scanner_wf (BeginStringOrEmpty, [ObjectKey])" "\<not> value_end (BeginStringOrEmpty, [ObjectKey])"
    "\<And>y. json_space y \<Longrightarrow> scan_step y (BeginStringOrEmpty, [ObjectKey]) = Some (BeginStringOrEmpty, [ObjectKey])"
    by (simp_all add: scanner_wf_def value_end_def)
  from accepted_skip_space [OF acc this] obtain x xs where x: "skip_space r = x # xs" by blast
  show ?thesis
  proof (cases "x = CHR ''}''")
    case True
    with r x show ?thesis by (simp add: obj_members_def members_complete_def)
  next
    case False
    with read_members_complete [OF acc] x r show ?thesis by (simp add: obj_members_def)
  qed
qed

lemma read_elems_complete:
  "accepted r (BeginValue, [ArrayValue]) \<Longrightarrow> \<exists>vs. read_elems r = Some vs \<and> list_all complete_value vs"
proof (induction "length r" arbitrary: r rule: less_induct)
  case (less r)
  from next_value_complete [OF less.prems] obtain v r4 c r5 where
    v: "next_value r = (v, r4)" "complete_value v" "skip_space r4 = c # r5" "\<not> json_space c"
    "accepted (c # r5) (EndValue, [ArrayValue])" by blast
  consider "c = CHR '']''" | "c = CHR '',''" "accepted r5 (BeginValue, [ArrayValue])"
    using v(4,5) by (auto simp: accepted_Cons end_value_def split: if_splits)
  then show ?case
  proof cases
    case 1
    with v show ?thesis by (simp add: read_elems.simps [of r])
  next
    case 2
    have "length r5 < length r" using next_value_length [OF v(1)] skip_space_length [of r4] v(3) by simp
    with less.hyps [of r5] 2(2) obtain vs where "read_elems r5 = Some vs" "list_all complete_value vs" by auto
    with 2 v show ?thesis by (simp add: read_elems.simps [of r])
  qed
qed

lemma arr_elems_complete:
  assumes "complete_value v" "value_kind v = KArray"
  shows "\<exists>vs. arr_elems v = Some vs \<and> list_all complete_value vs"
proof -
  from complete_value_Cons [OF assms(1)] assms(2) value_kind_char(2) [of v] obtain r t where
    r: "v = CHR ''['' # r" "scan_step (CHR ''['') (BeginValue, []) = Some t" "accepted r t" by auto
  have sp: "\<not> json_space (CHR ''['')" by (simp add: json_space_def)
  with r have acc: "accepted r (BeginValueOrEmpty, [ArrayValue])"
    by (auto simp: begin_value_def push_state_def split: if_splits)
  have "scanner_wf (BeginValueOrEmpty, [ArrayValue])" "\<not> value_end (BeginValueOrEmpty, [ArrayValue])"
    "\<And>y. json_space y \<Longrightarrow> scan_step y (BeginValueOrEmpty, [ArrayValue]) = Some (BeginValueOrEmpty, [ArrayValue])"
    by (simp_all add: scanner_wf_def value_end_def)
  from accepted_skip_space [OF acc this] obtain x xs where
    x: "skip_space r = x # xs" "\<not> json_space x" "accepted (x # xs) (BeginValueOrEmpty, [ArrayValue])" by blast
  show ?thesis
  proof (cases "x = CHR '']''")
    case True
    with r x sp show ?thesis by (simp add: arr_elems_def)
  next
    case False
    with x have "accepted (x # xs) (BeginValue, [ArrayValue])" by (simp add: accepted_Cons)
    from read_elems_complete [OF this] obtain vs where vs: "read_elems (x # xs) = Some vs" "list_all complete_value vs" by blast
    have "next_value (x # xs) = next_value r" using x(1,2) by (simp add: next_value_def)
    with vs(1) have "read_elems r = Some vs" by (simp add: read_elems.simps [of r] read_elems.simps [of "x # xs"])
    with False r x sp vs show ?thesis by (simp add: arr_elems_def)
  qed
qed

subsection \<open>String tokens\<close>

text \<open>The text between the quotes, as the scanner accepts it.\<close>

fun string_body :: "bytes \<Rightarrow> bool" where
  "string_body [] = True"
| "string_body (c # cs) =
     (if c = CHR 0x5C then
        (case cs of
           [] \<Rightarrow> False
         | e # r \<Rightarrow>
            if e = CHR ''u'' then 4 \<le> length r \<and> list_all is_hex (take 4 r) \<and> string_body (drop 4 r)
            else e \<in> {CHR ''b'', CHR ''f'', CHR ''n'', CHR ''r'', CHR ''t'', CHR 0x5C, CHR ''/'', CHR 0x22} \<and> string_body r)
      else c \<noteq> CHR 0x22 \<and> 0x20 \<le> (of_char c :: nat) \<and> string_body cs)"

lemma hex_run:
  "scan_run r (InStringEscU, []) = Some s \<Longrightarrow> value_end s \<Longrightarrow>
   \<exists>a b c d r2. r = a # b # c # d # r2 \<and> list_all is_hex [a, b, c, d] \<and> scan_run r2 (InString, []) = Some s"
proof -
  assume run: "scan_run r (InStringEscU, []) = Some s" and e: "value_end s"
  have step: "\<exists>x xs. r = x # xs \<and> is_hex x \<and> scan_run xs (st', []) = Some s"
    if "scan_run r (st, []) = Some s" "\<not> value_end (st, [])" "\<And>x. scan_step x (st, []) = expect (is_hex x) st' []" for r st st'
    using that e by (cases r) (auto simp: expect_def split: option.splits if_splits)
  have n: "\<not> value_end (InStringEscU, [])" "\<not> value_end (InStringEscU1, [])" "\<not> value_end (InStringEscU12, [])"
    "\<not> value_end (InStringEscU123, [])" by (simp_all add: value_end_def number_end_def)
  from step [OF run n(1), of InStringEscU1] obtain a r1 where a: "r = a # r1" "is_hex a" "scan_run r1 (InStringEscU1, []) = Some s" by auto
  from step [OF a(3) n(2), of InStringEscU12] obtain b r2 where b: "r1 = b # r2" "is_hex b" "scan_run r2 (InStringEscU12, []) = Some s" by auto
  from step [OF b(3) n(3), of InStringEscU123] obtain c r3 where c: "r2 = c # r3" "is_hex c" "scan_run r3 (InStringEscU123, []) = Some s" by auto
  from step [OF c(3) n(4), of InString] obtain d r4 where "r3 = d # r4" "is_hex d" "scan_run r4 (InString, []) = Some s" by auto
  with a b c show ?thesis by auto
qed

lemma string_token_body:
  "scan_run v (InString, []) = Some s \<Longrightarrow> value_end s \<Longrightarrow> \<not> json_space (last v) \<Longrightarrow>
   \<exists>b. v = b @ [CHR 0x22] \<and> string_body b"
proof (induction "length v" arbitrary: v rule: less_induct)
  case (less v)
  obtain c cs where v: "v = c # cs" using less.prems not_value_end_start(2) [of "[]"] by (cases v) auto
  have tail: "\<not> json_space (last r)" if "cs = p @ r" "r \<noteq> []" for p r using that less.prems(3) v by simp
  have nonempty: "r \<noteq> []" if "scan_run r (InString, []) = Some s" for r
    using that less.prems(2) not_value_end_start(2) [of "[]"] by auto
  show ?case
  proof (cases "c = CHR 0x22")
    case True
    have "cs = []"
    proof (rule ccontr)
      assume "cs \<noteq> []"
      then obtain x xs where cs: "cs = x # xs" by (cases cs) auto
      with True v less.prems(1) have "json_space x" "scan_run xs (EndTop, []) = Some s"
        by (auto simp: end_value_def end_top_def split: if_splits)
      with scan_run_EndTop have "list_all json_space cs" using cs by auto
      with tail [of "[]" cs] \<open>cs \<noteq> []\<close> show False by (simp add: list_all_iff)
    qed
    with True v show ?thesis by (intro exI [of _ "[]"]) simp
  next
    case not_quote: False
    show ?thesis
    proof (cases "c = CHR 0x5C")
      case True
      with v less.prems(1) have run: "scan_run cs (InStringEsc, []) = Some s" by simp
      then obtain e r where cs: "cs = e # r" using less.prems(2) by (cases cs) (auto simp: value_end_def number_end_def)
      show ?thesis
      proof (cases "e = CHR ''u''")
        case True
        with run cs have "scan_run r (InStringEscU, []) = Some s" by simp
        from hex_run [OF this less.prems(2)] obtain h1 h2 h3 h4 r2 where
          h: "r = h1 # h2 # h3 # h4 # r2" "list_all is_hex [h1, h2, h3, h4]" "scan_run r2 (InString, []) = Some s" by blast
        from less.hyps [OF _ h(3) less.prems(2) tail [of "[e, h1, h2, h3, h4]" r2]] nonempty [OF h(3)] v cs h obtain b where
          "r2 = b @ [CHR 0x22]" "string_body b" by auto
        with v cs h True \<open>c = CHR 0x5C\<close> show ?thesis
          by (intro exI [of _ "c # e # h1 # h2 # h3 # h4 # b"]) simp
      next
        case False
        with run cs have e: "e \<in> {CHR ''b'', CHR ''f'', CHR ''n'', CHR ''r'', CHR ''t'', CHR 0x5C, CHR ''/'', CHR 0x22}"
          and r: "scan_run r (InString, []) = Some s" by (simp_all add: expect_def split: if_splits)
        from less.hyps [OF _ r less.prems(2) tail [of "[e]" r]] nonempty [OF r] v cs obtain b where
          "r = b @ [CHR 0x22]" "string_body b" by auto
        with v cs e False \<open>c = CHR 0x5C\<close> show ?thesis by (intro exI [of _ "c # e # b"]) simp
      qed
    next
      case False
      with not_quote v less.prems(1) have c: "0x20 \<le> (of_char c :: nat)" and r: "scan_run cs (InString, []) = Some s"
        by (simp_all add: expect_def split: if_splits)
      from less.hyps [OF _ r less.prems(2) tail [of "[]" cs]] nonempty [OF r] v obtain b where
        "cs = b @ [CHR 0x22]" "string_body b" by auto
      with v c False not_quote show ?thesis by (intro exI [of _ "c # b"]) simp
    qed
  qed
qed

lemma hex_value_Some: "is_hex c \<Longrightarrow> \<exists>n. hex_value c = Some n"
  by (auto simp: is_hex_def hex_value_def)

lemma string_body_drop_wide:
  "string_body s \<Longrightarrow> n \<le> length s \<Longrightarrow> \<forall>c \<in> set (take n s). 0x80 \<le> (of_char c :: nat) \<Longrightarrow> string_body (drop n s)"
proof (induction n arbitrary: s)
  case (Suc n)
  then obtain c cs where s: "s = c # cs" by (cases s) auto
  with Suc.prems have "c \<noteq> CHR 0x5C" by auto
  with Suc s show ?case by simp
qed simp

lemma string_body_u:
  assumes "string_body (CHR 0x5C # CHR ''u'' # r)"
  shows "\<exists>n. getu4 (CHR 0x5C # CHR ''u'' # r) = Some n" "string_body (drop 4 r)"
proof -
  from assms have "4 \<le> length r" and hex: "list_all is_hex (take 4 r)" and "string_body (drop 4 r)" by simp_all
  then obtain a b c d r2 where r: "r = a # b # c # d # r2"
    by (auto simp: numeral_eq_Suc Suc_le_length_iff)
  with hex have "is_hex a" "is_hex b" "is_hex c" "is_hex d" by (simp_all add: numeral_eq_Suc)
  then obtain w x y z where "hex_value a = Some w" "hex_value b = Some x" "hex_value c = Some y" "hex_value d = Some z"
    using hex_value_Some by metis
  with r show "\<exists>n. getu4 (CHR 0x5C # CHR ''u'' # r) = Some n" by simp
  show "string_body (drop 4 r)" by fact
qed

lemma getu4_shape: "getu4 s = Some n \<Longrightarrow> \<exists>r. s = CHR 0x5C # CHR ''u'' # r \<and> 4 \<le> length r"
  by (cases s rule: getu4.cases) (auto split: if_splits)

lemma unquote_string_body: "string_body s \<Longrightarrow> unquote s \<noteq> None"
proof (induction "length s" arbitrary: s rule: less_induct)
  case (less s)
  have more: "unquote s \<noteq> None" if "unquote_step s = Some (w, n)" "string_body (drop n s)" for w n
  proof -
    from unquote_step_size [OF that(1)] have "length (drop n s) < length s" by (cases s) auto
    from less.hyps [OF this that(2)] that(1) unquote_step_size [OF that(1)] show ?thesis
      by (simp add: unquote.simps [of s])
  qed
  show ?case
  proof (cases s)
    case Nil
    then show ?thesis by (simp add: unquote.simps)
  next
    case (Cons c cs)
    show ?thesis
    proof (cases "c = CHR 0x5C")
      case True
      with less.prems Cons obtain e r where cs: "cs = e # r" by (cases cs) auto
      show ?thesis
      proof (cases "e = CHR ''u''")
        case e: True
        with less.prems Cons True cs have b: "string_body (CHR 0x5C # CHR ''u'' # r)" by simp
        from string_body_u(1) [OF b] obtain rr where rr: "getu4 s = Some rr" using Cons True cs e by auto
        have d6: "drop 6 s = drop 4 r" using Cons cs by simp
        show ?thesis
        proof (cases "0xD800 \<le> rr \<and> rr < 0xE000")
          case False
          with rr Cons True cs e have "unquote_step s = Some (encode_rune rr, 6)" by (auto simp: unquote_step_def)
          from more [OF this] string_body_u(2) [OF b] d6 show ?thesis by simp
        next
          case sur: True
          show ?thesis
          proof (cases "surrogate_pair rr (getu4 (drop 6 s))")
            case None
            with rr sur Cons True cs e have "unquote_step s = Some (encode_rune rune_error, 6)" by (simp add: unquote_step_def)
            from more [OF this] string_body_u(2) [OF b] d6 show ?thesis by simp
          next
            case (Some dec)
            then obtain r2 where "getu4 (drop 6 s) = Some r2" by (auto simp: surrogate_pair_def split: option.splits)
            from getu4_shape [OF this] d6 obtain r3 where r3: "drop 4 r = CHR 0x5C # CHR ''u'' # r3" by auto
            from Some rr sur Cons True cs e have st: "unquote_step s = Some (encode_rune dec, 12)" by (simp add: unquote_step_def)
            have "drop 12 s = drop 4 r3"
            proof -
              have "drop 12 s = drop 6 (drop 6 s)" by simp
              then show ?thesis using d6 r3 by simp
            qed
            with more [OF st] string_body_u(2) [of r3] string_body_u(2) [OF b] r3 show ?thesis by simp
          qed
        qed
      next
        case False
        with less.prems Cons True cs have e: "e \<in> {CHR ''b'', CHR ''f'', CHR ''n'', CHR ''r'', CHR ''t'', CHR 0x5C, CHR ''/'', CHR 0x22}"
          "string_body r" by simp_all
        then obtain w where "simple_escape e = Some w" by (auto simp: simple_escape_def)
        with False Cons True cs have "unquote_step s = Some (w, 2)" by (simp add: unquote_step_def)
        from more [OF this] e(2) Cons cs show ?thesis by simp
      qed
    next
      case False
      with less.prems Cons have c: "c \<noteq> CHR 0x22" "0x20 \<le> (of_char c :: nat)" "string_body cs" by simp_all
      show ?thesis
      proof (cases "is_ascii c")
        case True
        with False c Cons have "unquote_step s = Some ([c], 1)" by (simp add: unquote_step_def)
        from more [OF this] c(3) Cons show ?thesis by simp
      next
        case wide: False
        obtain x n where d: "decode_rune s = (x, n)" by fastforce
        from False wide c Cons d have st: "unquote_step s = Some (encode_rune x, n)" by (simp add: unquote_step_def)
        have "\<forall>c \<in> set (take n s). 0x80 \<le> (of_char c :: nat)" using wide_unit [of c cs x n] d wide Cons by simp
        moreover have "n \<le> length s" using decode_rune_width [of s] d Cons by simp
        ultimately show ?thesis using more [OF st] string_body_drop_wide [OF less.prems] by blast
      qed
    qed
  qed
qed

lemma token_string_complete:
  assumes "complete_value k" "value_kind k = KString"
  shows "token_string k \<noteq> None"
proof -
  from assms obtain v where k: "k = CHR 0x22 # v"
    by (cases k) (auto simp: complete_value_def value_kind_def split: if_splits)
  with assms(1) obtain s where s: "scan_run v (InString, []) = Some s" "value_end s" "\<not> json_space (last k)"
    by (auto simp: complete_value_def begin_value_def scalar_start_def split: option.splits)
  then have "v \<noteq> []" using not_value_end_start(2) [of "[]"] by auto
  with s(3) k have "\<not> json_space (last v)" by simp
  from string_token_body [OF s(1,2) this] obtain b where "v = b @ [CHR 0x22]" "string_body b" by blast
  with unquote_string_body [of b] k show ?thesis by (simp add: token_string_def)
qed

lemma named_members_complete:
  assumes "complete_value v" "value_kind v = KObject"
  shows "\<exists>ms. named_members v = Some ms \<and> list_all (\<lambda>(k, v). complete_value v) ms"
proof -
  from obj_members_complete [OF assms] obtain ms where ms: "obj_members v = Some ms" "members_complete ms" by blast
  then have "list_all (\<lambda>(k, v). token_string k \<noteq> None) ms"
    using token_string_complete by (fastforce simp: members_complete_def list_all_iff)
  with ms(1) have "named_members v = Some (map (\<lambda>(k, v). (the (token_string k), v)) ms)"
    by (simp add: named_members_def)
  moreover have "list_all (\<lambda>(k, v). complete_value v) (map (\<lambda>(k, v). (the (token_string k), v)) ms)"
    using ms(2) by (fastforce simp: members_complete_def list_all_iff)
  ultimately show ?thesis by blast
qed

subsection \<open>Types whose decoder keeps step\<close>

text \<open>A status that does not carry the panic.\<close>

definition in_sync :: "dec_status \<Rightarrow> bool" where
  "in_sync st \<longleftrightarrow> st \<noteq> DecAbort json_phase_error \<and> st \<noteq> DecSaved json_phase_error"

lemma in_sync_simps [simp]: "in_sync DecOk" "in_sync (DecAbort e) \<longleftrightarrow> e \<noteq> json_phase_error" "in_sync (DecSaved e) \<longleftrightarrow> e \<noteq> json_phase_error"
  by (simp_all add: in_sync_def)

definition in_step :: "'a json_type \<Rightarrow> bool" where
  "in_step T \<longleftrightarrow> (\<forall>ctx v a. complete_value v \<longrightarrow> in_sync (snd (jt_dec T ctx v a)))"

lemma type_error_not_phase [simp]: "json_type_error w ty ctx \<noteq> json_phase_error"
  by (simp add: json_type_error_def json_phase_error_def)

lemma string_in_step: "in_step (jt_string ty)"
  using token_string_complete by (auto simp: in_step_def jt_string_def split: value_kind.splits option.splits)

lemma int_in_step: "in_step (jt_int ty)"
  by (auto simp: in_step_def jt_int_def split: value_kind.splits option.splits)

lemma raw_in_step: "in_step jt_raw"
  by (simp add: in_step_def jt_raw_def)

lemma time_in_step: "in_step jt_time"
  by (auto simp: in_step_def jt_time_def time_UnmarshalJSON_def Let_def json_phase_error_def split: option.splits)

lemma ptr_in_step: "in_step T \<Longrightarrow> in_step (jt_ptr T)"
  by (auto simp: in_step_def jt_ptr_def split: prod.splits) (metis snd_conv)

lemma in_sync_then: "in_sync st \<Longrightarrow> in_sync st2 \<Longrightarrow> in_sync (dec_then st st2)"
  by (cases st; cases st2) auto

lemma dec_all_in_step:
  assumes "in_step T"
  shows "list_all complete_value vs \<Longrightarrow> in_sync (snd (dec_all T ctx vs cur))"
proof (induction vs arbitrary: cur)
  case (Cons v vs)
  obtain a st where d: "jt_dec T ctx v (case cur of [] \<Rightarrow> jt_zero T | c # _ \<Rightarrow> c) = (a, st)" by fastforce
  with assms Cons.prems have "in_sync st" by (metis in_step_def list.pred_inject(2) snd_conv)
  moreover obtain as st2 where d2: "dec_all T ctx vs (tl cur) = (as, st2)" by fastforce
  moreover from d2 Cons have "in_sync st2" by (metis list.pred_inject(2) snd_conv)
  ultimately show ?case using d in_sync_then [of st st2] by (cases st) simp_all
qed simp

lemma slice_in_step:
  assumes "in_step T"
  shows "in_step (jt_slice ty T)"
  unfolding in_step_def
proof (intro allI impI)
  fix ctx v and p :: "'a list option"
  assume v: "complete_value v"
  show "in_sync (snd (jt_dec (jt_slice ty T) ctx v p))"
  proof (cases "value_kind v")
    case KArray
    from arr_elems_complete [OF v this] obtain vs where vs: "arr_elems v = Some vs" "list_all complete_value vs" by blast
    from KArray vs(1) dec_all_in_step [OF assms vs(2)] show ?thesis
      by (simp add: jt_slice_def split: prod.splits) (metis snd_conv)
  qed (simp_all add: jt_slice_def)
qed

definition field_in_step :: "'r json_field \<Rightarrow> bool" where
  "field_in_step f \<longleftrightarrow> (\<forall>ctx v r. complete_value v \<longrightarrow> in_sync (snd (fl_read f ctx v r)))"

lemma field_in_stepI:
  assumes "in_step T"
  shows "field_in_step (field n T get upd)" "field_in_step (field_omitempty n T get upd)"
  using assms by (simp_all add: in_step_def field_in_step_def split: prod.splits) (metis snd_conv)+

lemma find_field_mem: "find_field fs k = Some f \<Longrightarrow> f \<in> set fs"
  by (auto simp: find_field_def find_Some_iff split: option.splits)

lemma read_named_in_step:
  assumes "list_all field_in_step fs"
  shows "list_all (\<lambda>(k, v). complete_value v) ms \<Longrightarrow> in_sync (snd (read_named sname path fs ms r))"
proof (induction ms arbitrary: r)
  case (Cons m ms)
  obtain k v where m: "m = (k, v)" by (cases m)
  show ?case
  proof (cases "find_field fs k")
    case (Some f)
    obtain r1 st where d: "fl_read f (sname, path @ [fl_name f]) v r = (r1, st)" by fastforce
    have "field_in_step f" using assms find_field_mem [OF Some] by (simp add: list_all_iff)
    with d Cons.prems m have "in_sync st" by (metis case_prodD field_in_step_def list.pred_inject(2) snd_conv)
    moreover obtain r2 st2 where d2: "read_named sname path fs ms r1 = (r2, st2)" by fastforce
    moreover from d2 Cons have "in_sync st2" by (metis list.pred_inject(2) snd_conv)
    ultimately show ?thesis using d Some m in_sync_then [of st st2] by (cases st) simp_all
  qed (use Cons m in simp)
qed simp

lemma struct_in_step:
  assumes "list_all field_in_step fs"
  shows "in_step (jt_struct pkg sname fs zero)"
  unfolding in_step_def
proof (intro allI impI)
  fix ctx v r
  assume v: "complete_value v"
  show "in_sync (snd (jt_dec (jt_struct pkg sname fs zero) ctx v r))"
  proof (cases "value_kind v")
    case KObject
    from named_members_complete [OF v this] obtain ms where
      ms: "named_members v = Some ms" "list_all (\<lambda>(k, v). complete_value v) ms" by blast
    from read_named_in_step [OF assms ms(2)] KObject ms(1) show ?thesis by (simp add: jt_struct_def)
  qed (simp_all add: jt_struct_def)
qed

lemmas in_step_rules = string_in_step int_in_step raw_in_step time_in_step ptr_in_step slice_in_step struct_in_step field_in_stepI

lemma Unmarshal_in_step:
  assumes "in_step T"
  shows "fst (json_Unmarshal T data a) \<noteq> Some json_phase_error"
proof (cases "json_valid data")
  case False
  then show ?thesis by (simp add: json_Unmarshal_def json_syntax_error_def json_phase_error_def)
next
  case True
  obtain a' st where d: "jt_dec T ([], []) (fst (next_value data)) a = (a', st)" by fastforce
  with assms next_value_top [OF True] have "in_sync st" by (metis in_step_def snd_conv)
  with d True show ?thesis by (cases st) (simp_all add: json_Unmarshal_def)
qed

end
