(* ===== verification/WireSafety.thy ===== *)
theory WireSafety
  imports JsonProgress ConsumerDelivery DlqHandler
begin

section \<open>What the readers of the wire can rely on\<close>

text \<open>
  The consumer and the replayer decode bytes that anyone may have written. Here: the decoder never
  panics on them, whatever they are; a message that was cut off on the way is rejected; and a
  message that decodes need not be a valid envelope.
\<close>

subsection \<open>A prefix of an object is not a value\<close>

definition top_closed :: "scanner \<Rightarrow> bool" where
  "top_closed s \<longleftrightarrow> (snd s = [] \<longrightarrow> fst s = EndTop)"

lemma top_closed_simps [simp]:
  "top_closed (EndTop, stk)" "st \<noteq> EndTop \<Longrightarrow> top_closed (st, stk) \<longleftrightarrow> stk \<noteq> []"
  by (simp_all add: top_closed_def)

lemma end_value_closed: "end_value c stk = Some t \<Longrightarrow> top_closed t"
  by (cases stk; cases "hd stk") (auto simp: end_value_def end_top_def pop_state_def split: if_splits)

lemma state_0_closed: "state_0 c stk = Some t \<Longrightarrow> stk \<noteq> [] \<Longrightarrow> top_closed t"
  by (auto simp: state_0_def end_value_closed split: if_splits)

lemma begin_value_closed: "begin_value c stk = Some t \<Longrightarrow> stk \<noteq> [] \<Longrightarrow> top_closed t"
  by (auto simp: begin_value_def push_state_def top_closed_def split: if_splits)

lemma begin_string_closed: "begin_string c stk = Some t \<Longrightarrow> stk \<noteq> [] \<Longrightarrow> top_closed t"
  by (auto simp: begin_string_def split: if_splits)

lemma expect_closed: "expect b st stk = Some t \<Longrightarrow> stk \<noteq> [] \<Longrightarrow> top_closed t"
  by (auto simp: expect_def top_closed_def split: if_splits)

lemmas closed_rules = end_value_closed state_0_closed begin_value_closed begin_string_closed expect_closed

lemma scan_step_closed:
  assumes "scan_step c s = Some s'" "top_closed s"
  shows "top_closed s'"
proof -
  obtain st stk where s: "s = (st, stk)" by (cases s)
  show ?thesis
  proof (cases "st = EndTop")
    case True
    with s assms show ?thesis by (auto simp: end_top_def split: if_splits)
  next
    case False
    with s assms(2) have "stk \<noteq> []" by simp
    with s assms(1) False show ?thesis by (cases st) (auto dest: closed_rules split: if_splits)
  qed
qed

lemma scan_run_closed: "scan_run xs s = Some s' \<Longrightarrow> top_closed s \<Longrightarrow> top_closed s'"
  by (induction xs arbitrary: s) (auto dest: scan_step_closed split: option.splits)

lemma object_prefix_invalid:
  assumes "json_valid v" "value_kind v = KObject" "\<not> json_space (last v)" "n < length v"
  shows "\<not> json_valid (take n v)"
proof
  assume valid: "json_valid (take n v)"
  from assms(2) obtain r where v: "v = CHR ''{'' # r" by (cases v) (auto simp: value_kind_def split: if_splits)
  have "scan_step (CHR ''{'') (BeginValue, []) = Some (BeginStringOrEmpty, [ObjectKey])"
    by (simp add: begin_value_def push_state_def maxNestingDepth_def)
  note start = this [unfolded scan_step.simps]
  show False
  proof (cases n)
    case 0
    with valid show False by (simp add: json_valid_def scan_eof_def begin_value_def json_space_def)
  next
    case (Suc k)
    let ?s = "(BeginStringOrEmpty, [ObjectKey])"
    from valid v Suc start obtain s1 where s1: "scan_run (take k r) ?s = Some s1" "scan_eof s1"
      by (auto simp: json_valid_def split: option.splits)
    from assms(1) v start obtain s2 where "scan_run r ?s = Some s2"
      by (auto simp: json_valid_def split: option.splits)
    then have "scan_run (drop k r) s1 = Some s2"
      using scan_run_append [of "take k r" "drop k r" ?s] s1(1) by simp
    moreover have "s1 = (EndTop, [])"
    proof -
      have "scanner_wf s1" using scan_run_wf [OF s1(1)] by simp
      from scan_eof_value_end [OF s1(2) this] have "snd s1 = []" by (simp add: value_end_def)
      with scan_run_closed [OF s1(1)] show ?thesis by (cases s1) (auto simp: top_closed_def)
    qed
    ultimately have "list_all json_space (drop k r)" using scan_run_EndTop by blast
    moreover have "last v \<in> set (drop k r)"
    proof -
      have ne: "drop k r \<noteq> []" using assms(4) v Suc by simp
      then have "last v = last (drop k r)" using v by auto
      with last_in_set [OF ne] show ?thesis by metis
    qed
    ultimately show False using assms(3) by (auto simp: list_all_iff)
  qed
qed

lemma clean_object_prefix_invalid:
  assumes "clean_value d v" "value_kind v = KObject" "n < length v"
  shows "\<not> json_valid (take n v)"
proof -
  from clean_value_run [OF assms(1)] obtain s where
    s: "clean_run d v (BeginValue, []) = Some s" "scan_run v (BeginValue, []) = Some s" "value_end s" .
  from clean_run_last [OF s(1,3) clean_value_nonempty [OF assms(1)]] have "\<not> json_space (last v)" by simp
  with object_prefix_invalid [OF clean_value_valid [OF assms(1)] assms(2) _ assms(3)] show ?thesis by blast
qed

subsection \<open>The decoders keep in step\<close>

lemma actor_in_step: "in_step uid \<Longrightarrow> in_step (actor_type uid)"
  unfolding actor_type_def actor_fields_def by (rule struct_in_step) (simp add: in_step_rules)

lemma envelope_in_step: "in_step uid \<Longrightarrow> in_step (envelope_type uid)"
  unfolding envelope_type_def envelope_fields_def
  by (rule struct_in_step) (simp add: in_step_rules actor_in_step)

lemma dlq_in_step: "in_step uid \<Longrightarrow> in_step (dlq_alias_type uid)"
  unfolding dlq_alias_type_def dlq_fields_def
  by (rule struct_in_step) (simp add: in_step_rules envelope_in_step)

text \<open>
  The decoder walks over the input a second time, trusting the syntax check, and would panic
  (phasePanicMsg) where it finds what the scanner cannot have accepted. Neither the decoding of an
  envelope nor that of a dead letter's alias gets there, whatever the bytes are; so the model may
  treat \<open>json_phase_error\<close> like any other error.
\<close>

lemma decoders_never_panic:
  assumes "in_step uid"
  shows "fst (json_Unmarshal (envelope_type uid) data e) \<noteq> Some json_phase_error"
    "fst (json_Unmarshal (dlq_alias_type uid) data m) \<noteq> Some json_phase_error"
  using Unmarshal_in_step [OF envelope_in_step [OF assms]] Unmarshal_in_step [OF dlq_in_step [OF assms]] by blast+

subsection \<open>Truncated messages\<close>

text \<open>
  C16: A truncated message is rejected: of the JSON of an envelope or of a dead letter no proper
  prefix, the empty one included, is decoded. The error is the one of the syntax check, so nothing
  has been decoded into the target.
\<close>

theorem truncated_message_rejected:
  assumes "jt_law d P uid" "Suc (Suc (Suc d)) \<le> maxNestingDepth"
    and "envelope_wire d P e" "marshal_envelope uid e = Inr ebytes" "n < length ebytes"
    and "dlq_wire d P m" "json_Marshal_dlq uid m = Inr mbytes" "k < length mbytes"
  shows "unmarshal_envelope uid (take n ebytes) = Inl json_syntax_error \<and>
    json_Unmarshal_dlq uid (take k mbytes) = Inl json_syntax_error"
proof
  from jt_lawD [OF envelope_law assms(3)] assms(1,2) obtain v where
    v: "jt_enc (envelope_type uid) e = Inr v" "clean_value (Suc (Suc d)) v" by (metis Suc_leD)
  with assms(4) have "v = ebytes" "value_kind v = KObject"
    by (auto simp: marshal_envelope_def json_Marshal_def envelope_type_def jt_struct_def split: sum.splits)
  with clean_object_prefix_invalid [OF v(2)] assms(5) show "unmarshal_envelope uid (take n ebytes) = Inl json_syntax_error"
    by (simp add: unmarshal_envelope_def json_Unmarshal_def)
next
  from jt_lawD [OF dlq_law [OF assms(1,2)] assms(6)] obtain v where
    v: "jt_enc (dlq_alias_type uid) m = Inr v" "clean_value (Suc (Suc (Suc d))) v" by blast
  with assms(7) have "v = mbytes" "value_kind v = KObject"
    by (auto simp: json_Marshal_dlq_def dlq_MarshalJSON_def json_Marshal_def marshaler_enc_clean [OF v(2)] dlq_alias_type_def
        jt_struct_def split: sum.splits)
  with clean_object_prefix_invalid [OF v(2)] assms(8) show "json_Unmarshal_dlq uid (take k mbytes) = Inl json_syntax_error"
    by (simp add: json_Unmarshal_dlq_def)
qed

definition sample_letter :: "nat dlq_message" where
  "sample_letter = dlq_zero\<lparr>dm_OriginalTopic := ''txova.rides.v1'', dm_Envelope := Some sample_envelope\<rparr>"

lemma sample_letter_wire: "dlq_wire d (\<lambda>_. True) sample_letter"
  using sample_envelope_wire
  by (simp add: sample_letter_def dlq_wire_def dlq_zero_def printable_time_zero is_ascii_def)

theorem truncated_message_rejected_witness:
  "\<exists>ebytes mbytes. marshal_envelope sample_uid sample_envelope = Inr ebytes \<and> json_Marshal_dlq sample_uid sample_letter = Inr mbytes \<and>
     unmarshal_envelope sample_uid (take (length ebytes - 1) ebytes) = Inl json_syntax_error \<and>
     json_Unmarshal_dlq sample_uid (take (length mbytes - 1) mbytes) = Inl json_syntax_error"
proof -
  have depth: "Suc (Suc 0) \<le> maxNestingDepth" "Suc (Suc (Suc 0)) \<le> maxNestingDepth" by (simp_all add: maxNestingDepth_def)
  have ne: "0 < length b" if "json_valid b" for b
    using that by (cases b) (auto simp: json_valid_def scan_eof_def begin_value_def json_space_def)
  from envelope_roundtrip [OF sample_uid_law depth(1) sample_envelope_wire] obtain eb where
    eb: "marshal_envelope sample_uid sample_envelope = Inr eb" "json_valid eb" by blast
  from dlq_message_roundtrip [OF sample_uid_law depth(2) sample_letter_wire] obtain mb where
    mb: "json_Marshal_dlq sample_uid sample_letter = Inr mb" "json_Unmarshal_dlq sample_uid mb = Inr sample_letter" by blast
  then have "json_valid mb" by (auto simp: json_Unmarshal_dlq_def split: if_splits)
  then have "length eb - 1 < length eb" "length mb - 1 < length mb" using ne eb(2) by simp_all
  from truncated_message_rejected [OF sample_uid_law depth(2) sample_envelope_wire eb(1) this(1) sample_letter_wire mb(1) this(2)]
  show ?thesis using eb(1) mb(1) by blast
qed

subsection \<open>Documents that are no envelopes\<close>

text \<open>
  The document in some bytes, and the documents without any of the envelope's fields: null, and
  the objects none of whose member names, in any case, is one of them. Space, escapes in the names
  and the values are arbitrary.
\<close>

definition document :: "bytes \<Rightarrow> bytes" where
  "document data = fst (next_value data)"

definition member_names :: "bytes \<Rightarrow> string list" where
  "member_names v = (case named_members v of None \<Rightarrow> [] | Some ms \<Rightarrow> map fst ms)"

definition foreign_document :: "'uid json_type \<Rightarrow> bytes \<Rightarrow> bool" where
  "foreign_document uid data \<longleftrightarrow> json_valid data \<and> (value_kind (document data) = KNull \<or>
     value_kind (document data) = KObject \<and>
       list_all (\<lambda>n. find_field (envelope_fields uid) n = None) (member_names (document data)))"

lemma read_named_unknown: "list_all (\<lambda>(n, v). find_field fs n = None) ms \<Longrightarrow> read_named sname path fs ms r = (r, DecOk)"
  by (induction sname path fs ms r rule: read_named.induct) auto

lemma foreign_document_decoded:
  assumes "foreign_document uid data"
  shows "unmarshal_envelope uid data = Inr envelope_zero"
proof -
  let ?v = "document data"
  have valid: "json_valid data" using assms by (simp add: foreign_document_def)
  have "jt_dec (envelope_type uid) ([], []) ?v envelope_zero = (envelope_zero, DecOk)"
  proof (cases "value_kind ?v = KNull")
    case True
    then show ?thesis by (simp add: envelope_type_def jt_struct_def)
  next
    case False
    with assms have v: "value_kind ?v = KObject"
      "list_all (\<lambda>n. find_field (envelope_fields uid) n = None) (member_names ?v)" by (auto simp: foreign_document_def)
    from next_value_top [OF valid] have "complete_value ?v" by (simp add: document_def)
    from named_members_complete [OF this v(1)] obtain ms where ms: "named_members ?v = Some ms" by blast
    with v(2) have "list_all (\<lambda>(n, v). find_field (envelope_fields uid) n = None) ms"
      by (simp add: member_names_def list_all_iff case_prod_unfold)
    with v(1) ms show ?thesis by (simp add: envelope_type_def jt_struct_def read_named_unknown)
  qed
  with valid show ?thesis by (simp add: unmarshal_envelope_def json_Unmarshal_def document_def)
qed

lemma other_document_rejected:
  assumes "json_valid data" "value_kind (document data) \<notin> {KNull, KObject}"
  shows "\<exists>e. unmarshal_envelope uid data = Inl e"
  using assms by (cases "value_kind (document data)")
    (simp_all add: unmarshal_envelope_def json_Unmarshal_def document_def envelope_type_def jt_struct_def)

text \<open>
  C17: An invalid event reaches a handler: the consumer never validates what it has decoded. A
  JSON null, or an object without any of the envelope's fields, decodes to the zero envelope, which
  \<open>Validate\<close> refuses (no producer of this library would have sent it), and if the registry has a
  handler for the empty type, as any registry with a fallback has, the handler is called with it.
  A document of any other kind (an array, a string, a number, a boolean) does not decode: it is
  logged and marked, and no handler is called.
\<close>

theorem foreign_document_reaches_handler:
  assumes "json_valid (msg_Value msg)" "registry_Get (con_registry c) [] = Some h"
    and "1 \<le> cc_MaxRetries (con_config c)"
  shows "(foreign_document uid (msg_Value msg) \<longrightarrow>
      envelope_Validate (envelope_zero :: 'uid envelope) = Some envelope_ErrIDRequired \<and>
      (\<exists>s' panic rest. processMessage (unmarshal_envelope uid) c msg s = (s', panic) \<and>
        ses_trace s' = ses_trace s @ AInvoke envelope_zero (fst (h envelope_zero (ses_world s))) # rest)) \<and>
    (value_kind (document (msg_Value msg)) \<notin> {KNull, KObject} \<longrightarrow>
      processMessage (unmarshal_envelope uid) c msg s =
        (MarkMessage msg (log LError ''failed to unmarshal envelope'' s), None))"
proof (intro conjI impI)
  show "envelope_Validate (envelope_zero :: 'uid envelope) = Some envelope_ErrIDRequired"
    by (simp add: envelope_Validate_def envelope_zero_def)
  have h: "registry_Get (con_registry c) (env_Type envelope_zero) = Some h" using assms(2) by (simp add: envelope_zero_def)
  assume "foreign_document uid (msg_Value msg)"
  from processMessage_first_call [where unmarshal = "unmarshal_envelope uid", OF foreign_document_decoded [OF this] h assms(3)]
  show "\<exists>s' panic rest. processMessage (unmarshal_envelope uid) c msg s = (s', panic) \<and>
      ses_trace s' = ses_trace s @ AInvoke envelope_zero (fst (h envelope_zero (ses_world s))) # rest" .
next
  assume "value_kind (document (msg_Value msg)) \<notin> {KNull, KObject}"
  with other_document_rejected [OF assms(1), of uid] show "processMessage (unmarshal_envelope uid) c msg s =
        (MarkMessage msg (log LError ''failed to unmarshal envelope'' s), None)"
    by (auto simp: processMessage_def)
qed

theorem foreign_document_reaches_handler_witness:
  "(\<exists>s' panic rest. processMessage (unmarshal_envelope sample_uid) (sample_consumer 3 None)
      (sample_message\<lparr>msg_Value := ''{ \"ID2\" :[7]}''\<rparr>) sample_session = (s', panic) \<and>
    ses_trace s' = AInvoke envelope_zero (Returned (Some sample_error)) # rest) \<and>
   snd (processMessage (unmarshal_envelope sample_uid) (sample_consumer 3 None)
      (sample_message\<lparr>msg_Value := ''[{}]''\<rparr>) sample_session) = None"
proof
  let ?m = "sample_message\<lparr>msg_Value := ''{ \"ID2\" :[7]}''\<rparr>" and ?k = "sample_message\<lparr>msg_Value := ''[{}]''\<rparr>"
  let ?c = "sample_consumer 3 None :: (nat, nat, unit) consumer"
  have n: "1 \<le> cc_MaxRetries (con_config ?c)" by simp
  have "json_valid (msg_Value ?m)" "foreign_document sample_uid (msg_Value ?m)" by code_simp+
  from foreign_document_reaches_handler [OF this(1) sample_Get n, THEN conjunct1, THEN mp, OF this(2), THEN conjunct2, of sample_session]
  show "\<exists>s' panic rest. processMessage (unmarshal_envelope sample_uid) ?c ?m sample_session = (s', panic) \<and>
    ses_trace s' = AInvoke envelope_zero (Returned (Some sample_error)) # rest"
    by (simp only: flaky_handler_def sample_settings append_Nil) simp
  have "json_valid (msg_Value ?k)" "value_kind (document (msg_Value ?k)) \<notin> {KNull, KObject}" by code_simp+
  from foreign_document_reaches_handler [OF this(1) sample_Get n, THEN conjunct2, THEN mp, OF this(2), of sample_uid sample_session]
  show "snd (processMessage (unmarshal_envelope sample_uid) ?c ?k sample_session) = None" by simp
qed

end
