(* ===== verification/Spec2Isabelle.thy ===== *)
theory Spec2Isabelle
  imports Topics ConsumerDelivery ConsumerSession ConsumerLifecycle GroupHealth Producer ProducerLifecycle DlqHandler
    Replayer ReplayerLifecycle EndToEnd EventJourney PayloadRoundtrips WireSafety
begin

text \<open>
  A verification development of the Go library txova-go-kafka.

  THE PROGRAM. The library carries events over Kafka. Package \<open>envelope\<close> wraps a payload with
  identifiers, a type, a version and a correlation id and validates it. Package \<open>events\<close> names
  the event types and declares their payloads, package \<open>topics\<close> routes a type to a topic, a topic to its dead letter topic
  and partition key, and a service to its consumer group. Package \<open>producer\<close> validates,
  encodes and sends envelopes through a synchronous Kafka producer. Package \<open>consumer\<close> runs a
  consumer group: it decodes each message, finds the handler of its type, retries it, calls a
  dead letter callback when every attempt failed, and marks the message; it also has a health
  checker for consumer groups. Package \<open>dlq\<close> sends failed events to a dead letter topic (its
  callback is what a consumer is given) and replays them from there through a handler.

  THEORIES, AND THE CODE THEY MODEL (paths under src/).
  \<^item> \<open>Prelude\<close>: Go errors with wrapping (\<open>errors.Is\<close>, \<open>fmt.Errorf\<close>, \<open>errors.Join\<close>), outcomes of
    caller functions (an error, nil or a panic), decimal printing, Go maps with an unspecified
    iteration order, reachability; the interfaces (locales) \<open>go_map\<close>, \<open>step_invariant\<close>,
    \<open>shutdown\<close>, \<open>obliged_shutdown\<close>, \<open>close_once\<close> and \<open>claim_loop\<close>, with the lemmas their clients need.
  \<^item> \<open>GoStrings\<close>, \<open>GoRegexp\<close>, \<open>GoTime\<close>, \<open>GoSync\<close>: what the code uses of the standard library:
    ranging over the runes of a byte string, matching the version pattern, time values, wait
    groups with their panics.
  \<^item> \<open>JsonScanner\<close>, \<open>JsonString\<close>, \<open>JsonText\<close>, \<open>JsonObject\<close>, \<open>JsonArray\<close>, \<open>JsonTypes\<close>: what the
    code uses of \<open>encoding/json\<close>: the scanner's automaton, quoting and unquoting of strings,
    compaction, the members of an object, and a type as a pair of an encoder and a decoder, a
    struct being the list of its tagged fields. \<open>GoCalendar\<close>, \<open>JsonTime\<close>: times as RFC 3339
    text. \<open>JsonProgress\<close>: the decoder never finds what the scanner cannot have accepted.
  \<^item> \<open>EnvelopeJson\<close>: the JSON of an envelope by its struct tags, and the two calls that encode
    and decode it (producer/producer.go, consumer/consumer.go); the JSON of a dead letter is in
    \<open>DlqMessage\<close>.
  \<^item> \<open>UserEvents\<close>, \<open>DriverEvents\<close>, \<open>RideEvents\<close>, \<open>PaymentEvents\<close>, \<open>SafetyEvents\<close> (the files of these
    names under events/): the payloads with their JSON by their struct tags; \<open>EventCodec\<close> has
    what their proofs share, \<open>PayloadRoundtrips\<close> their properties, among them which payloads
    contain the partition key of their topic.
  \<^item> \<open>EventTypes\<close> (events/types.go), \<open>Topics\<close> (topics/topics.go, topics/consumer\_groups.go),
    \<open>Envelope\<close> (envelope/envelope.go).
  \<^item> \<open>ConsumerConfig\<close> (consumer/config.go, consumer/errors.go), \<open>HandlerRegistry\<close>
    (consumer/handler.go), \<open>Consumer\<close> and \<open>ConsumerDelivery\<close> (consumer/consumer.go: \<open>New\<close>,
    \<open>ConsumeClaim\<close>, \<open>processMessage\<close>, \<open>invokeHandler\<close>), \<open>ConsumerSession\<close>
    (the concurrent claims of a session), \<open>ConsumerLifecycle\<close> (\<open>Start\<close>, \<open>Close\<close>),
    \<open>GroupHealth\<close> (consumer/group\_health.go).
  \<^item> \<open>Producer\<close> (producer/errors.go, config.go, producer.go) and \<open>ProducerLifecycle\<close> (its
    \<open>PublishToTopic\<close> and \<open>Close\<close> run concurrently).
  \<^item> \<open>DlqMessage\<close> (dlq/message.go), \<open>DlqHandler\<close> (dlq/handler.go), \<open>Replayer\<close> and
    \<open>ReplayerLifecycle\<close> (dlq/replayer.go).
  \<^item> \<open>EndToEnd\<close>: the packages together: publish and consume, consume and dead-letter, dead-letter
    and replay, through the bytes on the wire. \<open>EventJourney\<close>: a typed payload from \<open>New\<close> to
    \<open>UnmarshalPayload\<close>. \<open>WireSafety\<close>: bytes that no producer of this library has written.

  HOW STATE AND OPERATIONS CORRESPOND. A Go struct is a record with a field per field of the
  code that the behaviour depends on (loggers are left out: log lines, where they are kept, go to
  the trace). A method is a function from its receiver's state to the new state and its result;
  a caller supplied function (handler, callback, filter) is a function over a world of its own
  that it may change, whose result may be a panic. The Kafka client (sarama) is not part of the
  repository: its interfaces are records of functions or arguments, and its constants are
  arguments. Everything a component does to the outside (messages sent, marks, handler calls,
  dead letters, log lines, closing of the client) is recorded, in order, in a trace, on which the
  properties are stated. Offsets, lags and counters are 64-bit words, partitions 32-bit words;
  counts that the code only compares or prints are integers. \<open>ConsumeClaim\<close> receives the list
  of messages its channel delivers until it is closed.

  Concurrent methods are a second view of the same code: a step relation (\<open>consumer_step\<close>,
  \<open>producer_step\<close>, \<open>replayer_step\<close>, \<open>session_step\<close>) over the closed flag, the lock or wait group, the count of
  client closings and one program counter per goroutine, for any number of goroutines of each
  kind. One step is one lock section, wait group operation, context test or client call; the
  decisions taken in a step are definitions of their own, named in the manifest. A step relation
  says what may happen: a call of \<open>Consume\<close> may return, a context may be cancelled. Where the end of
  a run must not rely on that, it is stated for the steps that are due (\<open>patient_step\<close>). The wait
  group of the consumer has its parked waiters and its panics, which end the process; the one of
  the replayer cannot be misused, as it is joined under the lock, and is a counter. In
  \<open>session_step\<close> the goroutines are the claims, and a step is what a claim does between two
  calls of the handler, the callback or the session.

  WHAT THE LEMMAS SHOW.
  \<^item> Delivery: \<open>retry_loop\<close> implements the abstract \<open>attempts\<close>; processing a message is the
    attempts, at most one dead letter and the mark; a claim marks a prefix of its messages in
    order (\<open>interpretation consumer_claim\<close>); what is lost without a callback or with a retry
    count that is not positive.
  \<^item> Sessions: a claim taken step by step does what \<open>ConsumeClaim\<close> does; in every interleaving
    of the claims the marks of each are a gapless prefix of its messages; every session ends.
  \<^item> Publication: one correctly addressed message exactly for the envelopes that are complete,
    encodable and routed; batches stop at their first failure; a producer closes its client
    once, as its last action (\<open>interpretation producer_closing\<close>).
  \<^item> Dead letters: what is sent, what is recorded, and that the event is marked in any case; a
    replay claim stops at its first failure (\<open>interpretation replay_claim\<close>), counts exactly, and
    calls the handler for exactly the eligible letters.
  \<^item> Health: the decision table of a check, lag by partition, its independence of map orders,
    the absence of overflow below 63 bits, and that connections are released.
  \<^item> Concurrency: invariants over all interleavings (\<open>step_invariant\<close>), the end of every run
    (\<open>shutdown\<close>: a rank that every step decreases and the absence of deadlock;
    \<open>obliged_shutdown\<close>: the same with the steps that are due alone), and
    reachable interleavings that show where the code's locking leaves a window, one of them the
    panic of a wait group that is joined too late.
  \<^item> The wire: the law \<open>jt_law\<close> (what is printed is a compact JSON value and is read back)
    composes from strings, integers, times, pointers, slices and raw values to structs, so that
    envelopes, dead letters and payloads are decoded to themselves; the second law \<open>in_step\<close>
    (no decoder panics on text that the scanner accepted) composes in the same way; truncated
    messages are rejected; of the documents that are no envelopes, null and objects reach a
    fallback handler and all others are skipped.
  \<^item> Names and envelopes: routing by domain, splitting of event types, validation, creation and the choice
    of the correlation id.

  BOUNDS. No definition uses fuel: the retry loop terminates by the measure
  \<open>MaxRetries + 1 - attempt\<close>, the scans of strings, objects and arrays by the length of the rest
  of the input, every other recursion is structural. The retry loop's counter is an unbounded
  integer, which agrees with the code for every \<open>MaxRetries\<close> below the largest machine integer.
  The nesting limit of the JSON scanner (10000) is the library's; the round trips ask that the
  nesting of the values stays within it.

  NOT MODELLED. The codecs of types that other modules declare (identifiers, enumerations,
  locations, phone numbers) and of floating point numbers: they are parameters with their laws as
  hypotheses, each shown to hold for a concrete codec. The text of a JSON syntax error and of a
  time parse error (one error each). The backing array of a slice that is decoded into a slice
  with elements left over from before. The duration in a health result and the log lines of the
  health checker. Unlocking and locking of a mutex other than the order it imposes on steps.
  \<open>Setup\<close> and \<open>Cleanup\<close> of the two group handlers, which return nil and do nothing, and
  \<open>Replay\<close>, which is \<open>ReplayWithFilter\<close> without a filter.
\<close>

end
